(* ===== verification/Coen_Prelude.thy ===== *)
theory Coen_Prelude
  imports Main "HOL-Library.Sublist" "HOL-Library.Word"
begin

text \<open>
  The prelude of the development: the types every component shares (Go strings and byte
  slices, durations, fingerprints), the collections that carry the component proofs
  (\<open>coen_simps\<close> for the unfolding rules of operations, \<open>coen_inv\<close> for invariant
  preservation), and generic facts about lists, options and maps.

  A Go \<^verbatim>\<open>string\<close> and a \<^verbatim>\<open>[]byte\<close> are both a list of 8-bit \<open>char\<close> values.
  A \<^verbatim>\<open>time.Duration\<close> and a \<^verbatim>\<open>time.Time\<close> are integers counting nanoseconds, except
  where the width of the arithmetic matters (the agent's reconnect backoff), where they are
  64-bit words.
\<close>

named_theorems coen_simps
named_theorems coen_inv

type_synonym bytes = string
type_synonym fingerprint = string
type_synonym duration = int
type_synonym instant = int

text \<open>Nanoseconds per millisecond and per second, as in package \<^verbatim>\<open>time\<close>.\<close>

definition millisecond :: duration where
  "millisecond = 1000000"

definition second :: duration where
  "second = 1000 * millisecond"

text \<open>A slice literal ranged over with its index (\<^verbatim>\<open>for i, x := range xs\<close>).\<close>

abbreviation ranged :: "'a list \<Rightarrow> (nat \<times> 'a) list" where
  "ranged xs \<equiv> enumerate 0 xs"

subsection \<open>Lists\<close>

text \<open>Removing the first element that satisfies a predicate, as the registry and the stream
  pool do with \<^verbatim>\<open>append(xs[:i:i], xs[i+1:]...)\<close> and a \<^verbatim>\<open>break\<close>.\<close>

fun remove_first :: "('a \<Rightarrow> bool) \<Rightarrow> 'a list \<Rightarrow> 'a list" where
  "remove_first p [] = []"
| "remove_first p (x # xs) = (if p x then xs else x # remove_first p xs)"

lemma set_remove_first_subset: "set (remove_first p xs) \<subseteq> set xs"
  by (induction xs) auto

lemma remove_first_id: "(\<And>x. x \<in> set xs \<Longrightarrow> \<not> p x) \<Longrightarrow> remove_first p xs = xs"
  by (induction xs) auto

lemma length_remove_first:
  "length (remove_first p xs) = (if \<exists>x \<in> set xs. p x then length xs - 1 else length xs)"
proof (induction xs)
  case Nil
  then show ?case by simp
next
  case (Cons a xs)
  then show ?case by (cases xs) auto
qed

lemma distinct_map_remove_first:
  "distinct (map f xs) \<Longrightarrow> distinct (map f (remove_first p xs))"
  using set_remove_first_subset by (induction xs) fastforce+

lemma remove_first_filter:
  "distinct (map f xs) \<Longrightarrow> remove_first (\<lambda>x. f x = k) xs = filter (\<lambda>x. f x \<noteq> k) xs"
proof (induction xs)
  case Nil
  then show ?case by simp
next
  case (Cons a xs)
  show ?case
  proof (cases "f a = k")
    case True
    with Cons.prems have "\<forall>x \<in> set xs. f x \<noteq> k" by (auto simp: image_iff)
    then have "filter (\<lambda>x. f x \<noteq> k) xs = xs" by (simp add: filter_id_conv)
    with True show ?thesis by simp
  next
    case False
    with Cons show ?thesis by simp
  qed
qed

lemma filter_eq_length_iff: "length (filter p xs) = length xs \<longleftrightarrow> filter p xs = xs"
  by (metis filter_id_conv length_filter_less less_irrefl)

lemma find_filter_hd: "List.find p xs = (case filter p xs of [] \<Rightarrow> None | x # _ \<Rightarrow> Some x)"
  by (induction xs) auto

lemma find_Some_props: "List.find p xs = Some x \<Longrightarrow> x \<in> set xs \<and> p x"
  by (induction xs) (auto split: if_splits)

lemma find_None_props: "List.find p xs = None \<longleftrightarrow> (\<forall>x \<in> set xs. \<not> p x)"
  by (induction xs) auto

text \<open>A boolean fold over a list that only ever adds keys to a map.\<close>

lemma map_upds_fold_dom:
  "dom (foldl (\<lambda>m x. m(f x \<mapsto> g x)) m xs) = dom m \<union> f ` set xs"
  by (induction xs arbitrary: m) auto

lemma filter_singleton_distinct:
  "distinct (map f xs) \<Longrightarrow> x \<in> set xs \<Longrightarrow> filter (\<lambda>y. f y = f x) xs = [x]"
proof (induction xs)
  case Nil
  then show ?case by simp
next
  case (Cons a xs)
  show ?case
  proof (cases "a = x")
    case True
    with Cons.prems(1) have "\<forall>y \<in> set xs. f y \<noteq> f x" by (auto simp: image_iff)
    with True show ?thesis by simp
  next
    case False
    with Cons.prems have "x \<in> set xs" "f a \<noteq> f x" by (auto simp: image_iff)
    with Cons False show ?thesis by simp
  qed
qed

subsection \<open>Transition systems\<close>

text \<open>The states reachable from the initial ones by steps, and the contract of an inductive
  invariant: every component with a step relation interprets it.\<close>

inductive reach :: "('s \<Rightarrow> bool) \<Rightarrow> ('s \<Rightarrow> 's \<Rightarrow> bool) \<Rightarrow> 's \<Rightarrow> bool"
  for init :: "'s \<Rightarrow> bool" and step :: "'s \<Rightarrow> 's \<Rightarrow> bool" where
  reach_init: "init s \<Longrightarrow> reach init step s"
| reach_step: "reach init step s \<Longrightarrow> step s t \<Longrightarrow> reach init step t"

locale inductive_invariant =
  fixes init :: "'s \<Rightarrow> bool" and step :: "'s \<Rightarrow> 's \<Rightarrow> bool" and inv :: "'s \<Rightarrow> bool"
  assumes inv_init: "init s \<Longrightarrow> inv s"
    and inv_step: "inv s \<Longrightarrow> step s t \<Longrightarrow> inv t"
begin

lemma reach_inv: "reach init step s \<Longrightarrow> inv s"
  by (induction rule: reach.induct) (auto intro: inv_init inv_step)

lemma steps_inv:
  assumes "step\<^sup>*\<^sup>* s t" and "inv s"
  shows "inv t"
  using assms by (induction rule: rtranclp_induct) (auto intro: inv_step)

end

end
