(* ===== verification/Registry.thy ===== *)
theory Registry
  imports Coen_Prelude
begin

text \<open>
  \<^verbatim>\<open>internal/edge/registry.go\<close>: the pool of agent sessions the balancer picks from. A
  \<^verbatim>\<open>*yamux.Session\<close> is a number; whether it is closed is not the registry's state but the
  session's, so the operations that ask take the predicate \<open>closed\<close>. An
  \<^verbatim>\<open>*agentConn\<close> is represented by its immutable fields; its session identifies it, since
  \<^verbatim>\<open>serveAgent\<close> makes exactly one per session. Each operation runs under \<^verbatim>\<open>r.mu\<close>, so it
  is one step; the steps of all goroutines interleave in the relation \<open>reg_step\<close>.
\<close>

subsection \<open>Data\<close>

type_synonym session = nat

record agentConn =
  cfp :: fingerprint
  csess :: session
  cv2 :: bool

record tracked =
  tfp :: fingerprint
  tjoined :: bool

record registry =
  byFP :: "fingerprint \<rightharpoonup> agentConn list"
  all :: "session \<rightharpoonup> tracked"
  joined :: "fingerprint \<rightharpoonup> int"
  pending :: "fingerprint \<rightharpoonup> int"
  shared :: "fingerprint set"
  closing :: bool
  joinGen :: nat  \<comment> \<open>how many times joinedCh has been closed and replaced\<close>

definition newRegistry :: registry where
  "newRegistry = \<lparr>byFP = Map.empty, all = Map.empty, joined = Map.empty, pending = Map.empty,
     shared = {}, closing = False, joinGen = 0\<rparr>"

text \<open>\<^verbatim>\<open>joins\<close> returns the current channel: the number of the join that will close it.\<close>

definition joins :: "registry \<Rightarrow> nat" where
  "joins r = joinGen r"

datatype registration = registered | refusedDuplicate | refusedCap | refusedGone

datatype trackResult = trackOK | trackClosing | trackCapped

definition maxSharedSessions :: int where
  "maxSharedSessions = 256"

text \<open>Reading a missing key of a Go map yields the zero value.\<close>

definition pool :: "registry \<Rightarrow> fingerprint \<Rightarrow> agentConn list" where
  "pool r fp = (case byFP r fp of None \<Rightarrow> [] | Some cs \<Rightarrow> cs)"

definition count_of :: "('k \<rightharpoonup> int) \<Rightarrow> 'k \<Rightarrow> int" where
  "count_of m k = (case m k of None \<Rightarrow> 0 | Some n \<Rightarrow> n)"

subsection \<open>Operations\<close>

text \<open>\<^verbatim>\<open>liveLocked\<close> returns the live sessions and drops the closed ones from the map.\<close>

definition liveLocked :: "(session \<Rightarrow> bool) \<Rightarrow> fingerprint \<Rightarrow> registry \<Rightarrow> agentConn list \<times> registry" where
  "liveLocked closed fp r =
     (let conns = pool r fp; live = filter (\<lambda>c. \<not> closed (csess c)) conns
      in if length live = length conns then (conns, r)
         else if length live = 0 then (live, r\<lparr>byFP := (byFP r)(fp := None)\<rparr>)
         else (live, r\<lparr>byFP := (byFP r)(fp \<mapsto> live)\<rparr>))"

definition duplicateLocked :: "registry \<Rightarrow> fingerprint \<Rightarrow> agentConn list \<Rightarrow> bool" where
  "duplicateLocked r fp live \<longleftrightarrow> fp \<notin> shared r \<and> 0 < length live"

definition hasLiveExclusive :: "(session \<Rightarrow> bool) \<Rightarrow> fingerprint \<Rightarrow> registry \<Rightarrow> bool \<times> registry" where
  "hasLiveExclusive closed fp r =
     (let (live, r') = liveLocked closed fp r in (duplicateLocked r' fp live, r'))"

text \<open>\<^verbatim>\<open>if m[k]--; m[k] <= 0 { delete(m, k) }\<close>, in \<^verbatim>\<open>unpendLocked\<close> and in \<^verbatim>\<open>drop\<close>.\<close>

definition decr :: "('k \<rightharpoonup> int) \<Rightarrow> 'k \<Rightarrow> ('k \<rightharpoonup> int)" where
  "decr m k = (let n = count_of m k - 1 in if n \<le> 0 then m(k := None) else m(k \<mapsto> n))"

definition unpendLocked :: "fingerprint \<Rightarrow> registry \<Rightarrow> registry" where
  "unpendLocked fp r = r\<lparr>pending := decr (pending r) fp\<rparr>"

definition registerConn :: "(session \<Rightarrow> bool) \<Rightarrow> fingerprint \<Rightarrow> agentConn \<Rightarrow> registry \<Rightarrow>
    (registration \<times> nat) \<times> registry" where
  "registerConn closed fp c r0 =
     (let (live, r) = liveLocked closed fp r0
      in if closing r \<or> closed (csess c) then ((refusedGone, 0), r)
         else if duplicateLocked r fp live then ((refusedDuplicate, 0), r)
         else if maxSharedSessions \<le> count_of (joined r) fp then ((refusedCap, 0), r)
         else
           (let r = r\<lparr>byFP := (byFP r)(fp \<mapsto> live @ [c]), joinGen := Suc (joinGen r)\<rparr>;
                r = (case all r (csess c) of
                    Some t \<Rightarrow>
                      if tjoined t then r
                      else unpendLocked fp (r\<lparr>all := (all r)(csess c \<mapsto> t\<lparr>tjoined := True\<rparr>),
                             joined := (joined r)(fp \<mapsto> count_of (joined r) fp + 1)\<rparr>)
                  | None \<Rightarrow> r)
            in ((registered, length (pool r fp)), r)))"

definition track :: "fingerprint \<Rightarrow> session \<Rightarrow> registry \<Rightarrow> trackResult \<times> registry" where
  "track fp s r =
     (if closing r then (trackClosing, r)
      else if maxSharedSessions \<le> count_of (pending r) fp then (trackCapped, r)
      else (trackOK, r\<lparr>all := (all r)(s \<mapsto> \<lparr>tfp = fp, tjoined = False\<rparr>),
                      pending := (pending r)(fp \<mapsto> count_of (pending r) fp + 1)\<rparr>))"

definition removeLocked :: "fingerprint \<Rightarrow> session \<Rightarrow> registry \<Rightarrow> registry" where
  "removeLocked fp s r =
     (let conns = pool r fp
      in if \<exists>c \<in> set conns. csess c = s then
           (let conns' = remove_first (\<lambda>c. csess c = s) conns
            in if length conns' = 0 then r\<lparr>byFP := (byFP r)(fp := None)\<rparr>
               else r\<lparr>byFP := (byFP r)(fp \<mapsto> conns')\<rparr>)
         else r)"

definition take_session :: "fingerprint \<Rightarrow> session \<Rightarrow> registry \<Rightarrow> registry" where
  "take_session fp s r = removeLocked fp s r"

definition drop_session :: "session \<Rightarrow> registry \<Rightarrow> registry" where
  "drop_session s r = (case all r s of
      None \<Rightarrow> r
    | Some t \<Rightarrow>
        (let r = removeLocked (tfp t) s r;
             r = (if tjoined t then r\<lparr>joined := decr (joined r) (tfp t)\<rparr> else unpendLocked (tfp t) r)
         in r\<lparr>all := (all r)(s := None)\<rparr>))"

text \<open>\<^verbatim>\<open>candidates\<close>: the live and the dead pooled sessions of the fingerprints, in order.\<close>

definition candidates :: "(session \<Rightarrow> bool) \<Rightarrow> fingerprint list \<Rightarrow> registry \<Rightarrow> agentConn list \<times> agentConn list" where
  "candidates closed fps r =
     (let conns = concat (map (pool r) fps)
      in (filter (\<lambda>c. \<not> closed (csess c)) conns, filter (\<lambda>c. closed (csess c)) conns))"

text \<open>\<^verbatim>\<open>closeAll\<close> marks the registry and closes every tracked session (the order of the
  parallel closes does not matter): the new registry and the sessions it closes.\<close>

definition closeAll :: "registry \<Rightarrow> registry \<times> session set" where
  "closeAll r = (r\<lparr>closing := True\<rparr>, dom (all r))"

lemmas registry_ops = registerConn_def track_def take_session_def drop_session_def closeAll_def
  hasLiveExclusive_def

subsection \<open>The interleaved system\<close>

record reg_sys =
  reg :: registry
  closedS :: "session set"
  usedS :: "session set"  \<comment> \<open>sessions that have existed\<close>

abbreviation is_closed :: "reg_sys \<Rightarrow> session \<Rightarrow> bool" where
  "is_closed st s \<equiv> s \<in> closedS st"

text \<open>The initial registry is \<^verbatim>\<open>newRegistry\<close> with the configuration's shared fingerprints.\<close>

definition reg_start :: "reg_sys \<Rightarrow> bool" where
  "reg_start st \<longleftrightarrow> (\<exists>sh. reg st = newRegistry\<lparr>shared := sh\<rparr>) \<and> closedS st = {} \<and> usedS st = {}"

text \<open>
  One rule per call site: \<^verbatim>\<open>serveAgent\<close> tracks a new session, asks the duplicate rule,
  registers a tracked session that has not joined, and drops it once it is closed; a retire or
  an eviction takes a session out of the pool; a session closes at any time; shutdown closes
  all of them.
\<close>

inductive reg_step :: "reg_sys \<Rightarrow> reg_sys \<Rightarrow> bool" where
  step_track: "s \<notin> usedS st \<Longrightarrow>
     reg_step st (st\<lparr>reg := snd (track fp s (reg st)), usedS := insert s (usedS st)\<rparr>)"
| step_ask: "reg_step st (st\<lparr>reg := snd (hasLiveExclusive (is_closed st) fp (reg st))\<rparr>)"
| step_register: "all (reg st) (csess c) = Some \<lparr>tfp = cfp c, tjoined = False\<rparr> \<Longrightarrow>
     reg_step st (st\<lparr>reg := snd (registerConn (is_closed st) (cfp c) c (reg st))\<rparr>)"
| step_take: "reg_step st (st\<lparr>reg := take_session fp s (reg st)\<rparr>)"
| step_drop: "is_closed st s \<Longrightarrow> reg_step st (st\<lparr>reg := drop_session s (reg st)\<rparr>)"
| step_close: "reg_step st (st\<lparr>closedS := insert s (closedS st)\<rparr>)"
| step_closeAll: "reg_step st (st\<lparr>reg := fst (closeAll (reg st)), closedS := closedS st \<union> snd (closeAll (reg st))\<rparr>)"

subsection \<open>The invariant\<close>

definition tracked_as :: "(session \<rightharpoonup> tracked) \<Rightarrow> fingerprint \<Rightarrow> bool \<Rightarrow> session set" where
  "tracked_as m fp j = {s. m s = Some \<lparr>tfp = fp, tjoined = j\<rparr>}"

definition pool_ok :: "registry \<Rightarrow> bool" where
  "pool_ok r \<longleftrightarrow> (\<forall>fp cs. byFP r fp = Some cs \<longrightarrow> cs \<noteq> [] \<and> distinct (map csess cs) \<and>
     (\<forall>c \<in> set cs. cfp c = fp \<and> csess c \<in> tracked_as (all r) fp True))"

definition counts_ok :: "registry \<Rightarrow> bool" where
  "counts_ok r \<longleftrightarrow> finite (dom (all r)) \<and>
     (\<forall>fp. count_of (joined r) fp = int (card (tracked_as (all r) fp True)) \<and>
           count_of (pending r) fp = int (card (tracked_as (all r) fp False)) \<and>
           int (card (tracked_as (all r) fp True)) \<le> maxSharedSessions \<and>
           int (card (tracked_as (all r) fp False)) \<le> maxSharedSessions)"

definition exclusive_ok :: "reg_sys \<Rightarrow> bool" where
  "exclusive_ok st \<longleftrightarrow> (\<forall>fp. fp \<notin> shared (reg st) \<longrightarrow>
     length (filter (\<lambda>c. \<not> is_closed st (csess c)) (pool (reg st) fp)) \<le> 1)"

definition reg_inv :: "reg_sys \<Rightarrow> bool" where
  "reg_inv st \<longleftrightarrow> pool_ok (reg st) \<and> counts_ok (reg st) \<and> exclusive_ok st \<and> dom (all (reg st)) \<subseteq> usedS st"

lemmas reg_inv_defs = reg_inv_def pool_ok_def counts_ok_def exclusive_ok_def

lemma tracked_cases: "(t :: tracked) = \<lparr>tfp = tfp t, tjoined = tjoined t\<rparr>"
  by simp

lemma pool_None [simp]: "byFP r fp = None \<Longrightarrow> pool r fp = []"
  by (simp add: pool_def)

lemma pool_Some [simp]: "byFP r fp = Some cs \<Longrightarrow> pool r fp = cs"
  by (simp add: pool_def)

lemma pool_frame [simp]:
  "pool (r\<lparr>all := al\<rparr>) = pool r" "pool (r\<lparr>joined := jn\<rparr>) = pool r" "pool (r\<lparr>pending := pn\<rparr>) = pool r"
  "pool (r\<lparr>closing := cl\<rparr>) = pool r" "pool (r\<lparr>joinGen := g\<rparr>) = pool r"
  by (auto simp: pool_def fun_eq_iff)

lemma pool_ok_pool:
  "pool_ok r \<Longrightarrow> distinct (map csess (pool r fp)) \<and> (\<forall>c \<in> set (pool r fp). cfp c = fp \<and> csess c \<in> tracked_as (all r) fp True)"
  by (cases "byFP r fp") (auto simp: pool_ok_def)

text \<open>What \<open>liveLocked\<close> does to the pool.\<close>

lemma liveLocked_fst: "fst (liveLocked closed fp r) = filter (\<lambda>c. \<not> closed (csess c)) (pool r fp)"
  by (auto simp: liveLocked_def Let_def filter_eq_length_iff)

lemma liveLocked_frame:
  "all (snd (liveLocked closed fp r)) = all r" "joined (snd (liveLocked closed fp r)) = joined r"
  "pending (snd (liveLocked closed fp r)) = pending r" "shared (snd (liveLocked closed fp r)) = shared r"
  "closing (snd (liveLocked closed fp r)) = closing r" "joinGen (snd (liveLocked closed fp r)) = joinGen r"
  by (simp_all add: liveLocked_def Let_def)

lemma liveLocked_pool:
  "pool (snd (liveLocked closed fp r)) fp' =
     (if fp' = fp then filter (\<lambda>c. \<not> closed (csess c)) (pool r fp) else pool r fp')"
  by (auto simp: liveLocked_def Let_def pool_def filter_eq_length_iff split: option.splits)

text \<open>Every change of a pool is one assignment, which keeps no empty list in the map.\<close>

definition put_pool :: "fingerprint \<Rightarrow> agentConn list \<Rightarrow> registry \<Rightarrow> registry" where
  "put_pool fp cs r = r\<lparr>byFP := (byFP r)(fp := (if cs = [] then None else Some cs))\<rparr>"

lemma put_pool_frame [simp]:
  "all (put_pool fp cs r) = all r" "joined (put_pool fp cs r) = joined r"
  "pending (put_pool fp cs r) = pending r" "shared (put_pool fp cs r) = shared r"
  "closing (put_pool fp cs r) = closing r" "joinGen (put_pool fp cs r) = joinGen r"
  by (auto simp: put_pool_def)

lemma pool_put_pool [simp]: "pool (put_pool fp cs r) fp' = (if fp' = fp then cs else pool r fp')"
  by (simp add: put_pool_def pool_def)

lemma pool_ok_put_pool:
  assumes "pool_ok r" and "distinct (map csess cs)"
    and "\<forall>c \<in> set cs. cfp c = fp \<and> csess c \<in> tracked_as (all r) fp True"
  shows "pool_ok (put_pool fp cs r)"
  using assms unfolding pool_ok_def put_pool_frame by (auto simp: put_pool_def)

lemma pool_ok_put_pool_subset:
  assumes "pool_ok r" and "distinct (map csess cs)" and "set cs \<subseteq> set (pool r fp)"
  shows "pool_ok (put_pool fp cs r)"
  using assms pool_ok_pool [OF assms(1), of fp] by (intro pool_ok_put_pool) auto

lemma put_pool_same: "pool_ok r \<Longrightarrow> put_pool fp (pool r fp) r = r"
  by (cases "byFP r fp") (auto simp: put_pool_def pool_ok_def fun_upd_idem)

lemma liveLocked_put_pool:
  assumes "pool_ok r"
  shows "snd (liveLocked closed fp r) = put_pool fp (filter (\<lambda>c. \<not> closed (csess c)) (pool r fp)) r"
proof (cases "filter (\<lambda>c. \<not> closed (csess c)) (pool r fp) = pool r fp")
  case True
  then show ?thesis by (simp add: liveLocked_def put_pool_same [OF assms])
next
  case False
  then show ?thesis by (auto simp: liveLocked_def Let_def filter_eq_length_iff put_pool_def)
qed

lemma removeLocked_put_pool:
  assumes "pool_ok r"
  shows "removeLocked fp s r = put_pool fp (filter (\<lambda>c. csess c \<noteq> s) (pool r fp)) r"
proof (cases "\<exists>c \<in> set (pool r fp). csess c = s")
  case True
  moreover have "remove_first (\<lambda>c. csess c = s) (pool r fp) = filter (\<lambda>c. csess c \<noteq> s) (pool r fp)"
    using pool_ok_pool [OF assms] by (simp add: remove_first_filter)
  ultimately show ?thesis by (simp add: removeLocked_def Let_def put_pool_def)
next
  case False
  then have "filter (\<lambda>c. csess c \<noteq> s) (pool r fp) = pool r fp" by (simp add: filter_id_conv)
  with False show ?thesis by (simp add: removeLocked_def put_pool_same [OF assms])
qed

lemma distinct_map_filter_pool: "pool_ok r \<Longrightarrow> distinct (map csess (filter p (pool r fp)))"
  using pool_ok_pool [of r fp] by (simp add: distinct_map_filter)

lemma pool_ok_liveLocked [coen_inv]: "pool_ok r \<Longrightarrow> pool_ok (snd (liveLocked closed fp r))"
  by (auto simp: liveLocked_put_pool distinct_map_filter_pool intro!: pool_ok_put_pool_subset)

lemma pool_ok_removeLocked [coen_inv]: "pool_ok r \<Longrightarrow> pool_ok (removeLocked fp s r)"
  by (auto simp: removeLocked_put_pool distinct_map_filter_pool intro!: pool_ok_put_pool_subset)

lemma counts_ok_put_pool [simp]: "counts_ok (put_pool fp cs r) = counts_ok r"
  by (simp add: counts_ok_def)

subsection \<open>Counting sessions\<close>

lemma finite_tracked_as: "finite (dom (all r)) \<Longrightarrow> finite (tracked_as (all r) fp j)"
  by (rule finite_subset [of _ "dom (all r)"]) (auto simp: tracked_as_def)

lemma count_of_decr: "0 \<le> count_of m k - 1 \<Longrightarrow> count_of (decr m k) k' = (if k' = k then count_of m k - 1 else count_of m k')"
  by (auto simp: decr_def count_of_def Let_def)

lemma count_of_upd: "count_of (m(k \<mapsto> n)) k' = (if k' = k then n else count_of m k')"
  by (simp add: count_of_def)

text \<open>The pooled registration, unfolded: one assignment of the pool and, for a tracked session
  that has not joined, the two counters.\<close>

lemma registerConn_registered:
  assumes "pool_ok r" and "all r (csess c) = Some \<lparr>tfp = fp, tjoined = False\<rparr>"
    and "fst (fst (registerConn closed fp c r)) = registered"
  shows "snd (registerConn closed fp c r) =
      put_pool fp (filter (\<lambda>c. \<not> closed (csess c)) (pool r fp) @ [c])
       (r\<lparr>all := (all r)(csess c \<mapsto> \<lparr>tfp = fp, tjoined = True\<rparr>),
         joined := (joined r)(fp \<mapsto> count_of (joined r) fp + 1),
         pending := decr (pending r) fp, joinGen := Suc (joinGen r)\<rparr>)
    \<and> \<not> closing r \<and> \<not> closed (csess c) \<and> count_of (joined r) fp < maxSharedSessions
    \<and> (fp \<in> shared r \<or> filter (\<lambda>c. \<not> closed (csess c)) (pool r fp) = [])"
  using assms(2,3)
  by (auto simp: registerConn_def Let_def split_beta liveLocked_fst liveLocked_put_pool [OF assms(1)]
      put_pool_def unpendLocked_def duplicateLocked_def split: if_splits)

lemma registerConn_refused:
  assumes "fst (fst (registerConn closed fp c r)) \<noteq> registered"
  shows "snd (registerConn closed fp c r) = snd (liveLocked closed fp r)"
  using assms by (auto simp: registerConn_def Let_def split_beta split: if_splits)

lemma tracked_as_upd:
  "tracked_as (m(s \<mapsto> t)) fp j =
     (if t = \<lparr>tfp = fp, tjoined = j\<rparr> then insert s (tracked_as m fp j) else tracked_as m fp j - {s})"
  by (auto simp: tracked_as_def)

lemma tracked_as_del: "tracked_as (m(s := None)) fp j = tracked_as m fp j - {s}"
  by (auto simp: tracked_as_def)

lemma tracked_as_other: "all r s = Some \<lparr>tfp = fp, tjoined = j\<rparr> \<Longrightarrow> s \<in> tracked_as (all r) fp' j' \<longleftrightarrow> fp' = fp \<and> j' = j"
  by (auto simp: tracked_as_def)

lemma pool_ok_frame [simp]:
  "pool_ok (r\<lparr>joined := jn\<rparr>) = pool_ok r" "pool_ok (r\<lparr>pending := pn\<rparr>) = pool_ok r"
  "pool_ok (r\<lparr>closing := cl\<rparr>) = pool_ok r" "pool_ok (r\<lparr>joinGen := g\<rparr>) = pool_ok r"
  by (simp_all add: pool_ok_def)

text \<open>A pool survives any change of the tracked set that keeps its own sessions.\<close>

lemma pool_ok_all:
  assumes "pool_ok r" and "\<And>fp c. c \<in> set (pool r fp) \<Longrightarrow> al (csess c) = all r (csess c)"
  shows "pool_ok (r\<lparr>all := al\<rparr>)"
  using assms unfolding pool_ok_def tracked_as_def by (auto simp: pool_def split: option.splits) metis+

subsection \<open>Each operation keeps the invariant\<close>

lemma counts_ok_track:
  assumes "counts_ok r" and "s \<notin> dom (all r)"
  shows "counts_ok (snd (track fp s r))"
proof -
  from assms have fin: "finite (dom (all r))" by (simp add: counts_ok_def)
  from assms(2) have new: "s \<notin> tracked_as (all r) fp' j" for fp' j by (auto simp: tracked_as_def)
  show ?thesis
    using assms(1) fin new
    by (auto simp: track_def counts_ok_def tracked_as_upd count_of_upd finite_tracked_as)
qed

lemma pool_ok_track:
  assumes "pool_ok r" and "s \<notin> dom (all r)"
  shows "pool_ok (snd (track fp s r))"
proof -
  have "al (csess c) = all r (csess c)"
    if "c \<in> set (pool r fp')" "al = (all r)(s \<mapsto> t)" for c fp' al t
    using pool_ok_pool [OF assms(1), of fp'] assms(2) that by (auto simp: tracked_as_def)
  then show ?thesis using assms(1) by (auto simp: track_def intro!: pool_ok_all)
qed

lemma pool_track [simp]: "pool (snd (track fp s r)) = pool r"
  by (auto simp: track_def pool_def fun_eq_iff)

lemma counts_ok_joined:
  assumes "counts_ok r" and s: "all r s = Some \<lparr>tfp = fp, tjoined = False\<rparr>"
    and "count_of (joined r) fp < maxSharedSessions"
  shows "counts_ok (r\<lparr>all := (all r)(s \<mapsto> \<lparr>tfp = fp, tjoined = True\<rparr>),
         joined := (joined r)(fp \<mapsto> count_of (joined r) fp + 1),
         pending := decr (pending r) fp, joinGen := Suc (joinGen r)\<rparr>)"
proof -
  from assms(1) have fin: "finite (dom (all r))"
    and jn: "count_of (joined r) fp' = int (card (tracked_as (all r) fp' True))"
    and pn: "count_of (pending r) fp' = int (card (tracked_as (all r) fp' False))" for fp'
    by (auto simp: counts_ok_def)
  have sin: "s \<in> tracked_as (all r) fp False" and nin: "s \<notin> tracked_as (all r) fp True"
    and oth: "fp' \<noteq> fp \<Longrightarrow> s \<notin> tracked_as (all r) fp' j" for fp' j
    using s by (auto simp: tracked_as_def)
  have pos: "0 < card (tracked_as (all r) fp False)"
    using sin finite_tracked_as [OF fin] card_gt_0_iff by blast
  then have pend: "count_of (decr (pending r) fp) fp' =
      (if fp' = fp then count_of (pending r) fp - 1 else count_of (pending r) fp')" for fp'
    by (intro count_of_decr) (simp add: pn)
  show ?thesis
    using assms(1,3) fin sin nin oth pos
    by (auto simp: counts_ok_def tracked_as_upd count_of_upd pend finite_tracked_as card_Diff_singleton
        of_nat_diff Suc_leI intro: order_trans [of _ "int (card (tracked_as (all r) fp False))"])
qed

lemma counts_ok_drop:
  assumes "counts_ok r" and "pool_ok r"
  shows "counts_ok (drop_session s r)"
proof (cases "all r s")
  case None
  then show ?thesis using assms by (simp add: drop_session_def)
next
  case (Some t)
  let ?fp = "tfp t" and ?j = "tjoined t"
  have s: "all r s = Some \<lparr>tfp = ?fp, tjoined = ?j\<rparr>" using Some by simp
  from assms(1) have fin: "finite (dom (all r))"
    and jn: "count_of (joined r) fp' = int (card (tracked_as (all r) fp' True))"
    and pn: "count_of (pending r) fp' = int (card (tracked_as (all r) fp' False))" for fp'
    by (auto simp: counts_ok_def)
  have mem: "s \<in> tracked_as (all r) fp' j \<longleftrightarrow> fp' = ?fp \<and> j = ?j" for fp' j
    using tracked_as_other [OF s] by auto
  have pos: "0 < card (tracked_as (all r) ?fp ?j)"
    using mem finite_tracked_as [OF fin] card_gt_0_iff by blast
  have cd: "count_of (decr (if ?j then joined r else pending r) ?fp) fp' =
      (if fp' = ?fp then count_of (if ?j then joined r else pending r) ?fp - 1
       else count_of (if ?j then joined r else pending r) fp')" for fp'
    using pos by (intro count_of_decr) (auto simp: jn pn)
  have card: "card (tracked_as (all r) fp' j - {s}) =
      (if fp' = ?fp \<and> j = ?j then card (tracked_as (all r) fp' j) - 1 else card (tracked_as (all r) fp' j))" for fp' j
    using mem finite_tracked_as [OF fin] by (auto simp: card_Diff_singleton_if)
  have "counts_ok (r\<lparr>joined := (if ?j then decr (joined r) ?fp else joined r),
      pending := (if ?j then pending r else decr (pending r) ?fp), all := (all r)(s := None)\<rparr>)"
    using assms(1) fin pos cd card
    by (cases ?j) (auto simp: counts_ok_def tracked_as_del of_nat_diff Suc_leI
        intro: order_trans [of _ "int (card (tracked_as (all r) ?fp ?j))"])
  then show ?thesis using Some
    by (cases ?j) (auto simp: drop_session_def Let_def unpendLocked_def
        removeLocked_put_pool [OF assms(2)] put_pool_def counts_ok_def)
qed

lemma pool_ok_drop:
  assumes "pool_ok r"
  shows "pool_ok (drop_session s r)"
proof (cases "all r s")
  case None
  then show ?thesis using assms by (simp add: drop_session_def)
next
  case (Some t)
  let ?r = "removeLocked (tfp t) s r"
  have rp: "?r = put_pool (tfp t) (filter (\<lambda>c. csess c \<noteq> s) (pool r (tfp t))) r"
    by (rule removeLocked_put_pool [OF assms])
  have gone: "csess c \<noteq> s" if "c \<in> set (pool ?r fp)" for c fp
    using that pool_ok_pool [OF assms, of fp] Some by (auto simp: rp tracked_as_def split: if_splits)
  have "pool_ok (?r\<lparr>all := (all ?r)(s := None)\<rparr>)"
    using gone by (intro pool_ok_all pool_ok_removeLocked assms) force
  moreover have "drop_session s r = (?r\<lparr>all := (all ?r)(s := None)\<rparr>)\<lparr>
      joined := (if tjoined t then decr (joined r) (tfp t) else joined r),
      pending := (if tjoined t then pending r else decr (pending r) (tfp t))\<rparr>"
    using Some by (auto simp: drop_session_def Let_def unpendLocked_def rp)
  ultimately show ?thesis by simp
qed

lemma drop_session_frame [simp]:
  "shared (drop_session s r) = shared r" "closing (drop_session s r) = closing r"
  "joinGen (drop_session s r) = joinGen r"
  by (auto simp: drop_session_def Let_def unpendLocked_def removeLocked_def split: option.splits)

lemma all_drop_session: "all (drop_session s r) = (all r)(s := None)"
  by (auto simp: drop_session_def Let_def unpendLocked_def removeLocked_def fun_upd_idem split: option.splits)

lemma pool_drop_session:
  assumes "pool_ok r"
  shows "pool (drop_session s r) fp = filter (\<lambda>c. csess c \<noteq> s) (pool r fp)"
proof (cases "all r s")
  case None
  then have "\<forall>c \<in> set (pool r fp). csess c \<noteq> s"
    using pool_ok_pool [OF assms, of fp] by (auto simp: tracked_as_def)
  with None show ?thesis by (simp add: drop_session_def filter_id_conv)
next
  case (Some t)
  have "fp \<noteq> tfp t \<Longrightarrow> \<forall>c \<in> set (pool r fp). csess c \<noteq> s"
    using pool_ok_pool [OF assms, of fp] Some by (auto simp: tracked_as_def)
  moreover have "pool (drop_session s r) fp = pool (removeLocked (tfp t) s r) fp"
    using Some by (auto simp: drop_session_def Let_def unpendLocked_def pool_def)
  ultimately show ?thesis
    by (auto simp: removeLocked_put_pool [OF assms] filter_id_conv)
qed

lemma exclusive_mono:
  assumes "exclusive_ok st" and "shared (reg st') = shared (reg st)"
    and "\<And>fp. length (filter (\<lambda>c. \<not> is_closed st' (csess c)) (pool (reg st') fp)) \<le>
        length (filter (\<lambda>c. \<not> is_closed st (csess c)) (pool (reg st) fp))"
  shows "exclusive_ok st'"
  unfolding exclusive_ok_def
proof (intro allI impI)
  fix fp
  assume "fp \<notin> shared (reg st')"
  with assms(1,2) have "length (filter (\<lambda>c. \<not> is_closed st (csess c)) (pool (reg st) fp)) \<le> 1"
    by (simp add: exclusive_ok_def)
  with assms(3) [of fp] show "length (filter (\<lambda>c. \<not> is_closed st' (csess c)) (pool (reg st') fp)) \<le> 1"
    by linarith
qed

lemma length_filter_sub: "(\<And>x. p x \<Longrightarrow> q x) \<Longrightarrow> length (filter p xs) \<le> length (filter q xs)"
  by (induction xs) auto

lemma reg_inv_ask [coen_inv]:
  assumes "reg_inv st"
  shows "reg_inv (st\<lparr>reg := snd (liveLocked (is_closed st) fp (reg st))\<rparr>)"
proof -
  have ok: "pool_ok (reg st)" using assms by (simp add: reg_inv_def)
  have "exclusive_ok (st\<lparr>reg := snd (liveLocked (is_closed st) fp (reg st))\<rparr>)"
    using assms by - (rule exclusive_mono [of st], auto simp: reg_inv_def liveLocked_frame liveLocked_pool)
  then show ?thesis using assms ok
    by (auto simp: reg_inv_def liveLocked_frame pool_ok_liveLocked) (simp add: liveLocked_put_pool)
qed

lemma reg_inv_register [coen_inv]:
  assumes inv: "reg_inv st" and s: "all (reg st) (csess c) = Some \<lparr>tfp = cfp c, tjoined = False\<rparr>"
  shows "reg_inv (st\<lparr>reg := snd (registerConn (is_closed st) (cfp c) c (reg st))\<rparr>)"
proof (cases "fst (fst (registerConn (is_closed st) (cfp c) c (reg st))) = registered")
  case False
  then show ?thesis using reg_inv_ask [OF inv] by (simp add: registerConn_refused)
next
  case True
  let ?r = "reg st" and ?fp = "cfp c"
  let ?live = "filter (\<lambda>c. \<not> is_closed st (csess c)) (pool ?r ?fp)"
  let ?r1 = "?r\<lparr>all := (all ?r)(csess c \<mapsto> \<lparr>tfp = ?fp, tjoined = True\<rparr>),
         joined := (joined ?r)(?fp \<mapsto> count_of (joined ?r) ?fp + 1),
         pending := decr (pending ?r) ?fp, joinGen := Suc (joinGen ?r)\<rparr>"
  have ok: "pool_ok ?r" and co: "counts_ok ?r" using inv by (auto simp: reg_inv_def)
  note eq = registerConn_registered [OF ok s True]
  have notin: "csess d \<noteq> csess c" if "d \<in> set (pool ?r fp)" for d fp
    using that pool_ok_pool [OF ok, of fp] s by (auto simp: tracked_as_def)
  have "pool_ok (?r\<lparr>all := (all ?r)(csess c \<mapsto> \<lparr>tfp = ?fp, tjoined = True\<rparr>)\<rparr>)"
    using notin by (intro pool_ok_all ok) auto
  then have ok1: "pool_ok ?r1" by simp
  have "pool_ok (put_pool ?fp (?live @ [c]) ?r1)"
  proof (rule pool_ok_put_pool [OF ok1])
    show "distinct (map csess (?live @ [c]))"
      using distinct_map_filter_pool [OF ok] notin by fastforce
    show "\<forall>d \<in> set (?live @ [c]). cfp d = ?fp \<and> csess d \<in> tracked_as (all ?r1) ?fp True"
    proof
      fix d
      assume "d \<in> set (?live @ [c])"
      then show "cfp d = ?fp \<and> csess d \<in> tracked_as (all ?r1) ?fp True"
      proof (cases "d = c")
        case True
        then show ?thesis by (simp add: tracked_as_upd)
      next
        case False
        with \<open>d \<in> set (?live @ [c])\<close> have d: "d \<in> set (pool ?r ?fp)" by auto
        then have "cfp d = ?fp \<and> csess d \<in> tracked_as (all ?r) ?fp True"
          using pool_ok_pool [OF ok, of ?fp] by blast
        then show ?thesis by (simp add: tracked_as_upd)
      qed
    qed
  qed
  moreover have "counts_ok (put_pool ?fp (?live @ [c]) ?r1)"
    using eq counts_ok_joined [OF co s] by simp
  moreover have "exclusive_ok (st\<lparr>reg := put_pool ?fp (?live @ [c]) ?r1\<rparr>)"
    using inv eq by (auto simp: reg_inv_def exclusive_ok_def)
  moreover have "dom (all ?r1) \<subseteq> usedS st" using inv s by (auto simp: reg_inv_def)
  ultimately show ?thesis using eq by (simp add: reg_inv_def)
qed

lemma reg_inv_start: "reg_start st \<Longrightarrow> reg_inv st"
  by (auto simp: reg_start_def reg_inv_defs newRegistry_def tracked_as_def count_of_def
      maxSharedSessions_def)

lemma reg_inv_step:
  assumes "reg_inv st" and "reg_step st st'"
  shows "reg_inv st'"
  using assms(2)
proof cases
  case (step_track s fp)
  with assms(1) have "s \<notin> dom (all (reg st))" by (auto simp: reg_inv_def)
  with step_track assms(1) show ?thesis
    by (auto simp: reg_inv_def pool_ok_track counts_ok_track exclusive_ok_def)
      (auto simp: track_def split: if_splits)
next
  case (step_ask fp)
  with reg_inv_ask [OF assms(1)] show ?thesis by (simp add: hasLiveExclusive_def split_beta)
next
  case (step_register c)
  with reg_inv_register [OF assms(1)] show ?thesis by simp
next
  case (step_take fp s)
  have ok: "pool_ok (reg st)" using assms(1) by (simp add: reg_inv_def)
  have "exclusive_ok st'" using assms(1) step_take
    by - (rule exclusive_mono [of st], auto simp: reg_inv_def take_session_def removeLocked_put_pool [OF ok] intro: length_filter_sub)
  moreover have "pool_ok (take_session fp s (reg st))" by (simp add: take_session_def pool_ok_removeLocked ok)
  ultimately show ?thesis using step_take assms(1)
    by (simp add: reg_inv_def) (simp add: take_session_def removeLocked_put_pool ok)
next
  case (step_drop s)
  have ok: "pool_ok (reg st)" using assms(1) by (simp add: reg_inv_def)
  have "exclusive_ok st'" using assms(1) step_drop
    by - (rule exclusive_mono [of st], auto simp: reg_inv_def pool_drop_session [OF ok] intro: length_filter_sub)
  with step_drop assms(1) show ?thesis
    by (auto simp: reg_inv_def pool_ok_drop counts_ok_drop all_drop_session)
next
  case (step_close s)
  have "exclusive_ok st'" using assms(1) step_close
    by - (rule exclusive_mono [of st], auto simp: reg_inv_def intro: length_filter_sub)
  with step_close assms(1) show ?thesis by (simp add: reg_inv_def)
next
  case step_closeAll
  have "pool (fst (closeAll (reg st))) = pool (reg st)" by (auto simp: closeAll_def pool_def fun_eq_iff)
  then have "exclusive_ok st'" using assms(1) step_closeAll
    by - (rule exclusive_mono [of st], auto simp: reg_inv_def closeAll_def intro: length_filter_sub)
  with step_closeAll assms(1) show ?thesis by (simp add: reg_inv_def closeAll_def counts_ok_def)
qed

interpretation registry_system: inductive_invariant reg_start reg_step reg_inv
  by unfold_locales (auto intro: reg_inv_start reg_inv_step)

subsection \<open>Shutdown\<close>

text \<open>Once \<^verbatim>\<open>closeAll\<close> has run, every tracked session is closed, and none is tracked any more.\<close>

definition shut_ok :: "reg_sys \<Rightarrow> bool" where
  "shut_ok st \<longleftrightarrow> reg_inv st \<and> (closing (reg st) \<longrightarrow> dom (all (reg st)) \<subseteq> closedS st)"

lemma liveLocked_closing: "closing (snd (liveLocked closed fp r)) = closing r" "all (snd (liveLocked closed fp r)) = all r"
  by (rule liveLocked_frame)+

lemma registerConn_closing: "closing r \<Longrightarrow> registerConn closed fp c r = ((refusedGone, 0), snd (liveLocked closed fp r))"
  by (simp add: registerConn_def split_beta Let_def liveLocked_closing)

lemma registerConn_keeps_closing: "closing (snd (registerConn closed fp c r)) = closing r"
  by (auto simp: registerConn_def split_beta Let_def liveLocked_closing unpendLocked_def split: option.splits)

lemma track_closing: "closing (snd (track fp s r)) = closing r" "closing r \<Longrightarrow> track fp s r = (trackClosing, r)"
  by (simp_all add: track_def)

lemma take_session_frame: "closing (take_session fp s r) = closing r" "all (take_session fp s r) = all r"
  by (simp_all add: take_session_def removeLocked_def Let_def)

lemma shut_ok_step:
  assumes "shut_ok st" and "reg_step st st'"
  shows "shut_ok st'"
proof -
  have "closing (reg st') \<longrightarrow> dom (all (reg st')) \<subseteq> closedS st'"
    using assms(2)
  proof cases
    case (step_track s fp)
    then show ?thesis using assms(1) by (auto simp: shut_ok_def track_closing)
  next
    case (step_ask fp)
    then show ?thesis using assms(1)
      by (simp add: shut_ok_def hasLiveExclusive_def split_beta liveLocked_closing)
  next
    case (step_register c)
    then show ?thesis using assms(1)
      by (auto simp: shut_ok_def registerConn_keeps_closing registerConn_closing liveLocked_closing)
  next
    case (step_take fp s)
    then show ?thesis using assms(1) by (simp add: shut_ok_def take_session_frame)
  next
    case (step_drop s)
    then show ?thesis using assms(1) by (auto simp: shut_ok_def all_drop_session)
  next
    case (step_close s)
    then show ?thesis using assms(1) by (auto simp: shut_ok_def)
  next
    case step_closeAll
    then show ?thesis by (simp add: closeAll_def)
  qed
  then show ?thesis using assms reg_inv_step by (auto simp: shut_ok_def)
qed

interpretation registry_shutdown: inductive_invariant reg_start reg_step shut_ok
proof
  show "shut_ok s" if "reg_start s" for s
    using that reg_inv_start [OF that] by (auto simp: shut_ok_def reg_start_def newRegistry_def)
qed (rule shut_ok_step)

lemma live_candidates:
  "fst (candidates closed fps r) = concat (map (\<lambda>fp. filter (\<lambda>c. \<not> closed (csess c)) (pool r fp)) fps)"
  by (simp add: candidates_def Let_def filter_concat comp_def)

subsection \<open>Properties\<close>

text \<open>A history used by the witnesses: an agent connects with certificate \<^verbatim>\<open>f\<close> and joins.\<close>

abbreviation sample_sys :: "fingerprint set \<Rightarrow> reg_sys" where
  "sample_sys sh \<equiv> \<lparr>reg = newRegistry\<lparr>shared := sh\<rparr>, closedS = {}, usedS = {}\<rparr>"

abbreviation sample_conn :: agentConn where
  "sample_conn \<equiv> \<lparr>cfp = ''f'', csess = 1, cv2 = True\<rparr>"

definition sample_tracked :: reg_sys where
  "sample_tracked = (sample_sys {})\<lparr>reg := snd (track ''f'' 1 (reg (sample_sys {}))), usedS := insert 1 (usedS (sample_sys {}))\<rparr>"

definition sample_joined :: reg_sys where
  "sample_joined = sample_tracked\<lparr>reg := snd (registerConn (is_closed sample_tracked) ''f'' sample_conn (reg sample_tracked))\<rparr>"

lemma reach_sample_tracked: "reach reg_start reg_step sample_tracked"
proof -
  have "reach reg_start reg_step (sample_sys {})" by (rule reach_init) (force simp: reg_start_def)
  moreover have "reg_step (sample_sys {}) sample_tracked"
    unfolding sample_tracked_def by (rule step_track) simp
  ultimately show ?thesis by (rule reach_step)
qed

lemma reach_sample_joined: "reach reg_start reg_step sample_joined"
proof -
  have "reg_step sample_tracked (sample_tracked\<lparr>reg := snd (registerConn (is_closed sample_tracked) (cfp sample_conn) sample_conn (reg sample_tracked))\<rparr>)"
    by (rule step_register)
      (simp add: sample_tracked_def track_def newRegistry_def count_of_def maxSharedSessions_def)
  then have "reg_step sample_tracked sample_joined" by (simp add: sample_joined_def)
  with reach_sample_tracked show ?thesis by (rule reach_step)
qed

lemma sample_joined_pool: "pool (reg sample_joined) ''f'' = [sample_conn]" "shared (reg sample_joined) = {}"
  "closedS sample_joined = {}"
  by (simp_all add: sample_joined_def sample_tracked_def track_def newRegistry_def count_of_def
      maxSharedSessions_def registerConn_def liveLocked_def duplicateLocked_def pool_def unpendLocked_def Let_def)

text \<open>C2. An exclusive certificate (not listed as shared) never has two live sessions in the
  pool, in any interleaving of registrations, evictions, drains and closes.\<close>

theorem exclusive_certificate_single_session:
  assumes "reach reg_start reg_step st" and "fp \<notin> shared (reg st)"
  shows "length (filter (\<lambda>c. \<not> is_closed st (csess c)) (pool (reg st) fp)) \<le> 1"
  using registry_system.reach_inv [OF assms(1)] assms(2) by (auto simp: reg_inv_def exclusive_ok_def)

theorem exclusive_certificate_single_session_witness:
  "length (filter (\<lambda>c. \<not> is_closed sample_joined (csess c)) (pool (reg sample_joined) ''f'')) \<le> 1 \<and>
   pool (reg sample_joined) ''f'' = [sample_conn]"
  using exclusive_certificate_single_session [OF reach_sample_joined, of "''f''"] sample_joined_pool by simp

text \<open>C16. One certificate never holds more than 256 joined and 256 joining sessions, the two
  counters of the registry are exactly those numbers of tracked sessions, and every pooled
  session is a tracked, joined session of its own certificate, pooled once.\<close>

theorem session_caps:
  assumes "reach reg_start reg_step st"
  shows "count_of (joined (reg st)) fp = int (card (tracked_as (all (reg st)) fp True)) \<and>
    count_of (pending (reg st)) fp = int (card (tracked_as (all (reg st)) fp False)) \<and>
    count_of (joined (reg st)) fp \<le> 256 \<and> count_of (pending (reg st)) fp \<le> 256 \<and>
    distinct (map csess (pool (reg st) fp)) \<and>
    csess ` set (pool (reg st) fp) \<subseteq> tracked_as (all (reg st)) fp True"
  using registry_system.reach_inv [OF assms] pool_ok_pool [of "reg st" fp]
  by (auto simp: reg_inv_def counts_ok_def maxSharedSessions_def)

theorem session_caps_witness:
  "count_of (joined (reg sample_joined)) ''f'' = int (card (tracked_as (all (reg sample_joined)) ''f'' True)) \<and>
   count_of (joined (reg sample_joined)) ''f'' \<le> 256"
  using session_caps [OF reach_sample_joined, of "''f''"] by blast



text \<open>Registering decides as documented: a closing registry or a session already gone is
  refused as gone, then an exclusive certificate with a live session as a duplicate, then a
  certificate at its cap; otherwise the session joins at the end of its certificate's live
  sessions and the waiters for a join are woken. Nothing else wakes them.\<close>

theorem registerConn_outcomes:
  "let live = filter (\<lambda>d. \<not> closed (csess d)) (pool r fp); res = registerConn closed fp c r
   in fst (fst res) =
        (if closing r \<or> closed (csess c) then refusedGone
         else if fp \<notin> shared r \<and> live \<noteq> [] then refusedDuplicate
         else if 256 \<le> count_of (joined r) fp then refusedCap else registered) \<and>
      pool (snd res) fp = (if fst (fst res) = registered then live @ [c] else live) \<and>
      joins (snd res) = (if fst (fst res) = registered then Suc (joins r) else joins r) \<and>
      snd (fst res) = (if fst (fst res) = registered then length live + 1 else 0)"
proof -
  have live: "fst (liveLocked closed fp r) = filter (\<lambda>d. \<not> closed (csess d)) (pool r fp)"
    "pool (snd (liveLocked closed fp r)) fp = filter (\<lambda>d. \<not> closed (csess d)) (pool r fp)"
    by (simp_all add: liveLocked_fst liveLocked_pool)
  have upd: "pool (r'\<lparr>byFP := (byFP r')(fp \<mapsto> cs)\<rparr>) fp = cs" for r' cs by (simp add: pool_def)
  show ?thesis
    by (auto simp: registerConn_def Let_def split_beta live liveLocked_frame duplicateLocked_def joins_def
        maxSharedSessions_def unpendLocked_def upd split: option.splits)
qed

end
