(* ===== verification/Go_Strings.thy ===== *)
theory Go_Strings
  imports Coen_Prelude
begin

text \<open>
  The parts of Go's \<^verbatim>\<open>strings\<close>, \<^verbatim>\<open>bytes\<close> and \<^verbatim>\<open>net\<close> packages the
  components use. The case and space functions are the ASCII ones: \<^verbatim>\<open>strings.ToLower\<close>,
  \<^verbatim>\<open>strings.TrimSpace\<close> and \<^verbatim>\<open>strings.EqualFold\<close> agree with them on ASCII
  strings (host names, header names, configuration keywords); the Unicode tables they consult
  for bytes from 0x80 are not modelled, and such bytes are left unchanged here.
\<close>

subsection \<open>Characters\<close>

abbreviation LF :: char where "LF \<equiv> CHR 0x0A"
abbreviation CR :: char where "CR \<equiv> CHR 0x0D"
abbreviation TAB :: char where "TAB \<equiv> CHR 0x09"
abbreviation SP :: char where "SP \<equiv> CHR 0x20"
abbreviation CRLF :: bytes where "CRLF \<equiv> [CR, LF]"

definition is_space :: "char \<Rightarrow> bool" where
  "is_space c \<longleftrightarrow> c \<in> {TAB, LF, CHR 0x0B, CHR 0x0C, CR, SP}"

definition lower :: "char \<Rightarrow> char" where
  "lower c = (let n = of_char c :: nat in if 65 \<le> n \<and> n \<le> 90 then char_of (n + 32) else c)"

lemma of_char_lower:
  "(of_char (lower c) :: nat) = (let n = of_char c in if 65 \<le> n \<and> n \<le> 90 then n + 32 else n)"
  by (simp add: lower_def Let_def)

lemma lower_idem [simp]: "lower (lower c) = lower c"
  using of_char_lower [of c] unfolding lower_def [of "lower c"] by (auto simp: Let_def)

lemma lower_eq_iff_non_letter:
  "\<not> (97 \<le> (of_char d :: nat) \<and> of_char d \<le> (122 :: nat)) \<Longrightarrow>
   \<not> (65 \<le> (of_char d :: nat) \<and> of_char d \<le> (90 :: nat)) \<Longrightarrow> lower c = d \<longleftrightarrow> c = d"
  by (auto simp: lower_def Let_def)

lemma lower_fixed [simp]:
  "lower c = CHR ''.'' \<longleftrightarrow> c = CHR ''.''"
  "lower c = CHR '':'' \<longleftrightarrow> c = CHR '':''"
  "lower c = CHR ''*'' \<longleftrightarrow> c = CHR ''*''"
  "lower c = CHR ''['' \<longleftrightarrow> c = CHR ''[''"
  "lower c = CHR '']'' \<longleftrightarrow> c = CHR '']''"
  by (rule lower_eq_iff_non_letter; simp)+

lemma lower_space [simp]: "is_space (lower c) = is_space c"
proof -
  have "lower c = d \<longleftrightarrow> c = d" if "d \<in> {TAB, LF, CHR 0x0B, CHR 0x0C, CR, SP}" for d
    using that by (intro lower_eq_iff_non_letter) auto
  then show ?thesis unfolding is_space_def by auto
qed

subsection \<open>Package strings\<close>

definition ToLower :: "string \<Rightarrow> string" where
  "ToLower s = map lower s"

definition EqualFold :: "string \<Rightarrow> string \<Rightarrow> bool" where
  "EqualFold s t \<longleftrightarrow> ToLower s = ToLower t"

definition TrimSpace :: "string \<Rightarrow> string" where
  "TrimSpace s = rev (dropWhile is_space (rev (dropWhile is_space s)))"

definition HasPrefix :: "string \<Rightarrow> string \<Rightarrow> bool" where
  "HasPrefix s p \<longleftrightarrow> prefix p s"

definition HasSuffix :: "string \<Rightarrow> string \<Rightarrow> bool" where
  "HasSuffix s p \<longleftrightarrow> suffix p s"

definition TrimSuffix :: "string \<Rightarrow> string \<Rightarrow> string" where
  "TrimSuffix s p = (if HasSuffix s p then take (length s - length p) s else s)"

definition ContainsChar :: "string \<Rightarrow> char \<Rightarrow> bool" where
  "ContainsChar s c \<longleftrightarrow> c \<in> set s"

text \<open>\<^verbatim>\<open>bytes.IndexByte\<close> and \<^verbatim>\<open>LastIndexByte\<close>: the first and last position of a byte.\<close>

fun IndexByte :: "bytes \<Rightarrow> char \<Rightarrow> nat option" where
  "IndexByte [] c = None"
| "IndexByte (x # xs) c = (if x = c then Some 0 else map_option Suc (IndexByte xs c))"

definition LastIndexByte :: "bytes \<Rightarrow> char \<Rightarrow> nat option" where
  "LastIndexByte s c = map_option (\<lambda>i. length s - 1 - i) (IndexByte (rev s) c)"

text \<open>\<^verbatim>\<open>bytes.Index\<close>: the first position at which \<open>sep\<close> starts.\<close>

fun Index :: "bytes \<Rightarrow> bytes \<Rightarrow> nat option" where
  "Index [] sep = (if sep = [] then Some 0 else None)"
| "Index (x # xs) sep = (if prefix sep (x # xs) then Some 0 else map_option Suc (Index xs sep))"

text \<open>\<^verbatim>\<open>bytes.Cut\<close>: what comes before and after the first \<open>sep\<close>, and whether there is one.\<close>

definition Cut :: "bytes \<Rightarrow> bytes \<Rightarrow> bytes \<times> bytes \<times> bool" where
  "Cut s sep = (case Index s sep of
      None \<Rightarrow> (s, [], False)
    | Some i \<Rightarrow> (take i s, drop (i + length sep) s, True))"

text \<open>\<^verbatim>\<open>bytes.Split\<close> with a non-empty separator.\<close>

lemma Index_less: "sep \<noteq> [] \<Longrightarrow> Index s sep = Some i \<Longrightarrow> i + length sep \<le> length s"
proof (induction s arbitrary: i)
  case Nil
  then show ?case by simp
next
  case (Cons x xs)
  then show ?case
    by (auto split: if_splits dest: prefix_length_le)
qed

function Split :: "bytes \<Rightarrow> bytes \<Rightarrow> bytes list" where
  "Split s sep = (case Index s sep of
      None \<Rightarrow> [s]
    | Some i \<Rightarrow> if sep = [] then [s] else take i s # Split (drop (i + length sep) s) sep)"
  by pat_completeness auto
termination
proof (relation "measure (\<lambda>(s, sep). length s)", goal_cases)
  case 1
  then show ?case by simp
next
  case (2 s sep i)
  then have "i + length sep \<le> length s" by (simp add: Index_less)
  moreover from 2 have "0 < length sep" by simp
  ultimately have "length (drop (i + length sep) s) < length s" unfolding length_drop by linarith
  then show ?case by simp
qed

declare Split.simps [simp del]

text \<open>\<^verbatim>\<open>strings.Fields\<close>: the runs of non-space characters.\<close>

function Fields :: "string \<Rightarrow> string list" where
  "Fields s = (case dropWhile is_space s of
      [] \<Rightarrow> []
    | t # ts \<Rightarrow> (t # takeWhile (\<lambda>c. \<not> is_space c) ts) # Fields (dropWhile (\<lambda>c. \<not> is_space c) ts))"
  by pat_completeness auto
termination
proof (relation "measure length", goal_cases)
  case 1
  then show ?case by simp
next
  case (2 s t ts)
  have "length (dropWhile (\<lambda>c. \<not> is_space c) ts) \<le> length ts" by (rule length_dropWhile_le)
  also have "length ts < length (dropWhile is_space s)" using 2 by simp
  also have "\<dots> \<le> length s" by (rule length_dropWhile_le)
  finally show ?case by simp
qed

declare Fields.simps [simp del]

lemma ToLower_simps [simp]:
  "ToLower [] = []" "ToLower (c # s) = lower c # ToLower s" "ToLower (s @ t) = ToLower s @ ToLower t"
  "length (ToLower s) = length s" "ToLower (ToLower s) = ToLower s"
  by (simp_all add: ToLower_def)

lemma EqualFold_refl [simp]: "EqualFold s s"
  by (simp add: EqualFold_def)

lemma EqualFold_sym: "EqualFold s t \<Longrightarrow> EqualFold t s"
  by (simp add: EqualFold_def)

lemma IndexByte_Some_iff:
  "IndexByte s c = Some i \<longleftrightarrow> i < length s \<and> s ! i = c \<and> (\<forall>j < i. s ! j \<noteq> c)"
proof (induction s arbitrary: i)
  case Nil
  then show ?case by simp
next
  case (Cons x xs)
  show ?case
  proof (cases i)
    case 0
    then show ?thesis by auto
  next
    case (Suc k)
    with Cons show ?thesis by (auto simp: less_Suc_eq_0_disj)
  qed
qed

lemma IndexByte_None_iff: "IndexByte s c = None \<longleftrightarrow> c \<notin> set s"
  by (induction s) auto

lemma LastIndexByte_None_iff: "LastIndexByte s c = None \<longleftrightarrow> c \<notin> set s"
  by (simp add: LastIndexByte_def IndexByte_None_iff)

lemma LastIndexByte_less: "LastIndexByte s c = Some i \<Longrightarrow> i < length s \<and> s ! i = c"
  by (auto simp: LastIndexByte_def IndexByte_Some_iff rev_nth)

lemma LastIndexByte_last:
  assumes "LastIndexByte s c = Some i"
  shows "c \<notin> set (drop (Suc i) s)"
proof
  assume "c \<in> set (drop (Suc i) s)"
  then obtain j where j: "Suc i + j < length s" "s ! (Suc i + j) = c"
    by (fastforce simp: in_set_conv_nth less_diff_conv add.commute)
  from assms obtain k where k: "IndexByte (rev s) c = Some k" "i = length s - 1 - k"
    by (auto simp: LastIndexByte_def)
  let ?m = "length s - 1 - (Suc i + j)"
  from k have "k < length s" and first: "\<forall>m < k. rev s ! m \<noteq> c" by (auto simp: IndexByte_Some_iff)
  with k j have "?m < k" by simp
  moreover have "rev s ! ?m = c" using j by (simp add: rev_nth)
  ultimately show False using first by blast
qed

lemma TrimSpace_no_space: "(\<forall>c \<in> set s. \<not> is_space c) \<Longrightarrow> TrimSpace s = s"
proof -
  assume *: "\<forall>c \<in> set s. \<not> is_space c"
  then have "dropWhile is_space s = s" by (cases s) auto
  moreover have "dropWhile is_space (rev s) = rev s"
  proof (cases "rev s")
    case (Cons a t)
    then have "a \<in> set s" by (metis list.set_intros(1) set_rev)
    with * Cons show ?thesis by simp
  qed simp
  ultimately show ?thesis by (simp add: TrimSpace_def)
qed

lemma set_TrimSpace_subset: "set (TrimSpace s) \<subseteq> set s"
  unfolding TrimSpace_def by (metis set_dropWhileD set_rev subsetI)

lemma set_TrimSuffix_subset: "set (TrimSuffix s p) \<subseteq> set s"
  by (simp add: TrimSuffix_def set_take_subset)

subsection \<open>Searching for one character\<close>

lemma Index_char: "Index (l @ c # r) [c] = Some (length l)" if "c \<notin> set l"
  using that by (induction l) auto

lemma Index_char_None: "c \<notin> set l \<Longrightarrow> Index l [c] = None"
  by (induction l) auto

lemma Split_char: "c \<notin> set l \<Longrightarrow> Split (l @ c # r) [c] = l # Split r [c]"
  by (subst Split.simps) (simp add: Index_char)

lemma Index_char_append: "c \<notin> set p \<Longrightarrow> Index (p @ X) [c] = map_option ((+) (length p)) (Index X [c])"
  by (induction p; cases "Index X [c]") auto

lemma Index_char_some: "c \<in> set s \<Longrightarrow> \<exists>i. Index s [c] = Some i"
  by (induction s) auto

lemma Cut_char:
  "c \<notin> set p \<Longrightarrow> Cut (p @ c # r) [c] = (p, r, True)"
  by (simp add: Cut_def Index_char)

lemma Split_none: "c \<notin> set r \<Longrightarrow> Split r [c] = [r]"
  by (subst Split.simps) (simp add: Index_char_None)

lemma Index_append_first: "Index s [c] = Some i \<Longrightarrow> Index (s @ t) [c] = Some i"
  by (induction s arbitrary: i) (auto split: if_splits)

lemma Split_last:
  assumes "c \<notin> set r"
  shows "Split (s @ c # r) [c] = Split s [c] @ [r]"
proof (induction "length s" arbitrary: s rule: less_induct)
  case less
  show ?case
  proof (cases "Index s [c]")
    case None
    then have "c \<notin> set s" using Index_char_some by fastforce
    with assms show ?thesis by (simp add: Split_char Split_none)
  next
    case (Some i)
    with Index_less [of "[c]" s i] have i: "i < length s" by simp
    have "Split (s @ c # r) [c] = take i s # Split (drop (Suc i) s @ c # r) [c]"
      using Index_append_first [OF Some, of "c # r"] i by (subst Split.simps) simp
    also have "Split (drop (Suc i) s @ c # r) [c] = Split (drop (Suc i) s) [c] @ [r]"
      using i by (intro less) simp
    also have "take i s # (Split (drop (Suc i) s) [c] @ [r]) = Split s [c] @ [r]"
      using Some by (subst (2) Split.simps) simp
    finally show ?thesis .
  qed
qed

subsection \<open>Package net\<close>

text \<open>\<^verbatim>\<open>net.SplitHostPort\<close>, with its four errors.\<close>

datatype addr_error = MissingPort | TooManyColons | MissingBracket | UnexpectedOpen | UnexpectedClose

definition SplitHostPort :: "string \<Rightarrow> addr_error + string \<times> string" where
  "SplitHostPort hp = (case LastIndexByte hp (CHR '':'') of
      None \<Rightarrow> Inl MissingPort
    | Some i \<Rightarrow>
        (let finish = (\<lambda>host j k.
             if CHR ''['' \<in> set (drop j hp) then Inl UnexpectedOpen
             else if CHR '']'' \<in> set (drop k hp) then Inl UnexpectedClose
             else Inr (host, drop (Suc i) hp))
         in if hd hp = CHR ''['' then
              (case IndexByte hp (CHR '']'') of
                 None \<Rightarrow> Inl MissingBracket
               | Some e \<Rightarrow>
                   if e + 1 = length hp then Inl MissingPort
                   else if e + 1 = i then finish (drop 1 (take e hp)) 1 (e + 1)
                   else if hp ! (e + 1) = CHR '':'' then Inl TooManyColons
                   else Inl MissingPort)
            else if CHR '':'' \<in> set (take i hp) then Inl TooManyColons
            else finish (take i hp) 0 0))"

lemma SplitHostPort_no_colon: "CHR '':'' \<notin> set s \<Longrightarrow> SplitHostPort s = Inl MissingPort"
  by (simp add: SplitHostPort_def LastIndexByte_None_iff [THEN iffD2])

lemma SplitHostPort_subset:
  "SplitHostPort hp = Inr (h, p) \<Longrightarrow> set h \<subseteq> set hp \<and> set p \<subseteq> set hp"
  unfolding SplitHostPort_def Let_def
  by (auto split: option.splits if_splits dest: in_set_dropD in_set_takeD)

end
