(* ===== verification/Route.thy ===== *)
theory Route
  imports Go_Strings "HOL-Library.Multiset"
begin

text \<open>
  Package \<^verbatim>\<open>internal/route\<close>: host normalisation, host patterns and the matcher the edge
  (host to agents) and the agent (host to backend) share. A \<^verbatim>\<open>Matcher[V]\<close> is a record of
  the exact table, the wildcard list and the optional default (\<^verbatim>\<open>def\<close> with
  \<^verbatim>\<open>hasDef\<close>); \<open>Match\<close> returns an option for the pair of a value and \<^verbatim>\<open>ok\<close>.
\<close>

subsection \<open>Model\<close>

definition Normalize :: "string \<Rightarrow> string" where
  "Normalize host0 =
     (let host = TrimSpace host0;
          host = (case SplitHostPort host of Inr (h, _) \<Rightarrow> h | Inl _ \<Rightarrow> host);
          host = TrimSuffix host ''.''
      in ToLower host)"

datatype pattern_error = EmptyPattern | InvalidWildcard string | InvalidHostPattern string

text \<open>\<open>None\<close> is the nil error.\<close>

definition ValidatePattern :: "string \<Rightarrow> pattern_error option" where
  "ValidatePattern p =
     (if p = '''' then Some EmptyPattern
      else if p = ''*'' then None
      else if HasPrefix p ''*.'' then
        (let rest = drop 2 p
         in if rest = '''' \<or> ContainsChar rest (CHR ''*'') then Some (InvalidWildcard p) else None)
      else if ContainsChar p (CHR ''*'') then Some (InvalidHostPattern p)
      else None)"

record 'v Entry =
  Pattern :: string
  Value :: 'v

record 'v wildcard =
  wsuffix :: string
  wval :: 'v

record 'v Matcher =
  exact :: "string \<rightharpoonup> 'v"
  wildcards :: "'v wildcard list"
  mdefault :: "'v option"

definition empty_Matcher :: "'v Matcher" where
  "empty_Matcher = \<lparr>exact = Map.empty, wildcards = [], mdefault = None\<rparr>"

text \<open>One iteration of the loop of \<^verbatim>\<open>Build\<close>.\<close>

definition Build_entry :: "'v Matcher \<Rightarrow> 'v Entry \<Rightarrow> 'v Matcher" where
  "Build_entry m e =
     (if Pattern e = ''*'' then m\<lparr>mdefault := Some (Value e)\<rparr>
      else if HasPrefix (Pattern e) ''*.'' then
        m\<lparr>wildcards := wildcards m @ [\<lparr>wsuffix = Normalize (drop 2 (Pattern e)), wval = Value e\<rparr>]\<rparr>
      else m\<lparr>exact := (exact m)(Normalize (Pattern e) \<mapsto> Value e)\<rparr>)"

text \<open>\<^verbatim>\<open>sort.SliceStable\<close> by decreasing suffix length: \<open>sort_key\<close> is stable.\<close>

definition sort_wildcards :: "'v wildcard list \<Rightarrow> 'v wildcard list" where
  "sort_wildcards ws = sort_key (\<lambda>w. - int (length (wsuffix w))) ws"

definition Build :: "'v Entry list \<Rightarrow> 'v Matcher" where
  "Build entries =
     (let m = foldl Build_entry empty_Matcher entries
      in m\<lparr>wildcards := sort_wildcards (wildcards m)\<rparr>)"

definition wildcard_matches :: "string \<Rightarrow> 'v wildcard \<Rightarrow> bool" where
  "wildcard_matches host w \<longleftrightarrow> HasSuffix host (''.'' @ wsuffix w)"

definition Match :: "'v Matcher \<Rightarrow> string \<Rightarrow> 'v option" where
  "Match m host0 =
     (let host = Normalize host0
      in case exact m host of
           Some v \<Rightarrow> Some v
         | None \<Rightarrow> (case List.find (wildcard_matches host) (wildcards m) of
                     Some w \<Rightarrow> Some (wval w)
                   | None \<Rightarrow> mdefault m))"

subsection \<open>What Build stores\<close>

text \<open>The three kinds of entries, and the key an entry is stored under.\<close>

definition is_default :: "'v Entry \<Rightarrow> bool" where
  "is_default e \<longleftrightarrow> Pattern e = ''*''"

definition is_wildcard :: "'v Entry \<Rightarrow> bool" where
  "is_wildcard e \<longleftrightarrow> Pattern e \<noteq> ''*'' \<and> HasPrefix (Pattern e) ''*.''"

definition is_exact :: "'v Entry \<Rightarrow> bool" where
  "is_exact e \<longleftrightarrow> Pattern e \<noteq> ''*'' \<and> \<not> HasPrefix (Pattern e) ''*.''"

definition entry_wildcard :: "'v Entry \<Rightarrow> 'v wildcard" where
  "entry_wildcard e = \<lparr>wsuffix = Normalize (drop 2 (Pattern e)), wval = Value e\<rparr>"

datatype route_key = KDefault | KWild string | KExact string

definition pattern_key :: "string \<Rightarrow> route_key" where
  "pattern_key p =
     (if p = ''*'' then KDefault
      else if HasPrefix p ''*.'' then KWild (Normalize (drop 2 p))
      else KExact (Normalize p))"

lemmas entry_kind_defs = is_default_def is_wildcard_def is_exact_def

lemma entry_kinds: "is_default e \<or> is_wildcard e \<or> is_exact e"
  by (auto simp: entry_kind_defs)

definition exact_put :: "(string \<rightharpoonup> 'v) \<Rightarrow> 'v Entry \<Rightarrow> (string \<rightharpoonup> 'v)" where
  "exact_put t e = t(Normalize (Pattern e) \<mapsto> Value e)"

lemma foldl_Build_entry:
  "foldl Build_entry m es =
     \<lparr>exact = foldl exact_put (exact m) (filter is_exact es),
      wildcards = wildcards m @ map entry_wildcard (filter is_wildcard es),
      mdefault = (case rev (filter is_default es) of [] \<Rightarrow> mdefault m | e # _ \<Rightarrow> Some (Value e))\<rparr>"
proof (induction es arbitrary: m)
  case Nil
  then show ?case by simp
next
  case (Cons e es)
  show ?case
    unfolding foldl_Cons Cons.IH
    by (auto simp: Build_entry_def exact_put_def [symmetric] is_default_def [of e] is_wildcard_def [of e] is_exact_def [of e]
        entry_wildcard_def [of e] split: list.splits)
qed

lemma foldl_exact_lookup:
  "foldl exact_put t es k =
     (case List.find (\<lambda>e. Normalize (Pattern e) = k) (rev es) of Some e \<Rightarrow> Some (Value e) | None \<Rightarrow> t k)"
proof (induction es rule: rev_induct)
  case Nil
  then show ?case by simp
next
  case (snoc e es)
  then show ?case by (simp add: exact_put_def)
qed

lemma exact_Build:
  "exact (Build es) k =
     map_option Value (List.find (\<lambda>e. Normalize (Pattern e) = k) (rev (filter is_exact es)))"
  by (simp add: Build_def Let_def foldl_Build_entry empty_Matcher_def foldl_exact_lookup
      option.map_comp split: option.splits)

lemma wildcards_Build:
  "wildcards (Build es) = sort_wildcards (map entry_wildcard (filter is_wildcard es))"
  by (simp add: Build_def Let_def foldl_Build_entry empty_Matcher_def)

lemma mdefault_Build:
  "mdefault (Build es) = map_option Value (List.find (\<lambda>_. True) (rev (filter is_default es)))"
  by (auto simp: Build_def Let_def foldl_Build_entry empty_Matcher_def split: list.splits)

lemma set_sort_wildcards [simp]: "set (sort_wildcards ws) = set ws"
  by (simp add: sort_wildcards_def)

subsection \<open>The wildcard found is the longest\<close>

lemma sort_wildcards_sorted:
  "sorted_wrt (\<lambda>v w. length (wsuffix w) \<le> length (wsuffix v)) (sort_wildcards ws)"
proof -
  have "sorted (map (\<lambda>w. - int (length (wsuffix w))) (sort_wildcards ws))"
    by (simp add: sort_wildcards_def)
  then show ?thesis by (simp add: sorted_map)
qed

lemma find_sorted_wrt_best:
  assumes "sorted_wrt R xs" and "List.find p xs = Some x" and "y \<in> set xs" and "p y"
  shows "y = x \<or> R x y"
  using assms
proof (induction xs)
  case Nil
  then show ?case by simp
next
  case (Cons a xs)
  then show ?case by (cases "p a") auto
qed

lemma find_longest_wildcard:
  assumes "List.find p (sort_wildcards ws) = Some w" and "v \<in> set ws" and "p v"
  shows "length (wsuffix v) \<le> length (wsuffix w)"
  using find_sorted_wrt_best [OF sort_wildcards_sorted assms(1)] assms(2,3) by auto

lemma suffix_same_length: "suffix a h \<Longrightarrow> suffix b h \<Longrightarrow> length a = length b \<Longrightarrow> a = b"
  by (metis suffix_length_suffix suffix_order.dual_order.antisym order_refl)

lemma wildcard_matches_same_length:
  "wildcard_matches h v \<Longrightarrow> wildcard_matches h w \<Longrightarrow> length (wsuffix v) = length (wsuffix w) \<Longrightarrow>
   wsuffix v = wsuffix w"
  unfolding wildcard_matches_def HasSuffix_def
  using suffix_same_length [of "CHR ''.'' # wsuffix v" h "CHR ''.'' # wsuffix w"] by simp


subsection \<open>What Match promises\<close>

text \<open>
  The specification of the matcher, over the entries and not over the tables \<open>Build\<close> makes
  of them: an entry applies to a (normalised) host, and the best entry is an exact one, else
  the wildcard with the longest suffix, else the default.
\<close>

definition applies :: "string \<Rightarrow> 'v Entry \<Rightarrow> bool" where
  "applies h e \<longleftrightarrow> is_default e \<or> is_exact e \<and> Normalize (Pattern e) = h
     \<or> is_wildcard e \<and> wildcard_matches h (entry_wildcard e)"

definition precedence :: "'v Entry \<Rightarrow> nat" where
  "precedence e =
     (if is_exact e then 2 else if is_wildcard e then 1 else 0)"

definition best_entry :: "'v Entry list \<Rightarrow> string \<Rightarrow> 'v Entry \<Rightarrow> bool" where
  "best_entry es h e \<longleftrightarrow> e \<in> set es \<and> applies h e \<and>
     (\<forall>e' \<in> set es. applies h e' \<longrightarrow> precedence e' \<le> precedence e \<and>
        (is_wildcard e \<and> is_wildcard e' \<longrightarrow>
           length (wsuffix (entry_wildcard e')) \<le> length (wsuffix (entry_wildcard e))))"

lemma precedence_kind [simp]:
  "is_exact e \<Longrightarrow> precedence e = 2" "is_wildcard e \<Longrightarrow> precedence e = 1" "is_default e \<Longrightarrow> precedence e = 0"
  by (auto simp: precedence_def entry_kind_defs)

lemma precedence_le [simp]: "precedence e \<le> 2"
  by (simp add: precedence_def)

lemma exact_Build_None: "exact (Build es) h = None \<longleftrightarrow> (\<forall>e \<in> set es. \<not> (is_exact e \<and> applies h e))"
  by (auto simp: exact_Build find_None_props applies_def entry_kind_defs)

lemma find_wildcard_None:
  "List.find (wildcard_matches h) (wildcards (Build es)) = None \<longleftrightarrow>
     (\<forall>e \<in> set es. \<not> (is_wildcard e \<and> applies h e))"
  by (auto simp: wildcards_Build find_None_props applies_def entry_kind_defs)

lemma best_exact:
  assumes "exact (Build es) h = Some v"
  shows "\<exists>e. best_entry es h e \<and> Value e = v"
proof -
  from assms obtain e where e: "List.find (\<lambda>e. Normalize (Pattern e) = h) (rev (filter is_exact es)) = Some e"
    and v: "Value e = v" by (auto simp: exact_Build)
  from find_Some_props [OF e] have "e \<in> set es" "is_exact e" "Normalize (Pattern e) = h" by auto
  then have "best_entry es h e"
    by (auto simp: best_entry_def applies_def entry_kind_defs precedence_def)
  with v show ?thesis by blast
qed

lemma best_wildcard:
  assumes none: "exact (Build es) h = None"
    and w: "List.find (wildcard_matches h) (wildcards (Build es)) = Some w"
  shows "\<exists>e. best_entry es h e \<and> is_wildcard e \<and> Value e = wval w \<and> wsuffix (entry_wildcard e) = wsuffix w"
proof -
  from find_Some_props [OF w] obtain e where e: "e \<in> set es" "is_wildcard e" "w = entry_wildcard e"
    "wildcard_matches h w" by (auto simp: wildcards_Build)
  have "length (wsuffix (entry_wildcard e')) \<le> length (wsuffix w)"
    if "e' \<in> set es" "is_wildcard e'" "applies h e'" for e'
    using find_longest_wildcard [OF w [unfolded wildcards_Build]] that
    by (auto simp: applies_def entry_kind_defs)
  moreover have "precedence e' \<le> 1" if "e' \<in> set es" "applies h e'" for e'
    using none that by (auto simp: exact_Build_None precedence_def)
  ultimately have "best_entry es h e" using e by (auto simp: best_entry_def applies_def)
  with e show ?thesis by (auto simp: entry_wildcard_def)
qed

lemma best_default:
  assumes "exact (Build es) h = None" and "List.find (wildcard_matches h) (wildcards (Build es)) = None"
    and "mdefault (Build es) = Some v"
  shows "\<exists>e. best_entry es h e \<and> Value e = v"
proof -
  from assms(3) obtain e where "e \<in> set es" "is_default e" "Value e = v"
    by (force simp: mdefault_Build dest: find_Some_props)
  moreover have "precedence e' = 0" if "e' \<in> set es" "applies h e'" for e'
    using assms(1,2) that by (auto simp: exact_Build_None find_wildcard_None precedence_def)
  ultimately have "best_entry es h e \<and> Value e = v"
    by (auto simp: best_entry_def applies_def entry_kind_defs)
  then show ?thesis by blast
qed

lemma Match_Some_best:
  assumes "Match (Build es) host = Some v"
  shows "\<exists>e. best_entry es (Normalize host) e \<and> Value e = v"
  using assms best_exact [of es "Normalize host"] best_wildcard [of es "Normalize host"]
    best_default [of es "Normalize host"]
  by (auto simp: Match_def Let_def split: option.splits)

lemma Match_None_applies:
  "Match (Build es) host = None \<longleftrightarrow> (\<forall>e \<in> set es. \<not> applies (Normalize host) e)"
proof -
  have "mdefault (Build es) = None \<longleftrightarrow> (\<forall>e \<in> set es. \<not> is_default e)"
    by (auto simp: mdefault_Build find_None_props)
  then show ?thesis
    using exact_Build_None [of es "Normalize host"] find_wildcard_None [of "Normalize host" es]
      entry_kinds
    by (auto simp: Match_def Let_def split: option.splits) (auto simp: applies_def)
qed

text \<open>With one entry per key, the best entry is unique.\<close>

lemma best_entry_unique:
  assumes d: "distinct (map (\<lambda>e. pattern_key (Pattern e)) es)"
    and e: "best_entry es h e" and e': "best_entry es h e'"
  shows "e = e'"
proof -
  have in_es: "e \<in> set es" "e' \<in> set es" and ap: "applies h e" "applies h e'"
    using e e' by (auto simp: best_entry_def)
  have "precedence e = precedence e'" using e e' by (meson best_entry_def order_antisym)
  then have kinds: "is_exact e = is_exact e'" "is_wildcard e = is_wildcard e'"
    by (auto simp: precedence_def entry_kind_defs split: if_splits)
  have "is_wildcard e \<Longrightarrow> wsuffix (entry_wildcard e) = wsuffix (entry_wildcard e')"
  proof -
    assume "is_wildcard e"
    with kinds e e' have "length (wsuffix (entry_wildcard e)) = length (wsuffix (entry_wildcard e'))"
      by (meson best_entry_def order_antisym)
    moreover have "wildcard_matches h (entry_wildcard e)" "wildcard_matches h (entry_wildcard e')"
      using ap kinds \<open>is_wildcard e\<close> by (auto simp: applies_def entry_kind_defs)
    ultimately show ?thesis using wildcard_matches_same_length by blast
  qed
  then have "pattern_key (Pattern e) = pattern_key (Pattern e')"
    using ap kinds by (auto simp: pattern_key_def applies_def entry_kind_defs entry_wildcard_def)
  with d in_es show ?thesis unfolding distinct_map inj_on_def by blast
qed

lemma Match_Some_iff:
  assumes "distinct (map (\<lambda>e. pattern_key (Pattern e)) es)"
  shows "Match (Build es) host = Some v \<longleftrightarrow> (\<exists>e. best_entry es (Normalize host) e \<and> Value e = v)"
proof
  assume "Match (Build es) host = Some v"
  then show "\<exists>e. best_entry es (Normalize host) e \<and> Value e = v" by (rule Match_Some_best)
next
  assume "\<exists>e. best_entry es (Normalize host) e \<and> Value e = v"
  then obtain e where e: "best_entry es (Normalize host) e" "Value e = v" by blast
  then have "Match (Build es) host \<noteq> None" by (auto simp: Match_None_applies best_entry_def)
  then obtain v' where v': "Match (Build es) host = Some v'" by blast
  from Match_Some_best [OF v'] obtain e' where e': "best_entry es (Normalize host) e'" "Value e' = v'"
    by blast
  have "e = e'" by (rule best_entry_unique [OF assms e(1) e'(1)])
  with e e' have "v = v'" by simp
  with v' show "Match (Build es) host = Some v" by simp
qed

lemma best_entry_mset: "mset es = mset es' \<Longrightarrow> best_entry es h e = best_entry es' h e"
  unfolding best_entry_def using mset_eq_setD by blast

subsection \<open>Properties\<close>

text \<open>C4. With at most one entry per stored key, \<open>Match\<close> resolves a host to the entry the
  documentation names: the exact entry, else the matching wildcard with the longest suffix,
  else the default; and it finds nothing exactly when no entry applies.\<close>

theorem Match_resolves_best:
  assumes "distinct (map (\<lambda>e. pattern_key (Pattern e)) es)"
  shows "(Match (Build es) host = Some v \<longleftrightarrow> (\<exists>e. best_entry es (Normalize host) e \<and> Value e = v)) \<and>
    (Match (Build es) host = None \<longleftrightarrow> (\<forall>e \<in> set es. \<not> applies (Normalize host) e))"
  using Match_Some_iff [OF assms] Match_None_applies by blast

abbreviation sample_entries :: "nat Entry list" where
  "sample_entries \<equiv> [\<lparr>Pattern = ''*'', Value = 0\<rparr>, \<lparr>Pattern = ''*.b.c'', Value = 1\<rparr>,
     \<lparr>Pattern = ''*.c'', Value = 2\<rparr>, \<lparr>Pattern = ''x.b.c'', Value = 3\<rparr>]"

lemma sample_entries_distinct: "distinct (map (\<lambda>e. pattern_key (Pattern e)) sample_entries)"
  by code_simp

theorem Match_resolves_best_witness:
  "(Match (Build sample_entries) ''A.b.C.:80'' = Some 1 \<longleftrightarrow>
      (\<exists>e. best_entry sample_entries (Normalize ''A.b.C.:80'') e \<and> Value e = 1)) \<and>
   Match (Build sample_entries) ''A.b.C.:80'' = Some 1"
proof -
  have "Match (Build sample_entries) ''A.b.C.:80'' = Some 1" by code_simp
  then show ?thesis using Match_resolves_best [OF sample_entries_distinct, of "''A.b.C.:80''" 1] by blast
qed

text \<open>The order of the configuration does not matter: two permutations of the same entries,
  with at most one entry per stored key, resolve every host alike.\<close>

theorem Match_order_irrelevant:
  assumes "distinct (map (\<lambda>e. pattern_key (Pattern e)) es)" and "mset es' = mset es"
  shows "Match (Build es') host = Match (Build es) host"
proof -
  have "mset (map (\<lambda>e. pattern_key (Pattern e)) es') = mset (map (\<lambda>e. pattern_key (Pattern e)) es)"
    using assms(2) by (simp add: mset_map)
  then have d: "distinct (map (\<lambda>e. pattern_key (Pattern e)) es')"
    using assms(1) mset_eq_imp_distinct_iff by blast
  have "Match (Build es') host = Some v \<longleftrightarrow> Match (Build es) host = Some v" for v
    unfolding Match_Some_iff [OF assms(1)] Match_Some_iff [OF d] best_entry_mset [OF assms(2)] ..
  then show ?thesis by (metis not_Some_eq)
qed

theorem Match_order_irrelevant_witness:
  "Match (Build (rev sample_entries)) ''y.c'' = Match (Build sample_entries) ''y.c'' \<and>
   Match (Build sample_entries) ''y.c'' = Some 2"
proof
  show "Match (Build (rev sample_entries)) ''y.c'' = Match (Build sample_entries) ''y.c''"
    by (rule Match_order_irrelevant [OF sample_entries_distinct]) (rule mset_rev)
  show "Match (Build sample_entries) ''y.c'' = Some 2" by code_simp
qed

end
