(* ===== verification/Go_Net.thy ===== *)
theory Go_Net
  imports Go_Strings
begin

text \<open>
  What the configuration uses of Go's \<^verbatim>\<open>net\<close> and \<^verbatim>\<open>net/netip\<close> packages: parsing IP
  literals (\<^verbatim>\<open>net.ParseIP\<close>) into 16 bytes, and port names (\<^verbatim>\<open>net.LookupPort\<close>). The
  system's table of service names is an argument.
\<close>

type_synonym ip = "nat list"

definition digit :: "char \<Rightarrow> nat option" where
  "digit c = (let n = of_char c :: nat in if 48 \<le> n \<and> n \<le> 57 then Some (n - 48) else None)"

definition hexval :: "char \<Rightarrow> nat option" where
  "hexval c = (let n = of_char c :: nat
     in if 48 \<le> n \<and> n \<le> 57 then Some (n - 48)
        else if 97 \<le> n \<and> n \<le> 102 then Some (n - 87)
        else if 65 \<le> n \<and> n \<le> 70 then Some (n - 55)
        else None)"

subsection \<open>IPv4\<close>

text \<open>\<^verbatim>\<open>parseIPv4Fields\<close>: the value and length of the current octet and the octets so far.
  A dot needs a digit before it (which the code checks with its neighbours) and after it.\<close>

fun parseIPv4Fields :: "nat \<Rightarrow> nat \<Rightarrow> nat list \<Rightarrow> string \<Rightarrow> nat list option" where
  "parseIPv4Fields val digLen fields [] =
     (if length fields < 3 \<or> digLen = 0 then None else Some (fields @ [val]))"
| "parseIPv4Fields val digLen fields (c # s) = (case digit c of
      Some d \<Rightarrow>
        if digLen = 1 \<and> val = 0 then None
        else if 255 < val * 10 + d then None
        else parseIPv4Fields (val * 10 + d) (Suc digLen) fields s
    | None \<Rightarrow>
        if c = CHR ''.'' then
          (if digLen = 0 then None
           else if length fields = 3 then None
           else parseIPv4Fields 0 0 (fields @ [val]) s)
        else None)"

definition v4InV6Prefix :: "nat list" where
  "v4InV6Prefix = [0, 0, 0, 0, 0, 0, 0, 0, 0, 0, 255, 255]"

definition IPv4 :: "nat \<Rightarrow> nat \<Rightarrow> nat \<Rightarrow> nat \<Rightarrow> ip" where
  "IPv4 a b c d = v4InV6Prefix @ [a, b, c, d]"

definition parseIPv4 :: "string \<Rightarrow> ip option" where
  "parseIPv4 s = map_option (\<lambda>f. v4InV6Prefix @ f) (parseIPv4Fields 0 0 [] s)"

subsection \<open>IPv6\<close>

text \<open>A group's hexadecimal digits: its value and the rest of the string, \<open>None\<close> with more
  than four digits (then its value would pass 0xFFFF too).\<close>

fun hexgroup :: "nat \<Rightarrow> nat \<Rightarrow> string \<Rightarrow> (nat \<times> nat \<times> string) option" where
  "hexgroup off acc [] = Some (off, acc, [])"
| "hexgroup off acc (c # s) = (case hexval c of
      None \<Rightarrow> Some (off, acc, c # s)
    | Some d \<Rightarrow> if 3 < off then None else hexgroup (Suc off) (acc * 16 + d) s)"

text \<open>The loop over the groups, at most eight of them: the bytes so far, where the ellipsis was,
  and the string left.\<close>

fun parseIPv6_loop :: "nat \<Rightarrow> nat list \<Rightarrow> nat option \<Rightarrow> string \<Rightarrow> (nat list \<times> nat option \<times> string) option" where
  "parseIPv6_loop 0 ip ell s = Some (ip, ell, s)"
| "parseIPv6_loop (Suc n) ip ell s =
     (if 16 \<le> length ip then Some (ip, ell, s)
      else (case hexgroup 0 0 s of
          None \<Rightarrow> None
        | Some (off, acc, t) \<Rightarrow>
            if off = 0 then None
            else if t \<noteq> [] \<and> hd t = CHR ''.'' then
              (if ell = None \<and> length ip \<noteq> 12 then None
               else if 16 < length ip + 4 then None
               else (case parseIPv4Fields 0 0 [] s of
                   None \<Rightarrow> None
                 | Some f \<Rightarrow> Some (ip @ f, ell, [])))
            else
              (let ip' = ip @ [acc div 256, acc mod 256]
               in case t of
                    [] \<Rightarrow> Some (ip', ell, [])
                  | c # u \<Rightarrow>
                      if c \<noteq> CHR '':'' then None
                      else (case u of
                          [] \<Rightarrow> None
                        | d # v \<Rightarrow>
                            if d = CHR '':'' then
                              (if ell \<noteq> None then None
                               else if v = [] then Some (ip', Some (length ip'), [])
                               else parseIPv6_loop n ip' (Some (length ip')) v)
                            else parseIPv6_loop n ip' ell u))))"

definition expand_ellipsis :: "nat list \<Rightarrow> nat \<Rightarrow> nat list" where
  "expand_ellipsis ip e = take e ip @ replicate (16 - length ip) 0 @ drop e ip"

definition parseIPv6 :: "string \<Rightarrow> ip option" where
  "parseIPv6 s =
     (if CHR ''%'' \<in> set s then None  \<comment> \<open>a zone, which ParseIP does not accept\<close>
      else
        (let lead = prefix ''::'' s; s' = (if lead then drop 2 s else s)
         in if lead \<and> s' = [] then Some (replicate 16 0)
            else (case parseIPv6_loop 9 [] (if lead then Some 0 else None) s' of
                None \<Rightarrow> None
              | Some (ip, ell, rest) \<Rightarrow>
                  if rest \<noteq> [] then None
                  else if length ip < 16 then map_option (expand_ellipsis ip) ell
                  else if ell \<noteq> None then None
                  else Some ip)))"

text \<open>\<^verbatim>\<open>net.ParseIP\<close>: the first of dot, colon and percent decides.\<close>

definition ParseIP :: "string \<Rightarrow> ip option" where
  "ParseIP s = (case List.find (\<lambda>c. c \<in> {CHR ''.'', CHR '':'', CHR ''%''}) s of
      None \<Rightarrow> None
    | Some c \<Rightarrow> if c = CHR ''.'' then parseIPv4 s
               else if c = CHR '':'' then parseIPv6 s
               else None)"

definition IPv6loopback :: ip where
  "IPv6loopback = replicate 15 0 @ [1]"

definition IsUnspecified :: "ip \<Rightarrow> bool" where
  "IsUnspecified ip \<longleftrightarrow> ip = IPv4 0 0 0 0 \<or> ip = replicate 16 0"

definition IsLoopback :: "ip \<Rightarrow> bool" where
  "IsLoopback ip \<longleftrightarrow> (if prefix v4InV6Prefix ip \<and> length ip = 16 then ip ! 12 = 127 else ip = IPv6loopback)"

subsection \<open>Ports\<close>

text \<open>\<^verbatim>\<open>parsePort\<close>: a number (saturating), or a name to look up (\<open>None\<close>).\<close>

fun port_digits :: "nat \<Rightarrow> string \<Rightarrow> nat option" where
  "port_digits n [] = Some n"
| "port_digits n (c # s) = (case digit c of
      None \<Rightarrow> None
    | Some d \<Rightarrow> if 2 ^ 30 \<le> n then Some (2 ^ 32 - 1)
               else if 2 ^ 32 \<le> n * 10 + d then Some (2 ^ 32 - 1)
               else port_digits (n * 10 + d) s)"

definition parsePort :: "string \<Rightarrow> int option" where
  "parsePort service = (case service of
      [] \<Rightarrow> Some 0
    | c # s \<Rightarrow>
        (let neg = (c = CHR ''-''); ds = (if c = CHR ''+'' \<or> neg then s else service)
         in map_option (\<lambda>n. if \<not> neg \<and> 2 ^ 30 \<le> n then 2 ^ 30 - 1
              else if neg \<and> 2 ^ 30 < n then - (2 ^ 30)
              else if neg then - int n else int n) (port_digits 0 ds)))"

text \<open>\<^verbatim>\<open>net.LookupPort\<close>; \<open>services\<close> is the system's table, by network.\<close>

definition LookupPort :: "(string \<Rightarrow> string \<Rightarrow> int option) \<Rightarrow> string \<Rightarrow> string \<Rightarrow> int option" where
  "LookupPort services network service =
     (let port = (case parsePort service of None \<Rightarrow> services network service | Some p \<Rightarrow> Some p)
      in case port of
           None \<Rightarrow> None
         | Some p \<Rightarrow> if p < 0 \<or> 65535 < p then None else Some p)"

lemma LookupPort_range: "LookupPort services network s = Some p \<Longrightarrow> 0 \<le> p \<and> p \<le> 65535"
  by (auto simp: LookupPort_def Let_def split: option.splits if_splits)

lemma parseIPv4Fields_length: "parseIPv4Fields v d fs s = Some f \<Longrightarrow> length fs \<le> 3 \<Longrightarrow> length f = 4"
  by (induction v d fs s rule: parseIPv4Fields.induct) (auto split: option.splits if_splits)

lemma parseIPv4_length: "parseIPv4 s = Some a \<Longrightarrow> length a = 16"
  by (auto simp: parseIPv4_def v4InV6Prefix_def dest: parseIPv4Fields_length)

text \<open>The decimal digits \<^verbatim>\<open>fmt\<close> prints for a number.\<close>

fun show_nat :: "nat \<Rightarrow> string" where
  "show_nat n = (if n < 10 then [char_of (48 + n)] else show_nat (n div 10) @ [char_of (48 + n mod 10)])"

declare show_nat.simps [simp del]

text \<open>Lower-case hexadecimal digits, as \<^verbatim>\<open>fmt\<close>, \<^verbatim>\<open>strconv\<close> and \<^verbatim>\<open>encoding/hex\<close> print them.\<close>

definition hexdigit :: "nat \<Rightarrow> char" where
  "hexdigit n = (if n < 10 then char_of (48 + n) else char_of (87 + n))"

lemma hexval_hexdigit: "n < 16 \<Longrightarrow> hexval (hexdigit n) = Some n"
  by (auto simp: hexval_def hexdigit_def Let_def)

text \<open>\<^verbatim>\<open>strconv.Atoi\<close>: an optional sign and decimal digits, within 64 bits.\<close>

fun digits_value :: "nat \<Rightarrow> string \<Rightarrow> nat option" where
  "digits_value acc [] = Some acc"
| "digits_value acc (c # s) = (case digit c of None \<Rightarrow> None | Some d \<Rightarrow> digits_value (acc * 10 + d) s)"

definition Atoi :: "string \<Rightarrow> int option" where
  "Atoi s =
     (let (neg, ds) = (case s of
          c # t \<Rightarrow> if c = CHR ''-'' then (True, t) else if c = CHR ''+'' then (False, t) else (False, s)
        | [] \<Rightarrow> (False, []))
      in if ds = [] then None
         else (case digits_value 0 ds of
             None \<Rightarrow> None
           | Some n \<Rightarrow>
               let v = (if neg then - int n else int n)
               in if v < - (2 ^ 63) \<or> 2 ^ 63 - 1 < v then None else Some v))"

end
