(* ===== verification/Tunnel.thy ===== *)
theory Tunnel
  imports Go_Net
begin

text \<open>
  Package \<^verbatim>\<open>internal/tunnel\<close>: the stream preamble and its framing (preamble.go), the
  accept byte (accept.go), the drain exchange on a control stream (control.go), the teardown
  errors (session.go) and the ALPN negotiation that selects the version 2 protocol (tls.go).

  A stream's read side is a \<open>reader\<close>: the bytes that will arrive and the error that ends
  them (a deadline that passes is such an error). \<^verbatim>\<open>json.Marshal\<close> of a preamble is
  written out; \<^verbatim>\<open>json.Unmarshal\<close> is an argument of \<open>ReadPreamble\<close>.
\<close>

subsection \<open>Errors and readers\<close>

datatype io_error =
    EOF | ErrUnexpectedEOF | ErrNetClosed | ErrStreamClosed | ErrSessionShutdown | ErrConnectionReset
  | ErrDeadlineExceeded | ErrECONNRESET | ErrOther string

definition IsTeardown :: "io_error \<Rightarrow> bool" where
  "IsTeardown err \<longleftrightarrow>
     err \<in> {EOF, ErrNetClosed, ErrStreamClosed, ErrSessionShutdown, ErrConnectionReset}"

record reader =
  avail :: bytes
  ending :: io_error

text \<open>\<^verbatim>\<open>io.ReadFull\<close> of \<open>n\<close> bytes.\<close>

definition ReadFull :: "reader \<Rightarrow> nat \<Rightarrow> io_error + bytes \<times> reader" where
  "ReadFull r n =
     (if n \<le> length (avail r) then Inr (take n (avail r), r\<lparr>avail := drop n (avail r)\<rparr>)
      else if avail r = [] then Inl (ending r)
      else if ending r = EOF then Inl ErrUnexpectedEOF
      else Inl (ending r))"

text \<open>\<^verbatim>\<open>bufio.Reader.ReadString\<close> of a line.\<close>

definition ReadLine :: "reader \<Rightarrow> io_error + bytes" where
  "ReadLine r = (case IndexByte (avail r) LF of
      None \<Rightarrow> Inl (ending r)
    | Some i \<Rightarrow> Inr (take (Suc i) (avail r)))"

text \<open>\<^verbatim>\<open>io.LimitReader\<close>: end of file after \<open>n\<close> bytes.\<close>

definition LimitReader :: "reader \<Rightarrow> nat \<Rightarrow> reader" where
  "LimitReader r n =
     (if length (avail r) < n then r else \<lparr>avail = take n (avail r), ending = EOF\<rparr>)"

subsection \<open>json.Marshal of strings\<close>

text \<open>The length of the UTF-8 sequence a byte string starts with, \<open>None\<close> when invalid
  (\<^verbatim>\<open>utf8.DecodeRune\<close> then yields RuneError of width 1).\<close>

definition cont :: "nat \<Rightarrow> nat \<Rightarrow> bytes \<Rightarrow> nat \<Rightarrow> bool" where
  "cont lo hi s i \<longleftrightarrow> i < length s \<and> lo \<le> of_char (s ! i) \<and> of_char (s ! i) \<le> hi"

definition rune_len :: "bytes \<Rightarrow> nat option" where
  "rune_len s =
     (let b = (of_char (hd s) :: nat); c = cont 128 191 s
      in if b < 128 then Some 1
         else if 194 \<le> b \<and> b \<le> 223 \<and> c 1 then Some 2
         else if b = 224 \<and> cont 160 191 s 1 \<and> c 2 then Some 3
         else if b = 237 \<and> cont 128 159 s 1 \<and> c 2 then Some 3
         else if 225 \<le> b \<and> b \<le> 239 \<and> b \<noteq> 237 \<and> c 1 \<and> c 2 then Some 3
         else if b = 240 \<and> cont 144 191 s 1 \<and> c 2 \<and> c 3 then Some 4
         else if 241 \<le> b \<and> b \<le> 243 \<and> c 1 \<and> c 2 \<and> c 3 then Some 4
         else if b = 244 \<and> cont 128 143 s 1 \<and> c 2 \<and> c 3 then Some 4
         else None)"

definition json_escape_byte :: "char \<Rightarrow> bytes" where
  "json_escape_byte c =
     (if c = CHR 0x22 then [CHR 0x5C, CHR 0x22]
      else if c = CHR 0x5C then [CHR 0x5C, CHR 0x5C]
      else if c = CHR 0x08 then [CHR 0x5C, CHR ''b'']
      else if c = CHR 0x0C then [CHR 0x5C, CHR ''f'']
      else if c = LF then [CHR 0x5C, CHR ''n'']
      else if c = CR then [CHR 0x5C, CHR ''r'']
      else if c = TAB then [CHR 0x5C, CHR ''t'']
      else if of_char c < (32::nat) \<or> c \<in> {CHR ''<'', CHR ''>'', CHR ''&''} then
        CHR 0x5C # ''u00'' @ [hexdigit (of_char c div 16), hexdigit (of_char c mod 16)]
      else [c])"

lemma rune_len_pos: "rune_len s = Some n \<Longrightarrow> 0 < n"
  by (auto simp: rune_len_def Let_def split: if_splits)

function json_escape :: "bytes \<Rightarrow> bytes" where
  "json_escape [] = []"
| "json_escape (c # s) = (case rune_len (c # s) of
      None \<Rightarrow> CHR 0x5C # ''ufffd'' @ json_escape s
    | Some n \<Rightarrow>
        if n = 1 then json_escape_byte c @ json_escape s
        else if take n (c # s) = [CHR 0xE2, CHR 0x80, CHR 0xA8] then
          CHR 0x5C # ''u2028'' @ json_escape (drop n (c # s))
        else if take n (c # s) = [CHR 0xE2, CHR 0x80, CHR 0xA9] then
          CHR 0x5C # ''u2029'' @ json_escape (drop n (c # s))
        else take n (c # s) @ json_escape (drop n (c # s)))"
  by pat_completeness auto
termination
  by (relation "measure length") (auto dest: rune_len_pos)

definition json_string :: "bytes \<Rightarrow> bytes" where
  "json_string s = CHR 0x22 # json_escape s @ [CHR 0x22]"

subsection \<open>The preamble\<close>

record Preamble =
  ConnID :: string
  ClientAddr :: string
  Host :: string
  EdgeVersion :: string

definition maxPreamble :: nat where
  "maxPreamble = 4096"

text \<open>\<^verbatim>\<open>json.Marshal(p)\<close>: the fields in order, \<^verbatim>\<open>edge_version\<close> omitted when empty.\<close>

definition Marshal :: "Preamble \<Rightarrow> bytes" where
  "Marshal p =
     ''{'' @ json_string ''conn_id'' @ '':'' @ json_string (ConnID p) @
     '','' @ json_string ''client_addr'' @ '':'' @ json_string (ClientAddr p) @
     '','' @ json_string ''host'' @ '':'' @ json_string (Host p) @
     (if EdgeVersion p = [] then []
      else '','' @ json_string ''edge_version'' @ '':'' @ json_string (EdgeVersion p)) @ ''}''"

definition PutUint16 :: "16 word \<Rightarrow> bytes" where
  "PutUint16 w = [char_of (unat w div 256), char_of (unat w mod 256)]"

definition Uint16 :: "bytes \<Rightarrow> 16 word" where
  "Uint16 b = of_nat (256 * of_char (b ! 0) + of_char (b ! 1))"

datatype preamble_error = PreambleTooLarge nat | PreambleIO io_error | PreambleJSON

definition EncodePreamble :: "Preamble \<Rightarrow> preamble_error + bytes" where
  "EncodePreamble p =
     (let b = Marshal p
      in if maxPreamble < length b then Inl (PreambleTooLarge (length b))
         else Inr (PutUint16 (of_nat (length b)) @ b))"

definition ReadPreamble :: "(bytes \<Rightarrow> Preamble option) \<Rightarrow> reader \<Rightarrow> preamble_error + Preamble \<times> reader" where
  "ReadPreamble unmarshal r = (case ReadFull r 2 of
      Inl err \<Rightarrow> Inl (PreambleIO err)
    | Inr (hdr, r) \<Rightarrow>
        (let n = Uint16 hdr
         in if maxPreamble < unat n then Inl (PreambleTooLarge (unat n))
            else (case ReadFull r (unat n) of
                Inl err \<Rightarrow> Inl (PreambleIO (if err = EOF then ErrUnexpectedEOF else err))
              | Inr (buf, r) \<Rightarrow> (case unmarshal buf of
                    None \<Rightarrow> Inl PreambleJSON
                  | Some p \<Rightarrow> Inr (p, r)))))"

subsection \<open>The accept byte\<close>

definition acceptByte :: char where
  "acceptByte = CHR 0x06"

definition RetireWait :: duration where
  "RetireWait = 500 * millisecond"

definition MinAckWait :: duration where
  "MinAckWait = 2 * RetireWait"

text \<open>What \<^verbatim>\<open>Accept\<close> writes.\<close>

definition Accept :: "bytes" where
  "Accept = [acceptByte]"

datatype accept_error = ErrBadAccept | ErrRefused | AcceptIO io_error

text \<open>\<^verbatim>\<open>AwaitAccept\<close> returns nil (with what is left to read) or an error; the timeout is
  the reader's ending \<open>ErrDeadlineExceeded\<close>.\<close>

definition AwaitAccept :: "reader \<Rightarrow> accept_error + reader" where
  "AwaitAccept r = (case ReadFull r 1 of
      Inl err \<Rightarrow> if err = EOF \<or> err = ErrConnectionReset then Inl ErrRefused else Inl (AcceptIO err)
    | Inr (b, r) \<Rightarrow> if b ! 0 \<noteq> acceptByte then Inl ErrBadAccept else Inr r)"

subsection \<open>The drain exchange\<close>

definition drainRequest :: bytes where
  "drainRequest = ''coen-drain'' @ [LF]"

definition drainAck :: bytes where
  "drainAck = ''coen-drain-ok'' @ [LF]"

text \<open>
  The agent's side (\<^verbatim>\<open>requestDrain\<close>): what it writes on the control stream it opened,
  given whether the open and the write succeed, and whether it takes the answer for an
  acknowledgement.
\<close>

definition requestDrain :: "bool \<Rightarrow> bool \<Rightarrow> (bytes \<Rightarrow> reader) \<Rightarrow> bool" where
  "requestDrain opened written answer =
     (if \<not> opened then False
      else if \<not> written then False
      else (case ReadLine (answer drainRequest) of Inl _ \<Rightarrow> False | Inr line \<Rightarrow> line = drainAck))"

text \<open>The edge's side (\<^verbatim>\<open>serveControlStream\<close>): whether \<^verbatim>\<open>onDrain\<close> runs, and the bytes
  it answers with.\<close>

definition serveControlStream :: "reader \<Rightarrow> bool \<times> bytes" where
  "serveControlStream s = (case ReadLine (LimitReader s 64) of
      Inl _ \<Rightarrow> (False, [])
    | Inr line \<Rightarrow> if line \<noteq> drainRequest then (False, []) else (True, drainAck))"

text \<open>\<^verbatim>\<open>ServeControl\<close> over the streams accepted until the session closes: one at a time, in
  order; the state is whatever \<^verbatim>\<open>onDrain\<close> changes.\<close>

fun ServeControl :: "('s \<Rightarrow> 's) \<Rightarrow> reader list \<Rightarrow> 's \<Rightarrow> 's \<times> bytes list" where
  "ServeControl onDrain [] st = (st, [])"
| "ServeControl onDrain (s # ss) st =
     (let (drain, reply) = serveControlStream s;
          (st', replies) = ServeControl onDrain ss (if drain then onDrain st else st)
      in (st', reply # replies))"

subsection \<open>ALPN\<close>

definition ALPNv2 :: string where
  "ALPNv2 = ''coen/2''"

record tls_config =
  clientCAs :: "string set"
  requireClientCert :: bool
  minTLS13 :: bool
  nextProtos :: "string list"

text \<open>A nil pool becomes the empty pool. The certificate itself plays no part here.\<close>

definition server_base :: "string set option \<Rightarrow> tls_config" where
  "server_base caPool =
     \<lparr>clientCAs = (case caPool of None \<Rightarrow> {} | Some cas \<Rightarrow> cas),
      requireClientCert = True, minTLS13 = True, nextProtos = [ALPNv2]\<rparr>"

text \<open>The configuration \<^verbatim>\<open>GetConfigForClient\<close> selects for a client's protocol list.\<close>

definition ServerTLSConfig :: "string set option \<Rightarrow> string list \<Rightarrow> tls_config" where
  "ServerTLSConfig caPool supportedProtos =
     (let base = server_base caPool; plain = base\<lparr>nextProtos := []\<rparr>
      in if ALPNv2 \<in> set supportedProtos then base else plain)"

text \<open>Go's server-side negotiation: no protocol when either list is empty, else the server's
  first protocol the client offers, else a failed handshake (\<open>None\<close>).\<close>

definition negotiateALPN :: "string list \<Rightarrow> string list \<Rightarrow> string option" where
  "negotiateALPN serverProtos clientProtos =
     (if serverProtos = [] \<or> clientProtos = [] then Some ''''
      else List.find (\<lambda>s. s \<in> set clientProtos) serverProtos)"

definition ClientTLSConfig :: "string set option \<Rightarrow> tls_config" where
  "ClientTLSConfig caPool =
     \<lparr>clientCAs = (case caPool of None \<Rightarrow> {} | Some cas \<Rightarrow> cas),
      requireClientCert = False, minTLS13 = True, nextProtos = [ALPNv2]\<rparr>"

subsection \<open>Lemmas\<close>

lemma PutUint16_length [simp]: "length (PutUint16 w) = 2"
  by (simp add: PutUint16_def)

lemma Uint16_PutUint16: "Uint16 (PutUint16 w) = w"
proof -
  have "unat w < 65536" using unsigned_less [of w, where ?'a = nat] by simp
  then have "unat w div 256 < 256" by simp
  then have "(256 * (unat w div 256 mod 256) + unat w mod 256 :: nat) = unat w" by simp
  then show ?thesis by (simp add: Uint16_def PutUint16_def of_char_of take_bit_eq_mod)
qed

lemma unat_of_length: "n \<le> maxPreamble \<Longrightarrow> unat (of_nat n :: 16 word) = n"
  by (simp add: unat_of_nat maxPreamble_def)

lemma ReadFull_append:
  "length b = n \<Longrightarrow> avail r = b @ rest \<Longrightarrow> ReadFull r n = Inr (b, r\<lparr>avail := rest\<rparr>)"
  by (simp add: ReadFull_def)

lemma Uint16_frame: "n \<le> maxPreamble \<Longrightarrow> unat (Uint16 (PutUint16 (of_nat n))) = n"
  by (simp add: Uint16_PutUint16 unat_of_length)

lemma EncodePreamble_Inr:
  "EncodePreamble p = Inr f \<longleftrightarrow>
     length (Marshal p) \<le> maxPreamble \<and> f = PutUint16 (of_nat (length (Marshal p))) @ Marshal p"
  by (auto simp: EncodePreamble_def Let_def)

lemma EncodePreamble_bound: "EncodePreamble p = Inr f \<Longrightarrow> length f \<le> maxPreamble + 2"
  by (auto simp: EncodePreamble_Inr)

lemma ReadPreamble_frame:
  assumes "EncodePreamble p = Inr f"
  shows "ReadPreamble unmarshal \<lparr>avail = f @ rest, ending = e\<rparr> =
     (case unmarshal (Marshal p) of None \<Rightarrow> Inl PreambleJSON | Some q \<Rightarrow> Inr (q, \<lparr>avail = rest, ending = e\<rparr>))"
proof -
  from assms have le: "length (Marshal p) \<le> maxPreamble"
    and f: "f = PutUint16 (of_nat (length (Marshal p))) @ Marshal p"
    by (auto simp: EncodePreamble_Inr)
  let ?hdr = "PutUint16 (of_nat (length (Marshal p)))"
  have "ReadFull \<lparr>avail = f @ rest, ending = e\<rparr> 2 = Inr (?hdr, \<lparr>avail = Marshal p @ rest, ending = e\<rparr>)"
    by (subst ReadFull_append [where b = ?hdr and rest = "Marshal p @ rest"]) (simp_all add: f)
  moreover have "ReadFull \<lparr>avail = Marshal p @ rest, ending = e\<rparr> (length (Marshal p)) =
      Inr (Marshal p, \<lparr>avail = rest, ending = e\<rparr>)"
    by (subst ReadFull_append [where b = "Marshal p" and rest = rest]) simp_all
  ultimately show ?thesis using le
    by (simp add: ReadPreamble_def Let_def Uint16_frame split: option.splits)
qed

text \<open>A frame cut short anywhere after its first byte is an unexpected end, and one of which
  nothing arrived is the stream's own end.\<close>

lemma ReadPreamble_cut:
  assumes "EncodePreamble p = Inr f" and "k < length f"
  shows "ReadPreamble unmarshal \<lparr>avail = take k f, ending = EOF\<rparr> =
     Inl (PreambleIO (if k = 0 then EOF else ErrUnexpectedEOF))"
proof (cases "k < 2")
  case True
  then show ?thesis using assms(2)
    by (auto simp: ReadPreamble_def ReadFull_def)
next
  case False
  from assms have le: "length (Marshal p) \<le> maxPreamble"
    and f: "f = PutUint16 (of_nat (length (Marshal p))) @ Marshal p"
    by (auto simp: EncodePreamble_Inr)
  let ?hdr = "PutUint16 (of_nat (length (Marshal p)))"
  from f False have "take k f = ?hdr @ take (k - 2) (Marshal p)" by simp
  then have "ReadFull \<lparr>avail = take k f, ending = EOF\<rparr> 2 =
      Inr (?hdr, \<lparr>avail = take (k - 2) (Marshal p), ending = EOF\<rparr>)"
    by (subst ReadFull_append [where b = ?hdr]) simp_all
  moreover from assms(2) f False have "k - 2 < length (Marshal p)" by auto
  then have "ReadFull \<lparr>avail = take (k - 2) (Marshal p), ending = EOF\<rparr> (length (Marshal p)) \<in>
      {Inl EOF, Inl ErrUnexpectedEOF}"
    by (simp add: ReadFull_def)
  ultimately show ?thesis using le False by (auto simp: ReadPreamble_def Let_def Uint16_frame)
qed

lemma IndexByte_append_absent: "c \<notin> set a \<Longrightarrow> IndexByte (a @ c # b) c = Some (length a)"
  by (induction a) auto

lemma ReadLine_line:
  "LF \<notin> set l \<Longrightarrow> avail r = l @ LF # rest \<Longrightarrow> ReadLine r = Inr (l @ [LF])"
  by (simp add: ReadLine_def IndexByte_append_absent)

lemma serveControlStream_drains_iff:
  "fst (serveControlStream s) \<longleftrightarrow> prefix drainRequest (avail s)"
proof -
  have req: "drainRequest = ''coen-drain'' @ [LF]" "length drainRequest = 11"
    by (simp_all add: drainRequest_def)
  show ?thesis
  proof
    assume "fst (serveControlStream s)"
    then obtain i where "IndexByte (avail (LimitReader s 64)) LF = Some i"
      "take (Suc i) (avail (LimitReader s 64)) = drainRequest"
      by (auto simp: serveControlStream_def ReadLine_def split: sum.splits option.splits if_splits)
    then have "prefix drainRequest (avail (LimitReader s 64))" by (metis take_is_prefix)
    moreover have "prefix (avail (LimitReader s 64)) (avail s)"
      by (simp add: LimitReader_def take_is_prefix)
    ultimately show "prefix drainRequest (avail s)" by (rule prefix_order.trans)
  next
    assume "prefix drainRequest (avail s)"
    then obtain rest where r: "avail s = drainRequest @ rest" by (auto simp: prefix_def)
    define rest' where "rest' = (if length (avail s) < 64 then rest else take 53 rest)"
    have "avail (LimitReader s 64) = ''coen-drain'' @ LF # rest'"
      using r by (simp add: LimitReader_def req rest'_def)
    then have "ReadLine (LimitReader s 64) = Inr drainRequest"
      unfolding req(1) by (rule ReadLine_line [rotated]) simp
    then show "fst (serveControlStream s)" by (simp add: serveControlStream_def)
  qed
qed

lemma serveControlStream_reply:
  "snd (serveControlStream s) = (if fst (serveControlStream s) then drainAck else [])"
  by (auto simp: serveControlStream_def split: sum.splits)

lemma negotiated_server:
  "negotiateALPN (nextProtos (ServerTLSConfig cas offered)) offered =
     Some (if ALPNv2 \<in> set offered then ALPNv2 else '''')"
  by (auto simp: negotiateALPN_def ServerTLSConfig_def server_base_def Let_def)

subsection \<open>Properties\<close>

text \<open>C23. A preamble that the edge can encode is read back by the agent from the same stream:
  \<open>ReadPreamble\<close> hands the JSON decoder exactly the bytes \<open>Marshal\<close> produced, consumes
  exactly the frame, and leaves every byte that follows (the request) unread.\<close>

theorem preamble_roundtrip:
  assumes "EncodePreamble p = Inr f"
  shows "length f \<le> maxPreamble + 2 \<and>
    ReadPreamble unmarshal \<lparr>avail = f @ rest, ending = e\<rparr> =
      (case unmarshal (Marshal p) of None \<Rightarrow> Inl PreambleJSON | Some q \<Rightarrow> Inr (q, \<lparr>avail = rest, ending = e\<rparr>))"
  using EncodePreamble_bound [OF assms] ReadPreamble_frame [OF assms] by blast

abbreviation sample_preamble :: Preamble where
  "sample_preamble \<equiv> \<lparr>ConnID = ''c1'', ClientAddr = ''h:1'', Host = ''a.b'', EdgeVersion = ''''\<rparr>"

abbreviation sample_decoder :: "bytes \<Rightarrow> Preamble option" where
  "sample_decoder b \<equiv> (if b = Marshal sample_preamble then Some sample_preamble else None)"

lemma sample_frame:
  "EncodePreamble sample_preamble = Inr (PutUint16 (of_nat (length (Marshal sample_preamble))) @ Marshal sample_preamble)"
proof -
  have "length (Marshal sample_preamble) \<le> maxPreamble" by code_simp
  then show ?thesis by (simp add: EncodePreamble_Inr)
qed

theorem preamble_roundtrip_witness:
  "ReadPreamble sample_decoder
     \<lparr>avail = (PutUint16 (of_nat (length (Marshal sample_preamble))) @ Marshal sample_preamble) @ ''GET'', ending = EOF\<rparr> =
   Inr (sample_preamble, \<lparr>avail = ''GET'', ending = EOF\<rparr>)"
  using preamble_roundtrip [OF sample_frame, of sample_decoder "''GET''" EOF] by simp

text \<open>A frame cut short is never taken for a shorter preamble: a stream that ends after
  \<open>k\<close> bytes of it gives the stream's own end when nothing arrived, and an unexpected end
  otherwise.\<close>

theorem preamble_truncated:
  assumes "EncodePreamble p = Inr f" and "k < length f"
  shows "ReadPreamble unmarshal \<lparr>avail = take k f, ending = EOF\<rparr> =
     Inl (PreambleIO (if k = 0 then EOF else ErrUnexpectedEOF))"
  using assms by (rule ReadPreamble_cut)

theorem preamble_truncated_witness:
  "ReadPreamble sample_decoder
     \<lparr>avail = take 5 (PutUint16 (of_nat (length (Marshal sample_preamble))) @ Marshal sample_preamble), ending = EOF\<rparr> =
   Inl (PreambleIO ErrUnexpectedEOF)"
proof -
  have "5 < length (PutUint16 (of_nat (length (Marshal sample_preamble))) @ Marshal sample_preamble)"
    by (simp add: Marshal_def)
  from preamble_truncated [OF sample_frame this, of sample_decoder] show ?thesis by simp
qed

text \<open>The drain exchange: the edge runs \<^verbatim>\<open>onDrain\<close> once for each control stream that
  begins with the drain request and for no other, answers exactly those with the
  acknowledgement; and the agent takes the edge's answer for an acknowledgement exactly when
  its open and its write succeeded.\<close>

lemma ServeControl_folds:
  "ServeControl onDrain ss st =
     (((onDrain ^^ length (filter (\<lambda>s. prefix drainRequest (avail s)) ss)) st),
      map (\<lambda>s. if prefix drainRequest (avail s) then drainAck else []) ss)"
  by (induction ss arbitrary: st)
    (simp_all add: split_beta serveControlStream_reply serveControlStream_drains_iff funpow_swap1)

lemma ReadLine_drainAck: "ReadLine \<lparr>avail = drainAck, ending = e\<rparr> = Inr drainAck"
  unfolding drainAck_def by (rule ReadLine_line) simp_all

theorem drain_exchange:
  "ServeControl onDrain ss st =
     (((onDrain ^^ length (filter (\<lambda>s. prefix drainRequest (avail s)) ss)) st),
      map (\<lambda>s. if prefix drainRequest (avail s) then drainAck else []) ss) \<and>
   (requestDrain opened written
      (\<lambda>req. \<lparr>avail = snd (serveControlStream \<lparr>avail = req, ending = EOF\<rparr>), ending = EOF\<rparr>) \<longleftrightarrow>
    opened \<and> written)"
proof -
  have "fst (serveControlStream \<lparr>avail = drainRequest, ending = EOF\<rparr>)"
    by (simp add: serveControlStream_drains_iff)
  then have "snd (serveControlStream \<lparr>avail = drainRequest, ending = EOF\<rparr>) = drainAck"
    by (simp add: serveControlStream_reply)
  then have "requestDrain opened written
      (\<lambda>req. \<lparr>avail = snd (serveControlStream \<lparr>avail = req, ending = EOF\<rparr>), ending = EOF\<rparr>) \<longleftrightarrow>
    opened \<and> written"
    by (simp add: requestDrain_def ReadLine_drainAck)
  then show ?thesis by (simp only: ServeControl_folds)
qed

text \<open>No agent is refused over ALPN: whatever protocols a client offers, the handshake with
  the configuration the edge selects for it succeeds, and negotiates version 2 exactly when it
  was offered.\<close>

theorem alpn_never_rejects:
  "negotiateALPN (nextProtos (ServerTLSConfig cas offered)) offered =
     Some (if ALPNv2 \<in> set offered then ALPNv2 else '''') \<and>
   requireClientCert (ServerTLSConfig cas offered) \<and> minTLS13 (ServerTLSConfig cas offered) \<and>
   negotiateALPN (nextProtos (ServerTLSConfig cas (nextProtos (ClientTLSConfig cas'))))
     (nextProtos (ClientTLSConfig cas')) = Some ALPNv2"
  unfolding negotiated_server
  by (simp add: ServerTLSConfig_def server_base_def ClientTLSConfig_def Let_def)

end
