(* ===== verification/Edge_Ingress_Head.thy ===== *)
theory Edge_Ingress_Head
  imports Route Tunnel
begin

text \<open>
  The parts of \<^verbatim>\<open>internal/edge\<close> a public connection meets before it is routed: the
  connection caps (limit.go), the request head reader and the Host header (http.go), and the
  classification of connections that end without a request (wire.go).
\<close>

subsection \<open>Semaphores (limit.go)\<close>

text \<open>A \<^verbatim>\<open>*semaphore\<close>: nil (\<open>None\<close>) is unlimited, otherwise the capacity of the
  channel and the number of tokens in it.\<close>

record sem_chan =
  cap :: nat
  used :: nat

type_synonym semaphore = "sem_chan option"

definition newSemaphore :: "int \<Rightarrow> semaphore" where
  "newSemaphore n = (if n \<le> 0 then None else Some \<lparr>cap = nat n, used = 0\<rparr>)"

definition tryAcquire :: "semaphore \<Rightarrow> bool \<times> semaphore" where
  "tryAcquire s = (case s of
      None \<Rightarrow> (True, None)
    | Some ch \<Rightarrow> if used ch < cap ch then (True, Some (ch\<lparr>used := Suc (used ch)\<rparr>)) else (False, Some ch))"

text \<open>\<^verbatim>\<open>acquire\<close> waits: the outcomes its \<^verbatim>\<open>select\<close> may take now, none while it waits.
  With both cases ready the runtime picks either.\<close>

definition acquire :: "semaphore \<Rightarrow> bool \<Rightarrow> (bool \<times> semaphore) list" where
  "acquire s ctxDone = (case s of
      None \<Rightarrow> [(True, None)]
    | Some ch \<Rightarrow>
        (if used ch < cap ch then [(True, Some (ch\<lparr>used := Suc (used ch)\<rparr>))] else []) @
        (if ctxDone then [(False, Some ch)] else []))"

text \<open>\<^verbatim>\<open>release\<close> takes a token out; with none in the channel it blocks (\<open>None\<close>).\<close>

definition release :: "semaphore \<Rightarrow> semaphore option" where
  "release s = (case s of
      None \<Rightarrow> Some None
    | Some ch \<Rightarrow> if used ch = 0 then None else Some (Some (ch\<lparr>used := used ch - 1\<rparr>)))"

definition sem_ok :: "semaphore \<Rightarrow> bool" where
  "sem_ok s \<longleftrightarrow> (case s of None \<Rightarrow> True | Some ch \<Rightarrow> 0 < cap ch \<and> used ch \<le> cap ch)"

definition sem_used :: "semaphore \<Rightarrow> nat" where
  "sem_used s = (case s of None \<Rightarrow> 0 | Some ch \<Rightarrow> used ch)"

lemmas sem_defs = newSemaphore_def tryAcquire_def acquire_def release_def sem_ok_def sem_used_def

lemma sem_ok_new [coen_inv]: "sem_ok (newSemaphore n)"
  by (simp add: sem_defs)

lemma sem_ok_tryAcquire [coen_inv]: "sem_ok s \<Longrightarrow> sem_ok (snd (tryAcquire s))"
  by (auto simp: sem_defs split: option.splits)

lemma sem_ok_acquire [coen_inv]: "sem_ok s \<Longrightarrow> o' \<in> set (acquire s d) \<Longrightarrow> sem_ok (snd o')"
  by (auto simp: sem_defs split: option.splits if_splits)

lemma sem_ok_release [coen_inv]: "sem_ok s \<Longrightarrow> release s = Some s' \<Longrightarrow> sem_ok s'"
  by (auto simp: sem_defs split: option.splits if_splits)

lemma release_tryAcquire: "fst (tryAcquire s) \<Longrightarrow> release (snd (tryAcquire s)) = Some s"
  by (auto simp: sem_defs split: option.splits if_splits)

lemma tryAcquire_fails_iff:
  "\<not> fst (tryAcquire s) \<longleftrightarrow> (\<exists>ch. s = Some ch \<and> cap ch \<le> used ch)"
  by (auto simp: sem_defs split: option.splits)

subsection \<open>The Host header (http.go)\<close>

definition maxHeaderBytes :: nat where
  "maxHeaderBytes = 64 * 1024"

datatype head_error =
    HeadTooLarge nat
  | MultipleHost
  | NoHost
  | IncompleteHead
  | ErrNoRequest io_error
  | HeadIO io_error

definition is_host_line :: "bytes \<Rightarrow> bool" where
  "is_host_line ln \<longleftrightarrow> 5 \<le> length ln \<and> EqualFold (take 5 ln) ''host:''"

definition host_of_line :: "bytes \<Rightarrow> string" where
  "host_of_line ln = Normalize (TrimSpace (drop 5 ln))"

text \<open>The loop over the header lines, with \<^verbatim>\<open>host\<close> and \<^verbatim>\<open>found\<close> as an option.\<close>

fun parseHost_loop :: "string option \<Rightarrow> bytes list \<Rightarrow> head_error + string" where
  "parseHost_loop host [] = (case host of None \<Rightarrow> Inl NoHost | Some h \<Rightarrow> Inr h)"
| "parseHost_loop host (ln # lns) =
     (if is_host_line ln then
        (case host of
           Some _ \<Rightarrow> Inl MultipleHost
         | None \<Rightarrow> parseHost_loop (Some (host_of_line ln)) lns)
      else parseHost_loop host lns)"

definition parseHost :: "bytes \<Rightarrow> head_error + string" where
  "parseHost head = parseHost_loop None (drop 1 (Split head CRLF))"

lemma parseHost_loop_Inr:
  "parseHost_loop host lns = Inr h \<longleftrightarrow>
     (case host of
        None \<Rightarrow> (\<exists>ln. filter is_host_line lns = [ln] \<and> h = host_of_line ln)
      | Some h' \<Rightarrow> filter is_host_line lns = [] \<and> h = h')"
proof (induction lns arbitrary: host)
  case Nil
  then show ?case by (auto split: option.splits)
next
  case (Cons ln lns)
  then show ?case by (auto split: option.splits)
qed

lemma parseHost_loop_Multiple:
  "parseHost_loop host lns = Inl MultipleHost \<longleftrightarrow>
     (case host of
        None \<Rightarrow> 2 \<le> length (filter is_host_line lns)
      | Some h' \<Rightarrow> 1 \<le> length (filter is_host_line lns))"
proof (induction lns arbitrary: host)
  case Nil
  then show ?case by (auto split: option.splits)
next
  case (Cons ln lns)
  show ?case
  proof (cases "is_host_line ln")
    case True
    with Cons [of "Some (host_of_line ln)"] show ?thesis by (cases host) auto
  next
    case False
    with Cons [of host] show ?thesis by (simp split: option.splits)
  qed
qed

lemma parseHost_loop_NoHost:
  "parseHost_loop host lns = Inl NoHost \<longleftrightarrow> host = None \<and> filter is_host_line lns = []"
  by (induction lns arbitrary: host) (auto split: option.splits)

subsection \<open>Reading the request head (http.go)\<close>

definition CRLFCRLF :: bytes where
  "CRLFCRLF = CRLF @ CRLF"

text \<open>The error of a read that ends the loop.\<close>

definition head_read_error :: "bytes \<Rightarrow> io_error \<Rightarrow> head_error" where
  "head_read_error buf rerr =
     (if buf = [] \<and> (IsTeardown rerr \<or> rerr = ErrECONNRESET \<or> rerr = ErrDeadlineExceeded) then ErrNoRequest rerr
      else if rerr = EOF then IncompleteHead
      else HeadIO rerr)"

text \<open>
  The reads of the connection in order, each the bytes it returns (at most 512, the size of
  \<^verbatim>\<open>tmp\<close>) and its error. The loop stops at the first read that completes the head or
  fails; \<open>None\<close> when the listed reads do neither, that is, when it is still reading.
\<close>

fun readRequestHead :: "nat \<Rightarrow> bytes \<Rightarrow> (bytes \<times> io_error option) list \<Rightarrow> (head_error + bytes \<times> string) option" where
  "readRequestHead maxBytes buf [] = None"
| "readRequestHead maxBytes buf ((tmp, rerr) # reads) =
     (let buf' = buf @ tmp;
          rest = (case rerr of
              Some e \<Rightarrow> Some (Inl (head_read_error buf' e))
            | None \<Rightarrow> readRequestHead maxBytes buf' reads)
      in if tmp \<noteq> [] then
           (if maxBytes < length buf' then Some (Inl (HeadTooLarge maxBytes))
            else (case Index buf' CRLFCRLF of
                Some idx \<Rightarrow> (case parseHost (take idx buf') of
                    Inl herr \<Rightarrow> Some (Inl herr)
                  | Inr h \<Rightarrow> Some (Inr (buf', h)))
              | None \<Rightarrow> rest))
         else rest)"

lemma readRequestHead_ok:
  assumes "readRequestHead m buf reads = Some (Inr (head, h))"
  shows "length head \<le> m \<and>
    (\<exists>idx. Index head CRLFCRLF = Some idx \<and> parseHost (take idx head) = Inr h) \<and>
    (\<exists>k \<le> length reads. head = buf @ concat (map fst (take k reads)))"
  using assms
proof (induction m buf reads rule: readRequestHead.induct)
  case (1 m buf)
  then show ?case by simp
next
  case (2 m buf tmp rerr reads)
  show ?case
  proof (cases "tmp \<noteq> [] \<and> Index (buf @ tmp) CRLFCRLF \<noteq> None")
    case True
    with 2(2) have "length head \<le> m \<and> head = buf @ tmp \<and>
        (\<exists>idx. Index head CRLFCRLF = Some idx \<and> parseHost (take idx head) = Inr h)"
      by (auto simp: Let_def split: if_splits option.splits sum.splits)
    moreover have "head = buf @ concat (map fst (take 1 ((tmp, rerr) # reads)))"
      using calculation by simp
    ultimately show ?thesis by (metis le_add1 length_Cons plus_1_eq_Suc)
  next
    case False
    with 2(2) have rec: "readRequestHead m (buf @ tmp) reads = Some (Inr (head, h))" "rerr = None"
      by (auto simp: Let_def split: if_splits option.splits sum.splits)
    have "length head \<le> m \<and>
      (\<exists>idx. Index head CRLFCRLF = Some idx \<and> parseHost (take idx head) = Inr h) \<and>
      (\<exists>k \<le> length reads. head = (buf @ tmp) @ concat (map fst (take k reads)))"
      using False 2(2) rec by (intro 2(1) [OF refl]) (auto simp: Let_def split: if_splits)
    then obtain k where "k \<le> length reads" "head = (buf @ tmp) @ concat (map fst (take k reads))"
      and "length head \<le> m"
        "\<exists>idx. Index head CRLFCRLF = Some idx \<and> parseHost (take idx head) = Inr h"
      by blast
    moreover from this have "head = buf @ concat (map fst (take (Suc k) ((tmp, rerr) # reads)))"
      and "Suc k \<le> length ((tmp, rerr) # reads)" by simp_all
    ultimately show ?thesis by blast
  qed
qed

text \<open>A connection whose reads end (in an error, the deadline's at the latest) is decided.\<close>

lemma readRequestHead_decides:
  "\<exists>r \<in> set reads. snd r \<noteq> None \<Longrightarrow> readRequestHead m buf reads \<noteq> None"
proof (induction m buf reads rule: readRequestHead.induct)
  case (1 m buf)
  then show ?case by simp
next
  case (2 m buf tmp rerr reads)
  then show ?case by (cases rerr) (auto simp: Let_def split: option.splits sum.splits)
qed

text \<open>Bytes are buffered up to the cap: what the loop holds never exceeds it by more than one read.\<close>

lemma readRequestHead_too_large:
  "maxBytes < length (buf @ tmp) \<Longrightarrow> tmp \<noteq> [] \<Longrightarrow>
   readRequestHead maxBytes buf ((tmp, e) # reads) = Some (Inl (HeadTooLarge maxBytes))"
  by (simp add: Let_def)

subsection \<open>Connections without a request (wire.go)\<close>

record wireConn =
  sawBytes :: bool
  wtunnel :: bool

text \<open>\<^verbatim>\<open>wireConn.Read\<close> of \<open>n\<close> bytes.\<close>

definition wire_Read :: "wireConn \<Rightarrow> nat \<Rightarrow> wireConn" where
  "wire_Read c n = (if 0 < n then c\<lparr>sawBytes := True\<rparr> else c)"

datatype net_conn =
    TLSConn bool "wireConn option"  \<comment> \<open>handshake complete; the wire below, if it is a wireConn\<close>
  | TCPConn
  | OtherConn

definition closedWithoutRequest :: "net_conn \<Rightarrow> bool" where
  "closedWithoutRequest conn = (case conn of
      TLSConn complete wc \<Rightarrow>
        if complete then True
        else (case wc of Some w \<Rightarrow> \<not> sawBytes w | None \<Rightarrow> False)
    | TCPConn \<Rightarrow> True
    | OtherConn \<Rightarrow> False)"

lemma sawBytes_foldl: "sawBytes (foldl wire_Read c ns) \<longleftrightarrow> sawBytes c \<or> (\<exists>n \<in> set ns. 0 < n)"
  by (induction ns arbitrary: c) (auto simp: wire_Read_def)

subsection \<open>The contract of a connection cap\<close>

text \<open>
  What the ingress handlers rely on: \<open>holds s n\<close> says that the limiter stands for \<open>n\<close>
  holders. Holders come and go by \<open>slot_run\<close>, which is stuck (\<open>None\<close>) only if giving a
  slot back blocks.
\<close>

datatype slot_event = Take | Give

fun slot_run :: "('s \<Rightarrow> bool \<times> 's) \<Rightarrow> ('s \<Rightarrow> 's option) \<Rightarrow> slot_event list \<Rightarrow> 's \<Rightarrow> nat \<Rightarrow> ('s \<times> nat) option" where
  "slot_run acq rel [] s n = Some (s, n)"
| "slot_run acq rel (Take # es) s n =
     (let (ok, s') = acq s in slot_run acq rel es s' (if ok then Suc n else n))"
| "slot_run acq rel (Give # es) s n =
     (case n of
        0 \<Rightarrow> slot_run acq rel es s n
      | Suc m \<Rightarrow> (case rel s of None \<Rightarrow> None | Some s' \<Rightarrow> slot_run acq rel es s' m))"

locale slot_limiter =
  fixes acq :: "'s \<Rightarrow> bool \<times> 's" and rel :: "'s \<Rightarrow> 's option"
    and holds :: "'s \<Rightarrow> nat \<Rightarrow> bool" and limit :: "'s \<Rightarrow> nat option"
  assumes acq_holds: "holds s n \<Longrightarrow> holds (snd (acq s)) (if fst (acq s) then Suc n else n)"
    and rel_holds: "holds s (Suc n) \<Longrightarrow> \<exists>s'. rel s = Some s' \<and> holds s' n \<and> limit s' = limit s"
    and acq_limit: "limit (snd (acq s)) = limit s"
    and acq_iff: "holds s n \<Longrightarrow> fst (acq s) \<longleftrightarrow> (\<forall>k. limit s = Some k \<longrightarrow> n < k)"
    and bounded: "holds s n \<Longrightarrow> limit s = Some k \<Longrightarrow> n \<le> k"
begin

lemma run_holds:
  assumes "holds s n"
  shows "\<exists>s' n'. slot_run acq rel es s n = Some (s', n') \<and> holds s' n' \<and> limit s' = limit s"
  using assms
proof (induction es arbitrary: s n)
  case Nil
  then show ?case by simp
next
  case (Cons e es)
  show ?case
  proof (cases e)
    case Take
    from Cons.IH [OF acq_holds [OF Cons.prems]] Take show ?thesis
      by (simp add: split_beta Let_def acq_limit)
  next
    case Give
    show ?thesis
    proof (cases n)
      case 0
      with Cons Give show ?thesis by simp
    next
      case (Suc m)
      with Cons.prems rel_holds obtain s1 where s1: "rel s = Some s1" "holds s1 m" "limit s1 = limit s" by blast
      with Cons.IH [OF s1(2)] Suc Give show ?thesis by simp
    qed
  qed
qed

lemma run_bounded:
  assumes "holds s n" and "slot_run acq rel es s n = Some (s', n')"
  shows "(limit s = Some k \<longrightarrow> n' \<le> k) \<and> (fst (acq s') \<longleftrightarrow> (\<forall>k. limit s = Some k \<longrightarrow> n' < k))"
proof -
  from run_holds [OF assms(1), of es] assms(2) have "holds s' n'" "limit s' = limit s" by auto
  with bounded [of s' n' k] acq_iff [of s' n'] show ?thesis by auto
qed

end

definition sem_holds :: "semaphore \<Rightarrow> nat \<Rightarrow> bool" where
  "sem_holds s n \<longleftrightarrow> (case s of None \<Rightarrow> True | Some ch \<Rightarrow> used ch = n \<and> n \<le> cap ch)"

definition sem_limit :: "semaphore \<Rightarrow> nat option" where
  "sem_limit s = map_option cap s"

interpretation conn_cap: slot_limiter tryAcquire release sem_holds sem_limit
  by unfold_locales (auto simp: sem_holds_def sem_limit_def sem_defs split: option.splits)

subsection \<open>Properties\<close>

text \<open>C27. A request whose head is accepted has exactly one Host header, and the routing host is
  that header's value: the edge and a backend cannot disagree on which of several Host lines
  counts. A head is accepted only within the size cap and only from bytes the client sent.\<close>

theorem accepted_head_has_one_host:
  assumes "readRequestHead m [] reads = Some (Inr (head, h))"
  shows "length head \<le> m \<and> prefix head (concat (map fst reads)) \<and>
    (\<exists>idx ln. Index head CRLFCRLF = Some idx \<and>
       filter is_host_line (drop 1 (Split (take idx head) CRLF)) = [ln] \<and> h = host_of_line ln)"
proof -
  from readRequestHead_ok [OF assms] obtain idx k where ok: "length head \<le> m"
    "Index head CRLFCRLF = Some idx" "parseHost (take idx head) = Inr h"
    "head = concat (map fst (take k reads))" by auto
  have "concat (map fst reads) = head @ concat (map fst (drop k reads))"
    unfolding ok(4) by (metis append_take_drop_id concat_append map_append)
  then have "prefix head (concat (map fst reads))" by (simp add: prefix_def)
  with ok show ?thesis by (auto simp: parseHost_def parseHost_loop_Inr)
qed

abbreviation sample_reads :: "(bytes \<times> io_error option) list" where
  "sample_reads \<equiv> [(''G /'' @ CRLF @ ''hOst: A'', None), ('':80'' @ CRLFCRLF @ ''x'', Some EOF)]"

lemma sample_reads_head:
  "readRequestHead 64 [] sample_reads =
     Some (Inr (''G /'' @ CRLF @ ''hOst: A:80'' @ CRLFCRLF @ ''x'', ''a''))"
  by code_simp

theorem accepted_head_has_one_host_witness:
  "\<exists>idx ln. Index (''G /'' @ CRLF @ ''hOst: A:80'' @ CRLFCRLF @ ''x'') CRLFCRLF = Some idx \<and>
     filter is_host_line (drop 1 (Split (take idx (''G /'' @ CRLF @ ''hOst: A:80'' @ CRLFCRLF @ ''x'')) CRLF)) = [ln] \<and>
     ''a'' = host_of_line ln"
  using accepted_head_has_one_host [OF sample_reads_head] by blast

text \<open>Host headers are counted before a request is routed: none and several are each
  their own error, and exactly one is accepted with its normalised value.\<close>

theorem parseHost_decides:
  "(parseHost head = Inl NoHost \<longleftrightarrow> filter is_host_line (drop 1 (Split head CRLF)) = []) \<and>
   (parseHost head = Inl MultipleHost \<longleftrightarrow> 2 \<le> length (filter is_host_line (drop 1 (Split head CRLF)))) \<and>
   (parseHost head = Inr h \<longleftrightarrow>
     (\<exists>ln. filter is_host_line (drop 1 (Split head CRLF)) = [ln] \<and> h = host_of_line ln))"
  by (simp add: parseHost_def parseHost_loop_NoHost parseHost_loop_Multiple parseHost_loop_Inr)

text \<open>A request head is decided: once the connection's reads end in an error (the read
  deadline's at the latest), the reader has returned, and it holds at most one read more than
  the cap allows.\<close>

theorem head_reading_ends:
  assumes "\<exists>r \<in> set reads. snd r \<noteq> None"
  shows "\<exists>res. readRequestHead m [] reads = Some res"
  using readRequestHead_decides [OF assms, of m "[]"] by blast

theorem head_reading_ends_witness:
  "\<exists>res. readRequestHead 64 [] [(''GET'', None), ('''', Some ErrDeadlineExceeded)] = Some res"
  by (rule head_reading_ends) simp

text \<open>A connection cap of \<open>k > 0\<close>: however handlers take and return slots, returning one
  never blocks, at most \<open>k\<close> are held at any time, and a new connection is refused exactly when
  \<open>k\<close> are held; a cap of zero or less is unlimited.\<close>

theorem connection_cap:
  "\<exists>s n. slot_run tryAcquire release es (newSemaphore k) 0 = Some (s, n) \<and>
     (0 < k \<longrightarrow> int n \<le> k) \<and> (fst (tryAcquire s) \<longleftrightarrow> k \<le> 0 \<or> int n < k)"
proof -
  have h: "sem_holds (newSemaphore k) 0" by (simp add: sem_holds_def newSemaphore_def)
  from conn_cap.run_holds [OF h, of es] obtain s n where
    run: "slot_run tryAcquire release es (newSemaphore k) 0 = Some (s, n)" by blast
  have "sem_limit (newSemaphore k) = (if k \<le> 0 then None else Some (nat k))"
    by (simp add: sem_limit_def newSemaphore_def)
  with conn_cap.run_bounded [OF h run, of "nat k"] run show ?thesis
    by (cases "k \<le> 0") auto
qed

theorem connection_cap_witness:
  "\<exists>s n. slot_run tryAcquire release [Take, Take, Take, Give] (newSemaphore 2) 0 = Some (s, n) \<and>
     int n \<le> 2 \<and> (fst (tryAcquire s) \<longleftrightarrow> int n < 2)"
  using connection_cap [of "[Take, Take, Take, Give]" 2] by simp

end
