(* ===== verification/H3_Pool.thy ===== *)
theory H3_Pool
  imports Registry Edge_Ingress_Head
begin

text \<open>
  \<^verbatim>\<open>internal/edge/h3pool.go\<close>: the tunnel streams an HTTP/3 connection keeps between its
  requests. A \<^verbatim>\<open>*tunnelStream\<close> and an \<^verbatim>\<open>*idleStream\<close> are numbers; a tunnel stream's
  immutable fields are the record \<open>tunnelStream\<close>. What a stream holds while open (a slot of its
  route's cap, its share of two stream counts) is released by its \<^verbatim>\<open>close\<close>, counted in
  \<open>released\<close>. Each definition is one critical section under \<^verbatim>\<open>p.mu\<close>; closing what was taken
  out follows after the lock is released, so the ghost sets say who has a stream meanwhile: a
  request (\<open>owned\<close>), a request taking it (\<open>popping\<close>), or someone about to close it
  (\<open>doomed\<close>). The nil pool, which keeps nothing, is the case of \<open>put\<close> that always closes and
  is not a state of its own.
\<close>

subsection \<open>State and operations\<close>

record tunnelStream =
  ts_id :: nat
  ts_agent :: session
  ts_rs :: string
  ts_host :: string

record idleStream =
  is_ts :: tunnelStream
  is_cs :: nat

record connStreams =
  cs_idle :: "string \<rightharpoonup> nat list"
  cs_n :: int
  cs_closed :: bool

record h3_state =
  idles :: "nat \<rightharpoonup> idleStream"
  taken :: "nat set"
  live :: "nat set"
  conns :: "nat \<Rightarrow> connStreams"
  pall :: "nat set"
  pclosed :: bool
  streamsClosed :: "nat set"  \<comment> \<open>the streams whose once has run\<close>
  released :: "nat \<Rightarrow> nat"
  owned :: "nat set"
  popping :: "nat set"
  doomed :: "nat set"
  made :: "nat set"

definition maxKeptPerConn :: int where
  "maxKeptPerConn = 32"

definition newConn :: connStreams where
  "newConn = \<lparr>cs_idle = Map.empty, cs_n = 0, cs_closed = False\<rparr>"

definition newH3Pool :: h3_state where
  "newH3Pool = \<lparr>idles = Map.empty, taken = {}, live = {}, conns = (\<lambda>_. newConn), pall = {}, pclosed = False,
     streamsClosed = {}, released = (\<lambda>_. 0), owned = {}, popping = {}, doomed = {}, made = {}\<rparr>"

text \<open>\<^verbatim>\<open>tunnelStream.close\<close>: \<^verbatim>\<open>once.Do\<close>.\<close>

definition close_stream :: "nat \<Rightarrow> h3_state \<Rightarrow> h3_state" where
  "close_stream t st =
     (if t \<in> streamsClosed st then st
      else st\<lparr>streamsClosed := insert t (streamsClosed st), released := (released st)(t := released st t + 1)\<rparr>)"

definition list_of :: "h3_state \<Rightarrow> nat \<Rightarrow> string \<Rightarrow> nat list" where
  "list_of st c h = (case cs_idle (conns st c) h of None \<Rightarrow> [] | Some l \<Rightarrow> l)"

definition idle_list_put :: "nat list \<Rightarrow> string \<Rightarrow> connStreams \<Rightarrow> connStreams" where
  "idle_list_put l h cs =
     (if l = [] then cs\<lparr>cs_idle := (cs_idle cs)(h := None)\<rparr> else cs\<lparr>cs_idle := (cs_idle cs)(h \<mapsto> l)\<rparr>)"

definition h3_removeLocked :: "nat \<Rightarrow> h3_state \<Rightarrow> h3_state" where
  "h3_removeLocked i st =
     (if i \<in> taken st then st
      else (case idles st i of
          None \<Rightarrow> st
        | Some is \<Rightarrow>
            (let c = is_cs is; h = ts_host (is_ts is);
                 l = remove_first (\<lambda>o'. o' = i) (list_of st c h);
                 cs = idle_list_put l h (conns st c)
             in st\<lparr>taken := insert i (taken st), conns := (conns st)(c := cs\<lparr>cs_n := cs_n cs - 1\<rparr>),
                   pall := pall st - {i}\<rparr>)))"

text \<open>\<^verbatim>\<open>put\<close> by the request that owns the stream: kept as the idle stream \<open>i\<close>, or closed.\<close>

definition put_refuses :: "nat \<Rightarrow> int \<Rightarrow> bool \<Rightarrow> h3_state \<Rightarrow> bool" where
  "put_refuses c slotWaiters retired st \<longleftrightarrow>
     pclosed st \<or> cs_closed (conns st c) \<or> maxKeptPerConn \<le> cs_n (conns st c) \<or> 0 < slotWaiters \<or> retired"

definition h3_put :: "nat \<Rightarrow> nat \<Rightarrow> tunnelStream \<Rightarrow> int \<Rightarrow> bool \<Rightarrow> h3_state \<Rightarrow> h3_state" where
  "h3_put i c ts slotWaiters retired st =
     (if put_refuses c slotWaiters retired st then (close_stream (ts_id ts) st)\<lparr>owned := owned st - {ts_id ts}\<rparr>
      else
        (let cs = conns st c; h = ts_host ts
         in st\<lparr>idles := (idles st)(i \<mapsto> \<lparr>is_ts = ts, is_cs = c\<rparr>),
               conns := (conns st)(c := cs\<lparr>cs_idle := (cs_idle cs)(h \<mapsto> list_of st c h @ [i]), cs_n := cs_n cs + 1\<rparr>),
               pall := insert i (pall st), owned := owned st - {ts_id ts}\<rparr>))"

text \<open>\<^verbatim>\<open>watch\<close> once its read has returned \<open>n\<close> bytes: a stream still in the pool is taken out, to
  be closed; one taken is live when the read was only ended by its deadline.\<close>

definition h3_watch :: "nat \<Rightarrow> nat \<Rightarrow> bool \<Rightarrow> h3_state \<Rightarrow> h3_state" where
  "h3_watch i n timedOut st0 =
     (let tk = (i \<in> taken st0);
          st = (if tk then st0 else (h3_removeLocked i st0)\<lparr>doomed := insert i (doomed st0)\<rparr>)
      in if tk \<and> n = 0 \<and> timedOut then st\<lparr>live := insert i (live st)\<rparr> else st)"

text \<open>One turn of \<^verbatim>\<open>take\<close>'s loop: the most recent stream kept for the host is taken out, and,
  when its watcher has returned, used or closed.\<close>

definition take_pop :: "nat \<Rightarrow> string \<Rightarrow> h3_state \<Rightarrow> nat option \<times> h3_state" where
  "take_pop c h st =
     (if list_of st c h = [] then (None, st)
      else (let i = last (list_of st c h)
            in (Some i, (h3_removeLocked i st)\<lparr>popping := insert i (popping st)\<rparr>)))"

definition take_usable :: "nat \<Rightarrow> string \<Rightarrow> bool \<Rightarrow> bool \<Rightarrow> h3_state \<Rightarrow> bool" where
  "take_usable i rs sessClosed retired st \<longleftrightarrow>
     i \<in> live st \<and> (case idles st i of None \<Rightarrow> False | Some is \<Rightarrow> ts_rs (is_ts is) = rs) \<and> \<not> sessClosed \<and> \<not> retired"

definition sid :: "h3_state \<Rightarrow> nat \<Rightarrow> nat" where
  "sid st i = (case idles st i of None \<Rightarrow> 0 | Some is \<Rightarrow> ts_id (is_ts is))"

definition take_decide :: "nat \<Rightarrow> string \<Rightarrow> bool \<Rightarrow> bool \<Rightarrow> h3_state \<Rightarrow> h3_state" where
  "take_decide i rs sessClosed retired st =
     (if take_usable i rs sessClosed retired st
      then st\<lparr>popping := popping st - {i}, owned := insert (sid st i) (owned st)\<rparr>
      else (close_stream (sid st i) st)\<lparr>popping := popping st - {i}\<rparr>)"

text \<open>\<^verbatim>\<open>removeWhereLocked\<close>, ranging over the pool in the order given.\<close>

definition removeWhereLocked :: "(idleStream \<Rightarrow> bool) \<Rightarrow> nat list \<Rightarrow> h3_state \<Rightarrow> h3_state" where
  "removeWhereLocked match order st =
     (let out = filter (\<lambda>i. case idles st i of None \<Rightarrow> False | Some is \<Rightarrow> match is) order;
          st' = foldl (\<lambda>st i. h3_removeLocked i st) st out
      in st'\<lparr>doomed := doomed st' \<union> set out\<rparr>)"

definition closeConn :: "nat \<Rightarrow> nat list \<Rightarrow> h3_state \<Rightarrow> h3_state" where
  "closeConn c order st =
     removeWhereLocked (\<lambda>is. is_cs is = c) order (st\<lparr>conns := (conns st)(c := (conns st c)\<lparr>cs_closed := True\<rparr>)\<rparr>)"

definition closeAgent :: "session \<Rightarrow> nat list \<Rightarrow> h3_state \<Rightarrow> h3_state" where
  "closeAgent a order st = removeWhereLocked (\<lambda>is. ts_agent (is_ts is) = a) order st"

definition h3_closeAll :: "nat list \<Rightarrow> h3_state \<Rightarrow> h3_state" where
  "h3_closeAll order st = removeWhereLocked (\<lambda>_. True) order (st\<lparr>pclosed := True\<rparr>)"

text \<open>\<^verbatim>\<open>evictRoute\<close>: the first idle stream of the route in the order the pool is ranged over.\<close>

definition evictRoute :: "string \<Rightarrow> nat list \<Rightarrow> h3_state \<Rightarrow> bool \<times> h3_state" where
  "evictRoute rs order st =
     (case List.find (\<lambda>i. case idles st i of None \<Rightarrow> False | Some is \<Rightarrow> ts_rs (is_ts is) = rs) order of
        None \<Rightarrow> (False, st)
      | Some i \<Rightarrow> (True, (h3_removeLocked i st)\<lparr>doomed := insert i (doomed st)\<rparr>))"

text \<open>\<^verbatim>\<open>closeIdle\<close>, one stream of the list at a time.\<close>

definition closeIdle :: "nat \<Rightarrow> h3_state \<Rightarrow> h3_state" where
  "closeIdle i st = (close_stream (sid st i) st)\<lparr>doomed := doomed st - {i}\<rparr>"

subsection \<open>The interleaved system\<close>

abbreviation ranges_pool :: "nat list \<Rightarrow> h3_state \<Rightarrow> bool" where
  "ranges_pool order st \<equiv> distinct order \<and> set order = pall st"

definition h3_start :: "h3_state \<Rightarrow> bool" where
  "h3_start st \<longleftrightarrow> st = newH3Pool"

inductive h3_step :: "h3_state \<Rightarrow> h3_state \<Rightarrow> bool" where
  opened: "t \<notin> made st \<Longrightarrow> h3_step st (st\<lparr>made := insert t (made st), owned := insert t (owned st)\<rparr>)"
| put: "ts_id ts \<in> owned st \<Longrightarrow> i \<notin> dom (idles st) \<Longrightarrow> h3_step st (h3_put i c ts w r st)"
| watch: "i \<in> dom (idles st) \<Longrightarrow> h3_step st (h3_watch i n to st)"
| pop: "h3_step st (snd (take_pop c h st))"
| decide: "i \<in> popping st \<Longrightarrow> h3_step st (take_decide i rs sc r st)"
| finish: "t \<in> owned st \<Longrightarrow> h3_step st ((close_stream t st)\<lparr>owned := owned st - {t}\<rparr>)"
| conn_gone: "ranges_pool order st \<Longrightarrow> h3_step st (closeConn c order st)"
| agent_drains: "ranges_pool order st \<Longrightarrow> h3_step st (closeAgent a order st)"
| edge_drains: "ranges_pool order st \<Longrightarrow> h3_step st (h3_closeAll order st)"
| evict: "ranges_pool order st \<Longrightarrow> h3_step st (snd (evictRoute rs order st))"
| close: "i \<in> doomed st \<Longrightarrow> h3_step st (closeIdle i st)"

definition of_conn :: "h3_state \<Rightarrow> nat \<Rightarrow> nat set" where
  "of_conn st c = {i \<in> pall st. \<exists>is. idles st i = Some is \<and> is_cs is = c}"

definition filed :: "h3_state \<Rightarrow> nat \<Rightarrow> nat \<Rightarrow> string \<Rightarrow> bool" where
  "filed st i c h \<longleftrightarrow> (\<exists>is. idles st i = Some is \<and> is_cs is = c \<and> ts_host (is_ts is) = h)"

text \<open>The pool: every idle stream is filed once, under its connection and host, and the counts
  are exact.\<close>

definition lists_ok :: "h3_state \<Rightarrow> bool" where
  "lists_ok st \<longleftrightarrow> finite (pall st) \<and> pall st \<inter> taken st = {} \<and> pall st \<subseteq> dom (idles st) \<and>
     (\<forall>c h. cs_idle (conns st c) h \<noteq> Some [] \<and> distinct (list_of st c h) \<and>
        set (list_of st c h) = {i \<in> pall st. filed st i c h})"

definition conns_ok :: "h3_state \<Rightarrow> bool" where
  "conns_ok st \<longleftrightarrow> (\<forall>c. cs_n (conns st c) = int (card (of_conn st c)) \<and> int (card (of_conn st c)) \<le> maxKeptPerConn)"

definition closed_ok :: "h3_state \<Rightarrow> bool" where
  "closed_ok st \<longleftrightarrow> (\<forall>c. cs_closed (conns st c) \<longrightarrow> of_conn st c = {}) \<and> (pclosed st \<longrightarrow> pall st = {})"

text \<open>The streams: each one opened is with exactly one holder, or closed and released once.\<close>

definition held :: "h3_state \<Rightarrow> nat set" where
  "held st = pall st \<union> popping st \<union> doomed st"

definition streams_ok_h3 :: "h3_state \<Rightarrow> bool" where
  "streams_ok_h3 st \<longleftrightarrow> held st \<subseteq> dom (idles st) \<and> popping st \<union> doomed st \<subseteq> taken st \<and> popping st \<inter> doomed st = {} \<and>
     taken st \<subseteq> dom (idles st) \<and> dom (idles st) \<subseteq> pall st \<union> taken st \<and>
     inj_on (sid st) (held st) \<and> sid st ` held st \<inter> owned st = {} \<and> sid st ` held st \<inter> streamsClosed st = {} \<and>
     owned st \<inter> streamsClosed st = {} \<and> made st = sid st ` held st \<union> owned st \<union> streamsClosed st \<and>
     (\<forall>t. released st t = (if t \<in> streamsClosed st then 1 else 0))"

definition h3_core :: "h3_state \<Rightarrow> bool" where
  "h3_core st \<longleftrightarrow> lists_ok st \<and> conns_ok st \<and> streams_ok_h3 st"

definition h3_inv :: "h3_state \<Rightarrow> bool" where
  "h3_inv st \<longleftrightarrow> h3_core st \<and> closed_ok st"

subsection \<open>Taking a stream out of the pool\<close>

lemma filed_dom: "filed st i c h \<Longrightarrow> i \<in> dom (idles st)"
  by (auto simp: filed_def)

lemma list_of_put:
  "list_of (st\<lparr>taken := tk, conns := (conns st)(c := (idle_list_put l h (conns st c))\<lparr>cs_n := n\<rparr>), pall := al\<rparr>) c' h' =
     (if c' = c \<and> h' = h then l else list_of st c' h')"
  by (auto simp: list_of_def idle_list_put_def)

lemma removeLocked_frame:
  "idles (h3_removeLocked i st) = idles st" "streamsClosed (h3_removeLocked i st) = streamsClosed st"
  "released (h3_removeLocked i st) = released st" "owned (h3_removeLocked i st) = owned st"
  "popping (h3_removeLocked i st) = popping st" "doomed (h3_removeLocked i st) = doomed st"
  "made (h3_removeLocked i st) = made st" "pclosed (h3_removeLocked i st) = pclosed st"
  "live (h3_removeLocked i st) = live st" "sid (h3_removeLocked i st) = sid st"
  by (auto simp: h3_removeLocked_def Let_def sid_def fun_eq_iff split: option.splits)

lemma filed_remove [simp]: "filed (h3_removeLocked i st) j c h = filed st j c h"
  by (simp add: filed_def removeLocked_frame)

lemma removeLocked_unfold:
  assumes "lists_ok st" and "i \<in> pall st"
  obtains ix where "idles st i = Some ix"
    "h3_removeLocked i st = st\<lparr>taken := insert i (taken st), conns := (conns st)(is_cs ix :=
        (idle_list_put (remove_first (\<lambda>o'. o' = i) (list_of st (is_cs ix) (ts_host (is_ts ix)))) (ts_host (is_ts ix)) (conns st (is_cs ix)))
          \<lparr>cs_n := cs_n (conns st (is_cs ix)) - 1\<rparr>), pall := pall st - {i}\<rparr>"
proof -
  from assms have "i \<in> dom (idles st)" and nt: "i \<notin> taken st" by (auto simp: lists_ok_def)
  then obtain ix where ix: "idles st i = Some ix" by blast
  show ?thesis by (rule that [OF ix]) (simp add: h3_removeLocked_def ix nt Let_def idle_list_put_def)
qed

lemma removeLocked_effect:
  assumes "lists_ok st" and "i \<in> pall st"
  shows "pall (h3_removeLocked i st) = pall st - {i}" "taken (h3_removeLocked i st) = insert i (taken st)"
    "cs_closed (conns (h3_removeLocked i st) c) = cs_closed (conns st c)"
    "cs_n (conns (h3_removeLocked i st) c) = cs_n (conns st c) - (if i \<in> of_conn st c then 1 else 0)"
  by (rule removeLocked_unfold [OF assms]; auto simp: idle_list_put_def of_conn_def assms(2))+

lemma remove_first_set: "distinct xs \<Longrightarrow> set (remove_first (\<lambda>o'. o' = i) xs) = set xs - {i} \<and> distinct (remove_first (\<lambda>o'. o' = i) xs)"
  using remove_first_filter [of id xs i] by auto

lemma lists_ok_remove:
  assumes "lists_ok st" and "i \<in> pall st"
  shows "lists_ok (h3_removeLocked i st)"
proof -
  from removeLocked_unfold [OF assms] obtain ix where ix: "idles st i = Some ix" and
    eq: "h3_removeLocked i st = st\<lparr>taken := insert i (taken st), conns := (conns st)(is_cs ix :=
        (idle_list_put (remove_first (\<lambda>o'. o' = i) (list_of st (is_cs ix) (ts_host (is_ts ix)))) (ts_host (is_ts ix)) (conns st (is_cs ix)))
          \<lparr>cs_n := cs_n (conns st (is_cs ix)) - 1\<rparr>), pall := pall st - {i}\<rparr>" .
  have list: "distinct (list_of (h3_removeLocked i st) c h) \<and>
      set (list_of (h3_removeLocked i st) c h) = set (list_of st c h) - {i}" for c h
  proof (cases "c = is_cs ix \<and> h = ts_host (is_ts ix)")
    case True
    with assms(1) remove_first_set [of "list_of st c h" i] show ?thesis
      unfolding eq list_of_put by (simp add: lists_ok_def)
  next
    case False
    with ix have "\<not> filed st i c h" by (auto simp: filed_def)
    with assms(1) False show ?thesis unfolding eq list_of_put by (auto simp: lists_ok_def)
  qed
  have ne: "cs_idle (conns (h3_removeLocked i st) c) h \<noteq> Some []" for c h
    using assms(1) unfolding eq by (auto simp: lists_ok_def idle_list_put_def)
  show ?thesis using assms list ne
    unfolding lists_ok_def removeLocked_effect [OF assms] removeLocked_frame filed_remove by auto
qed

lemma of_conn_remove:
  assumes "lists_ok st" and "i \<in> pall st"
  shows "of_conn (h3_removeLocked i st) c = of_conn st c - {i}"
  unfolding of_conn_def removeLocked_effect [OF assms] removeLocked_frame by blast

lemma finite_of_conn: "lists_ok st \<Longrightarrow> finite (of_conn st c)"
  by (rule finite_subset [of _ "pall st"]) (auto simp: of_conn_def lists_ok_def)

lemma conns_ok_remove:
  assumes "lists_ok st" and "i \<in> pall st" and "conns_ok st"
  shows "conns_ok (h3_removeLocked i st)"
proof -
  have "cs_n (conns (h3_removeLocked i st) c) = int (card (of_conn (h3_removeLocked i st) c)) \<and>
      int (card (of_conn (h3_removeLocked i st) c)) \<le> maxKeptPerConn" for c
  proof (cases "i \<in> of_conn st c")
    case True
    then have "card (of_conn st c - {i}) + 1 = card (of_conn st c)"
      using finite_of_conn [OF assms(1)] by (metis Suc_eq_plus1 card_Suc_Diff1)
    then have "int (card (of_conn st c - {i})) = int (card (of_conn st c)) - 1" by linarith
    moreover have "cs_n (conns st c) = int (card (of_conn st c))" "int (card (of_conn st c)) \<le> maxKeptPerConn"
      using assms(3) by (auto simp: conns_ok_def)
    ultimately show ?thesis using True
      unfolding of_conn_remove [OF assms(1,2)] removeLocked_effect [OF assms(1,2)] by auto
  next
    case False
    with assms(3) show ?thesis
      unfolding of_conn_remove [OF assms(1,2)] removeLocked_effect [OF assms(1,2)] by (auto simp: conns_ok_def)
  qed
  then show ?thesis unfolding conns_ok_def by blast
qed

subsection \<open>Each operation keeps the invariant\<close>

lemma close_stream_frame [simp]:
  "idles (close_stream t st) = idles st" "taken (close_stream t st) = taken st" "conns (close_stream t st) = conns st"
  "pall (close_stream t st) = pall st" "pclosed (close_stream t st) = pclosed st" "owned (close_stream t st) = owned st"
  "popping (close_stream t st) = popping st" "doomed (close_stream t st) = doomed st" "made (close_stream t st) = made st"
  "live (close_stream t st) = live st" "sid (close_stream t st) = sid st"
  by (auto simp: close_stream_def sid_def fun_eq_iff)

lemma pool_frame_h3:
  assumes "idles st' = idles st" "taken st' = taken st" "conns st' = conns st" "pall st' = pall st" "pclosed st' = pclosed st"
  shows "lists_ok st' = lists_ok st" "conns_ok st' = conns_ok st"
  using assms by (simp_all add: lists_ok_def conns_ok_def list_of_def filed_def of_conn_def)

text \<open>A stream taken out of the pool for someone (\<open>popping\<close> or \<open>doomed\<close>) stays held.\<close>

lemma h3_core_remove:
  assumes "h3_core st" and "i \<in> pall st"
  shows "h3_core ((h3_removeLocked i st)\<lparr>doomed := insert i (doomed st)\<rparr>)"
    "h3_core ((h3_removeLocked i st)\<lparr>popping := insert i (popping st)\<rparr>)"
proof -
  have l: "lists_ok st" and c: "conns_ok st" and s: "streams_ok_h3 st" using assms(1) by (auto simp: h3_core_def)
  have ni: "i \<notin> taken st" "i \<notin> popping st" "i \<notin> doomed st"
    using l s assms(2) by (auto simp: lists_ok_def streams_ok_h3_def)
  note eff = removeLocked_effect(1,2) [OF l assms(2)]
  have sids: "sid ((h3_removeLocked i st)\<lparr>doomed := d\<rparr>) = sid st" "sid ((h3_removeLocked i st)\<lparr>popping := d\<rparr>) = sid st" for d
    by (auto simp: sid_def removeLocked_frame fun_eq_iff)
  have h: "held ((h3_removeLocked i st)\<lparr>doomed := insert i (doomed st)\<rparr>) = held st"
    "held ((h3_removeLocked i st)\<lparr>popping := insert i (popping st)\<rparr>) = held st"
    using assms(2) by (auto simp: held_def eff removeLocked_frame)
  have "streams_ok_h3 ((h3_removeLocked i st)\<lparr>doomed := insert i (doomed st)\<rparr>)"
    using s ni assms(2) l unfolding streams_ok_h3_def h sids by (auto simp: removeLocked_frame eff lists_ok_def)
  moreover have "streams_ok_h3 ((h3_removeLocked i st)\<lparr>popping := insert i (popping st)\<rparr>)"
    using s ni assms(2) l unfolding streams_ok_h3_def h sids by (auto simp: removeLocked_frame eff lists_ok_def)
  ultimately show "h3_core ((h3_removeLocked i st)\<lparr>doomed := insert i (doomed st)\<rparr>)"
    "h3_core ((h3_removeLocked i st)\<lparr>popping := insert i (popping st)\<rparr>)"
    using lists_ok_remove [OF l assms(2)] conns_ok_remove [OF l assms(2) c]
    by (simp_all add: h3_core_def pool_frame_h3 [of "(h3_removeLocked i st)\<lparr>doomed := insert i (doomed st)\<rparr>" "h3_removeLocked i st"]
        pool_frame_h3 [of "(h3_removeLocked i st)\<lparr>popping := insert i (popping st)\<rparr>" "h3_removeLocked i st"])
qed

lemma held_image_Diff: "inj_on f A \<Longrightarrow> i \<in> A \<Longrightarrow> f ` (A - {i}) = f ` A - {f i}"
  by (auto simp: inj_on_def)

text \<open>Closing a stream its holder lets go of.\<close>

lemma h3_core_drop:
  assumes inv: "h3_core st" and i: "i \<in> popping st \<union> doomed st"
  shows "h3_core ((close_stream (sid st i) st)\<lparr>popping := popping st - {i}, doomed := doomed st - {i}\<rparr>)"
proof -
  let ?st = "(close_stream (sid st i) st)\<lparr>popping := popping st - {i}, doomed := doomed st - {i}\<rparr>"
  have s: "streams_ok_h3 st" and l: "lists_ok st" using inv by (auto simp: h3_core_def)
  have "i \<notin> pall st" using i s l by (auto simp: lists_ok_def streams_ok_h3_def)
  then have h: "held ?st = held st - {i}" by (auto simp: held_def)
  have ih: "i \<in> held st" using i by (auto simp: held_def)
  have sids: "sid ?st = sid st" by (auto simp: sid_def fun_eq_iff)
  have img: "sid st ` (held st - {i}) = sid st ` held st - {sid st i}"
    using s ih by (intro held_image_Diff) (auto simp: streams_ok_h3_def)
  have nc: "sid st i \<notin> streamsClosed st" "sid st i \<notin> owned st" using s ih by (auto simp: streams_ok_h3_def)
  have "streams_ok_h3 ?st"
    using s ih nc unfolding streams_ok_h3_def h sids img
    by (auto simp: close_stream_def held_def intro: inj_on_subset)
  then show ?thesis using inv by (simp add: h3_core_def pool_frame_h3 [of ?st st])
qed

lemma h3_core_use:
  assumes inv: "h3_core st" and i: "i \<in> popping st"
  shows "h3_core (st\<lparr>popping := popping st - {i}, owned := insert (sid st i) (owned st)\<rparr>)"
proof -
  let ?st = "st\<lparr>popping := popping st - {i}, owned := insert (sid st i) (owned st)\<rparr>"
  have s: "streams_ok_h3 st" and l: "lists_ok st" using inv by (auto simp: h3_core_def)
  have "i \<notin> pall st" "i \<notin> doomed st" using i s l by (auto simp: lists_ok_def streams_ok_h3_def)
  then have h: "held ?st = held st - {i}" by (auto simp: held_def)
  have ih: "i \<in> held st" using i by (auto simp: held_def)
  have sids: "sid ?st = sid st" by (auto simp: sid_def fun_eq_iff)
  have img: "sid st ` (held st - {i}) = sid st ` held st - {sid st i}"
    using s ih by (intro held_image_Diff) (auto simp: streams_ok_h3_def)
  have nc: "sid st i \<notin> streamsClosed st" "sid st i \<notin> owned st" using s ih by (auto simp: streams_ok_h3_def)
  have "streams_ok_h3 ?st"
    using s ih nc unfolding streams_ok_h3_def h sids img by (auto simp: held_def intro: inj_on_subset)
  then show ?thesis using inv by (simp add: h3_core_def pool_frame_h3 [of ?st st])
qed

lemma h3_core_finish:
  assumes inv: "h3_core st" and t: "t \<in> owned st"
  shows "h3_core ((close_stream t st)\<lparr>owned := owned st - {t}\<rparr>)"
proof -
  let ?st = "(close_stream t st)\<lparr>owned := owned st - {t}\<rparr>"
  have s: "streams_ok_h3 st" using inv by (simp add: h3_core_def)
  have h: "held ?st = held st" by (simp add: held_def)
  have sids: "sid ?st = sid st" by (auto simp: sid_def fun_eq_iff)
  have "t \<notin> streamsClosed st" "t \<notin> sid st ` held st" using s t by (auto simp: streams_ok_h3_def)
  then have "streams_ok_h3 ?st" using s t unfolding streams_ok_h3_def h sids by (auto simp: close_stream_def)
  then show ?thesis using inv by (simp add: h3_core_def pool_frame_h3 [of ?st st])
qed

lemma closed_ok_subset:
  assumes "closed_ok st" and "pall st' \<subseteq> pall st" and "idles st' = idles st" and "pclosed st' = pclosed st"
    and "\<And>c. cs_closed (conns st' c) = cs_closed (conns st c)"
  shows "closed_ok st'"
proof -
  have "of_conn st' c \<subseteq> of_conn st c" for c using assms(2,3) by (auto simp: of_conn_def)
  then show ?thesis using assms unfolding closed_ok_def by (metis subset_empty)
qed

lemma h3_core_put:
  assumes core: "h3_core st" and t: "ts_id ts \<in> owned st" and i: "i \<notin> dom (idles st)"
    and keep: "\<not> put_refuses c w r st"
  shows "h3_core (h3_put i c ts w r st)"
proof -
  let ?st = "h3_put i c ts w r st"
  have l: "lists_ok st" and n: "conns_ok st" and s: "streams_ok_h3 st" using core by (auto simp: h3_core_def)
  have ni: "i \<notin> pall st" "i \<notin> taken st" "i \<notin> held st" using i l s by (auto simp: lists_ok_def streams_ok_h3_def)
  note st' = h3_put_def [of i c ts w r st] keep
  have pall: "pall ?st = insert i (pall st)" "taken ?st = taken st" "popping ?st = popping st" "doomed ?st = doomed st"
    "streamsClosed ?st = streamsClosed st" "released ?st = released st" "made ?st = made st"
    "owned ?st = owned st - {ts_id ts}" "idles ?st = (idles st)(i \<mapsto> \<lparr>is_ts = ts, is_cs = c\<rparr>)"
    by (simp_all add: st' Let_def)
  have lst: "list_of ?st c' h' = (if c' = c \<and> h' = ts_host ts then list_of st c' h' @ [i] else list_of st c' h')" for c' h'
    by (auto simp: st' Let_def list_of_def)
  have fl: "filed ?st j c' h' = (if j = i then c' = c \<and> h' = ts_host ts else filed st j c' h')" for j c' h'
    by (auto simp: filed_def pall)
  have "lists_ok ?st"
    unfolding lists_ok_def lst fl pall using l ni i
    by (auto simp: lists_ok_def st' Let_def dest: filed_dom)
  moreover have "conns_ok ?st"
  proof -
    have oc: "of_conn ?st c' = (if c' = c then insert i (of_conn st c') else of_conn st c')" for c'
      using i ni by (auto simp: of_conn_def pall)
    have cn: "cs_n (conns ?st c') = cs_n (conns st c') + (if c' = c then 1 else 0)" for c'
      by (simp add: st' Let_def)
    have "i \<notin> of_conn st c" using ni by (simp add: of_conn_def)
    then show ?thesis using n keep finite_of_conn [OF l]
      unfolding conns_ok_def oc cn by (auto simp: put_refuses_def)
  qed
  moreover have "streams_ok_h3 ?st"
  proof -
    have h: "held ?st = insert i (held st)" by (auto simp: held_def pall)
    have sd: "sid ?st j = (if j = i then ts_id ts else sid st j)" for j by (simp add: sid_def pall)
    have img: "sid ?st ` held ?st = insert (ts_id ts) (sid st ` held st)"
      unfolding h using ni(3) by (force simp: sd)
    have "ts_id ts \<notin> sid st ` held st" "ts_id ts \<notin> streamsClosed st" using s t by (auto simp: streams_ok_h3_def)
    note fresh = this
    have eq: "sid ?st j = sid st j" if "j \<in> held st" for j using that ni(3) sd by auto
    have "inj_on (sid ?st) (held st)"
      using s inj_on_cong [of "held st" "sid ?st" "sid st"] eq by (simp add: streams_ok_h3_def)
    moreover have "sid ?st ` held st = sid st ` held st" using eq by (simp cong: image_cong)
    ultimately have "inj_on (sid ?st) (held ?st)" unfolding h inj_on_insert using fresh(1) sd [of i] ni(3) by simp
    note new = fresh this
    have old: "held st \<subseteq> dom (idles st)" "popping st \<union> doomed st \<subseteq> taken st" "popping st \<inter> doomed st = {}"
      "taken st \<subseteq> dom (idles st)" "dom (idles st) \<subseteq> pall st \<union> taken st" "sid st ` held st \<inter> owned st = {}"
      "sid st ` held st \<inter> streamsClosed st = {}" "owned st \<inter> streamsClosed st = {}"
      "made st = sid st ` held st \<union> owned st \<union> streamsClosed st"
      "\<forall>t. released st t = (if t \<in> streamsClosed st then 1 else 0)"
      using s by (simp_all add: streams_ok_h3_def)
    show ?thesis
      unfolding streams_ok_h3_def img unfolding pall
    proof (intro conjI)
      show "held ?st \<subseteq> dom ((idles st)(i \<mapsto> \<lparr>is_ts = ts, is_cs = c\<rparr>))" using h old(1) by auto
      show "dom ((idles st)(i \<mapsto> \<lparr>is_ts = ts, is_cs = c\<rparr>)) \<subseteq> insert i (pall st) \<union> taken st" using old(5) by auto
      show "taken st \<subseteq> dom ((idles st)(i \<mapsto> \<lparr>is_ts = ts, is_cs = c\<rparr>))" using old(4) by auto
      show "inj_on (sid ?st) (held ?st)" by (rule new)
      show "made st = insert (ts_id ts) (sid st ` held st) \<union> (owned st - {ts_id ts}) \<union> streamsClosed st"
        using old(9) t by blast
      show "insert (ts_id ts) (sid st ` held st) \<inter> (owned st - {ts_id ts}) = {}" using old(6) by blast
      show "insert (ts_id ts) (sid st ` held st) \<inter> streamsClosed st = {}" using old(7) new(2) by blast
      show "(owned st - {ts_id ts}) \<inter> streamsClosed st = {}" using old(8) by blast
    qed (fact old)+
  qed
  ultimately show ?thesis by (simp add: h3_core_def)
qed

lemma closed_ok_put:
  assumes "closed_ok st" and "\<not> put_refuses c w r st" and "i \<notin> dom (idles st)" and "lists_ok st"
  shows "closed_ok (h3_put i c ts w r st)"
proof -
  have "of_conn (h3_put i c ts w r st) c' \<subseteq> (if c' = c then insert i (of_conn st c') else of_conn st c')" for c'
    using assms(2-4) by (auto simp: of_conn_def h3_put_def Let_def lists_ok_def split: if_splits)
  moreover have "cs_closed (conns (h3_put i c ts w r st) c') = cs_closed (conns st c')" for c'
    using assms(2) by (simp add: h3_put_def Let_def)
  moreover have "pclosed (h3_put i c ts w r st) = pclosed st" using assms(2) by (simp add: h3_put_def Let_def)
  moreover have "\<not> cs_closed (conns st c)" "\<not> pclosed st" using assms(2) by (auto simp: put_refuses_def)
  ultimately show ?thesis using assms(1) unfolding closed_ok_def by (metis subset_empty)
qed

text \<open>Taking out several streams, as one pass over the pool does.\<close>

definition doom :: "h3_state \<Rightarrow> nat \<Rightarrow> h3_state" where
  "doom st i = (h3_removeLocked i st)\<lparr>doomed := insert i (doomed st)\<rparr>"

lemma removeLocked_doomed: "h3_removeLocked i (st\<lparr>doomed := d\<rparr>) = (h3_removeLocked i st)\<lparr>doomed := d\<rparr>"
  by (simp add: h3_removeLocked_def list_of_def Let_def split: option.splits)

lemma foldl_doom:
  "foldl doom st ids = (foldl (\<lambda>st i. h3_removeLocked i st) st ids)\<lparr>doomed := doomed st \<union> set ids\<rparr>"
proof (induction ids arbitrary: st)
  case Nil
  then show ?case by simp
next
  case (Cons i ids)
  have fold: "foldl (\<lambda>st i. h3_removeLocked i st) (st'\<lparr>doomed := d\<rparr>) ids =
      (foldl (\<lambda>st i. h3_removeLocked i st) st' ids)\<lparr>doomed := d\<rparr>" for st' d
    by (induction ids arbitrary: st') (simp_all add: removeLocked_doomed)
  show ?case unfolding foldl_Cons Cons.IH by (simp add: doom_def fold)
qed

lemma foldl_remove_doomed: "doomed (foldl (\<lambda>st i. h3_removeLocked i st) st ids) = doomed st"
  by (induction ids arbitrary: st) (simp_all add: removeLocked_frame)

lemma foldl_doom_core:
  assumes "h3_core st" and "distinct ids" and "set ids \<subseteq> pall st"
  shows "h3_core (foldl doom st ids) \<and> pall (foldl doom st ids) = pall st - set ids \<and>
    idles (foldl doom st ids) = idles st \<and> pclosed (foldl doom st ids) = pclosed st \<and>
    (\<forall>c. cs_closed (conns (foldl doom st ids) c) = cs_closed (conns st c))"
  using assms
proof (induction ids arbitrary: st)
  case Nil
  then show ?case by simp
next
  case (Cons i ids)
  then have i: "i \<in> pall st" and l: "lists_ok st" by (auto simp: h3_core_def)
  have core: "h3_core (doom st i)" unfolding doom_def by (rule h3_core_remove(1) [OF Cons.prems(1) i])
  have eff: "pall (doom st i) = pall st - {i}" "idles (doom st i) = idles st" "pclosed (doom st i) = pclosed st"
    "\<And>c. cs_closed (conns (doom st i) c) = cs_closed (conns st c)"
    by (simp_all add: doom_def removeLocked_frame removeLocked_effect [OF l i])
  from Cons.IH [OF core] Cons.prems eff show ?case by auto
qed

lemma h3_inv_removeWhere:
  assumes core: "h3_core st" and o: "ranges_pool order st"
    and cl: "\<And>c. cs_closed (conns st c) \<Longrightarrow> \<forall>i \<in> of_conn st c. \<exists>is. idles st i = Some is \<and> m is"
    and pc: "pclosed st \<Longrightarrow> \<forall>i \<in> pall st. \<exists>is. idles st i = Some is \<and> m is"
  shows "h3_inv (removeWhereLocked m order st)"
proof -
  define ids where "ids = filter (\<lambda>i. case idles st i of None \<Rightarrow> False | Some is \<Rightarrow> m is) order"
  have eq: "removeWhereLocked m order st = foldl doom st ids"
    unfolding removeWhereLocked_def Let_def foldl_doom ids_def [symmetric] by (simp add: foldl_remove_doomed)
  have "distinct ids" "set ids \<subseteq> pall st" using o by (auto simp: ids_def)
  note eff = foldl_doom_core [OF core this]
  have gone: "i \<in> set ids" if "i \<in> pall st" "\<exists>is. idles st i = Some is \<and> m is" for i
    using that o by (auto simp: ids_def)
  have "of_conn (foldl doom st ids) c = of_conn st c - set ids" for c using eff by (auto simp: of_conn_def)
  moreover have "of_conn st c \<subseteq> pall st" for c by (auto simp: of_conn_def)
  ultimately have "closed_ok (foldl doom st ids)"
    unfolding closed_ok_def using eff cl pc gone by (auto; blast)
  with eff show ?thesis by (simp add: h3_inv_def eq)
qed

lemma close_stream_upd:
  "(close_stream t st)\<lparr>popping := p, doomed := doomed st\<rparr> = (close_stream t st)\<lparr>popping := p\<rparr>"
  "(close_stream t st)\<lparr>popping := popping st, doomed := d\<rparr> = (close_stream t st)\<lparr>doomed := d\<rparr>"
  by (simp_all add: close_stream_def)

lemma h3_inv_step:
  assumes inv: "h3_inv st" and step: "h3_step st st'"
  shows "h3_inv st'"
proof -
  have core: "h3_core st" and cl: "closed_ok st" and l: "lists_ok st" using inv by (auto simp: h3_inv_def h3_core_def)
  have rem: "h3_inv ((h3_removeLocked i st)\<lparr>doomed := insert i (doomed st)\<rparr>)"
    "h3_inv ((h3_removeLocked i st)\<lparr>popping := insert i (popping st)\<rparr>)" if "i \<in> pall st" for i
    using h3_core_remove [OF core that]
    by (auto simp: h3_inv_def removeLocked_frame removeLocked_effect [OF l that] intro: closed_ok_subset [OF cl])
  have in_pall: "i \<in> pall st" if "i \<in> dom (idles st)" "i \<notin> taken st" for i
    using core that by (auto simp: h3_core_def streams_ok_h3_def)
  have same: "h3_inv s" if "h3_core s" "pall s = pall st" "idles s = idles st" "pclosed s = pclosed st" "conns s = conns st" for s
    using that by (auto simp: h3_inv_def intro: closed_ok_subset [OF cl])
  from step show ?thesis
  proof cases
    case (opened t)
    have "held st' = held st" "sid st' = sid st" by (auto simp: opened held_def sid_def fun_eq_iff)
    then have "streams_ok_h3 st'" using core opened unfolding h3_core_def streams_ok_h3_def by auto
    moreover have "lists_ok st' = lists_ok st" "conns_ok st' = conns_ok st"
      by (rule pool_frame_h3; simp add: opened)+
    ultimately have "h3_core st'" using core by (simp add: h3_core_def)
    then show ?thesis by (rule same) (simp_all add: opened)
  next
    case (put ts i c w r)
    show ?thesis
    proof (cases "put_refuses c w r st")
      case True
      then have eq: "st' = (close_stream (ts_id ts) st)\<lparr>owned := owned st - {ts_id ts}\<rparr>" by (simp add: put h3_put_def)
      show ?thesis unfolding eq by (rule same [OF h3_core_finish [OF core put(2)]]) simp_all
    next
      case False
      with put h3_core_put [OF core] closed_ok_put [OF cl] l show ?thesis by (simp add: h3_inv_def)
    qed
  next
    case (watch i n to)
    have live: "h3_inv (s\<lparr>live := x\<rparr>) = h3_inv s" for s x
      by (simp add: h3_inv_def h3_core_def lists_ok_def conns_ok_def streams_ok_h3_def closed_ok_def held_def
          of_conn_def filed_def list_of_def sid_def [abs_def])
    show ?thesis using inv rem(1) in_pall watch by (auto simp: h3_watch_def Let_def live)
  next
    case (pop c h)
    show ?thesis
    proof (cases "list_of st c h = []")
      case False
      then have "last (list_of st c h) \<in> pall st" using l last_in_set [OF False] by (auto simp: lists_ok_def)
      with False pop rem(2) show ?thesis by (simp add: take_pop_def Let_def)
    qed (use inv pop in \<open>simp add: take_pop_def\<close>)
  next
    case (decide i rs sc r)
    have d: "i \<notin> doomed st" using core decide by (auto simp: h3_core_def streams_ok_h3_def)
    have "h3_core ((close_stream (sid st i) st)\<lparr>popping := popping st - {i}\<rparr>)"
      using h3_core_drop [OF core, of i] decide d by (simp add: close_stream_upd)
    with same h3_core_use [OF core decide(2)] decide show ?thesis by (simp add: take_decide_def)
  next
    case (finish t)
    show ?thesis unfolding finish by (rule same [OF h3_core_finish [OF core finish(2)]]) simp_all
  next
    case (close i)
    have "i \<notin> popping st" using core close by (auto simp: h3_core_def streams_ok_h3_def)
    then have "h3_core (closeIdle i st)" using h3_core_drop [OF core, of i] close by (simp add: closeIdle_def close_stream_upd)
    then show ?thesis unfolding close by (rule same) (simp_all add: closeIdle_def)
  next
    case (evict order rs)
    show ?thesis
    proof (cases "List.find (\<lambda>i. case idles st i of None \<Rightarrow> False | Some is \<Rightarrow> ts_rs (is_ts is) = rs) order")
      case (Some i)
      then have "i \<in> pall st" using find_Some_props [OF Some] evict by auto
      with Some evict rem(1) show ?thesis by (simp add: evictRoute_def)
    qed (use inv evict in \<open>simp add: evictRoute_def\<close>)
  next
    case (agent_drains order a)
    have "\<And>c. cs_closed (conns st c) \<Longrightarrow> of_conn st c = {}" "pclosed st \<Longrightarrow> pall st = {}" using cl by (auto simp: closed_ok_def)
    then show ?thesis unfolding agent_drains closeAgent_def by (intro h3_inv_removeWhere [OF core agent_drains(2)]) auto
  next
    case (conn_gone order c)
    let ?s = "st\<lparr>conns := (conns st)(c := (conns st c)\<lparr>cs_closed := True\<rparr>)\<rparr>"
    have idl: "list_of ?s = list_of st" by (auto simp: list_of_def fun_eq_iff)
    have "h3_core ?s" using core unfolding h3_core_def lists_ok_def conns_ok_def streams_ok_h3_def held_def idl
      by (simp add: filed_def of_conn_def sid_def [abs_def])
    moreover have "of_conn ?s = of_conn st" by (auto simp: of_conn_def fun_eq_iff)
    ultimately show ?thesis using cl conn_gone unfolding conn_gone closeConn_def
      by (intro h3_inv_removeWhere) (auto simp: closed_ok_def of_conn_def split: if_splits)
  next
    case (edge_drains order)
    have "h3_core (st\<lparr>pclosed := True\<rparr>)" using core
      unfolding h3_core_def lists_ok_def conns_ok_def streams_ok_h3_def held_def list_of_def filed_def of_conn_def
      by (simp add: sid_def [abs_def])
    moreover have "pall st \<subseteq> dom (idles st)" using l by (simp add: lists_ok_def)
    ultimately show ?thesis using edge_drains unfolding edge_drains h3_closeAll_def
      by (intro h3_inv_removeWhere) (auto simp: of_conn_def)
  qed
qed

lemma h3_inv_start: "h3_start st \<Longrightarrow> h3_inv st"
  by (simp add: h3_start_def newH3Pool_def newConn_def h3_inv_def h3_core_def lists_ok_def conns_ok_def streams_ok_h3_def
      closed_ok_def held_def of_conn_def list_of_def maxKeptPerConn_def)

interpretation h3_pool: inductive_invariant h3_start h3_step h3_inv
  by unfold_locales (auto intro: h3_inv_start h3_inv_step)

lemma pclosed_removeWhere: "pclosed (removeWhereLocked m order st) = pclosed st"
proof -
  have "pclosed (foldl (\<lambda>st i. h3_removeLocked i st) st ids) = pclosed st" for ids st
    by (induction ids arbitrary: st) (simp_all add: removeLocked_frame)
  then show ?thesis by (simp add: removeWhereLocked_def Let_def)
qed

lemma pclosed_stable: "h3_step st st' \<Longrightarrow> pclosed st \<Longrightarrow> pclosed st'"
  by (induction rule: h3_step.induct)
    (auto simp: h3_put_def h3_watch_def take_pop_def take_decide_def closeConn_def closeAgent_def h3_closeAll_def
      evictRoute_def closeIdle_def pclosed_removeWhere removeLocked_frame Let_def split: option.splits)

subsection \<open>Properties\<close>

abbreviation sample_stream :: tunnelStream where
  "sample_stream \<equiv> \<lparr>ts_id = 7, ts_agent = 1, ts_rs = ''r'', ts_host = ''h''\<rparr>"

definition sample_opened :: h3_state where
  "sample_opened = newH3Pool\<lparr>made := {7}, owned := {7}\<rparr>"

definition sample_kept :: h3_state where
  "sample_kept = h3_put 3 5 sample_stream 0 False sample_opened"

lemma reach_sample_kept: "reach h3_start h3_step sample_kept"
proof -
  have "reach h3_start h3_step newH3Pool" by (rule reach_init) (simp add: h3_start_def)
  moreover have "h3_step newH3Pool (newH3Pool\<lparr>made := insert 7 (made newH3Pool), owned := insert 7 (owned newH3Pool)\<rparr>)"
    by (rule opened) (simp add: newH3Pool_def)
  then have "h3_step newH3Pool sample_opened" by (simp add: sample_opened_def newH3Pool_def)
  ultimately have "reach h3_start h3_step sample_opened" by (rule reach_step)
  moreover have "h3_step sample_opened sample_kept"
    unfolding sample_kept_def by (rule put) (simp_all add: sample_opened_def newH3Pool_def)
  ultimately show ?thesis by (rule reach_step)
qed

lemma sample_kept_list: "list_of sample_kept 5 ''h'' = [3]" "idles sample_kept 3 = Some \<lparr>is_ts = sample_stream, is_cs = 5\<rparr>"
  by (simp_all add: sample_kept_def sample_opened_def h3_put_def put_refuses_def newH3Pool_def newConn_def list_of_def
      maxKeptPerConn_def)

text \<open>C29. No stream leaks and none is released twice: in every interleaving each tunnel stream
  ever opened is with exactly one holder (a request, the pool, a request taking it, or someone
  closing it) and has released nothing, or it is closed and has released its slot and its counts
  exactly once.\<close>

theorem h3_streams_accounted:
  assumes "reach h3_start h3_step st"
  shows "made st = owned st \<union> sid st ` held st \<union> streamsClosed st \<and> owned st \<inter> sid st ` held st = {} \<and>
    inj_on (sid st) (held st) \<and>
    (\<forall>t. released st t = (if t \<in> streamsClosed st then 1 else 0)) \<and>
    (owned st \<union> sid st ` held st) \<inter> streamsClosed st = {}"
  using h3_pool.reach_inv [OF assms] unfolding h3_inv_def h3_core_def streams_ok_h3_def by blast

theorem h3_streams_accounted_witness:
  "made sample_kept = owned sample_kept \<union> sid sample_kept ` held sample_kept \<union> streamsClosed sample_kept \<and>
   released sample_kept 7 = (if 7 \<in> streamsClosed sample_kept then 1 else 0)"
  using h3_streams_accounted [OF reach_sample_kept] by blast

text \<open>A connection keeps at most 32 streams, its count is exact, every kept stream is filed
  once, under its own connection and host, and a connection that has ended keeps none.\<close>

theorem h3_pool_bounded:
  assumes "reach h3_start h3_step st"
  shows "cs_n (conns st c) = int (card (of_conn st c)) \<and> cs_n (conns st c) \<le> 32 \<and>
    (cs_closed (conns st c) \<longrightarrow> of_conn st c = {}) \<and>
    distinct (list_of st c h) \<and> set (list_of st c h) = {i \<in> pall st. filed st i c h}"
proof -
  from h3_pool.reach_inv [OF assms] have "conns_ok st" "lists_ok st" "closed_ok st" by (auto simp: h3_inv_def h3_core_def)
  then show ?thesis by (simp add: conns_ok_def lists_ok_def closed_ok_def maxKeptPerConn_def)
qed

theorem h3_pool_bounded_witness:
  "cs_n (conns sample_kept 5) = int (card (of_conn sample_kept 5)) \<and> cs_n (conns sample_kept 5) \<le> 32"
  using h3_pool_bounded [OF reach_sample_kept, of 5 "''h''"] by blast



text \<open>Once the edge drains its HTTP/3 streams, none is kept in any later state.\<close>

theorem h3_drained_forever:
  assumes "reach h3_start h3_step st" and "pclosed st" and "h3_step\<^sup>*\<^sup>* st st'"
  shows "pall st' = {} \<and> list_of st' c h = []"
proof -
  have "pclosed st'" using assms(3,2) by (induction rule: rtranclp_induct) (auto intro: pclosed_stable)
  moreover have inv: "h3_inv st'" by (rule h3_pool.steps_inv [OF assms(3) h3_pool.reach_inv [OF assms(1)]])
  ultimately have p: "pall st' = {}" by (simp add: h3_inv_def closed_ok_def)
  have "set (list_of st' c h) = {i \<in> pall st'. filed st' i c h}"
    using inv by (simp add: h3_inv_def h3_core_def lists_ok_def)
  with p show ?thesis by simp
qed

theorem h3_drained_forever_witness:
  "pall (h3_closeAll [3] sample_kept) = {}"
proof -
  have "pall sample_kept = {3}"
    by (simp add: sample_kept_def sample_opened_def h3_put_def put_refuses_def newH3Pool_def newConn_def maxKeptPerConn_def Let_def)
  then have "h3_step sample_kept (h3_closeAll [3] sample_kept)" by (intro edge_drains) simp
  with reach_sample_kept have "reach h3_start h3_step (h3_closeAll [3] sample_kept)" by (rule reach_step)
  moreover have "pclosed (h3_closeAll [3] sample_kept)" by (simp add: h3_closeAll_def pclosed_removeWhere)
  ultimately show ?thesis using h3_drained_forever [OF _ _ rtranclp.rtrancl_refl] by blast
qed

end
