(* ===== verification/Agent_Conn.thy ===== *)
theory Agent_Conn
  imports Registry Tunnel
begin

text \<open>
  The mutable half of an \<^verbatim>\<open>agentConn\<close> (registry.go) and the operations of edge.go that
  open streams on it, retire it and wait for its opens: \<open>openUnlessRetired\<close>, \<open>retire\<close> and
  \<open>retireForDrain\<close>. Each definition is one critical section under \<^verbatim>\<open>c.mu\<close>; the
  relation \<open>conn_step\<close> interleaves those of all goroutines. Its ghost fields record which
  opens are in flight and may still reach the agent (\<open>liveOpens\<close>) and which were given up on
  (\<open>abandonedOpens\<close>).
\<close>

subsection \<open>Critical sections\<close>

record conn_state =
  retired :: bool
  opens_n :: int
  stuck :: int
  idle :: bool  \<comment> \<open>c.idle is not nil\<close>
  coolUntil :: instant

definition new_conn :: conn_state where
  "new_conn = \<lparr>retired = False, opens_n = 0, stuck = 0, idle = False, coolUntil = 0\<rparr>"

definition isRetired :: "conn_state \<Rightarrow> bool" where
  "isRetired c = retired c"

definition liveOpensLocked :: "conn_state \<Rightarrow> int" where
  "liveOpensLocked c = opens_n c - stuck c"

text \<open>Closing the channel and forgetting it.\<close>

definition wakeIfIdleLocked :: "conn_state \<Rightarrow> conn_state" where
  "wakeIfIdleLocked c = (if liveOpensLocked c \<le> 0 \<and> idle c then c\<lparr>idle := False\<rparr> else c)"

text \<open>The compare-and-swap loop never shortens a cooldown.\<close>

definition coolDownFor :: "duration \<Rightarrow> instant \<Rightarrow> conn_state \<Rightarrow> conn_state" where
  "coolDownFor d now c =
     (let til = now + d in if til \<le> coolUntil c then c else c\<lparr>coolUntil := til\<rparr>)"

definition acceptWait :: duration where
  "acceptWait = 15 * second"

definition cooldown :: duration where
  "cooldown = second"

datatype open_error = ErrRetired | ErrOpenTimeout | ErrOpenBlocked | ErrRemoteGoAway | ErrOpenOther io_error

text \<open>\<^verbatim>\<open>openUnlessRetired\<close>, entering: refused, or counted as opening.\<close>

definition open_enter :: "conn_state \<Rightarrow> open_error option \<times> conn_state" where
  "open_enter c =
     (if retired c then (Some ErrRetired, c)
      else if 0 < stuck c then (Some ErrOpenBlocked, c)
      else (None, c\<lparr>opens_n := opens_n c + 1\<rparr>))"

text \<open>The open's goroutine, when \<^verbatim>\<open>OpenStream\<close> returns.\<close>

definition open_finish :: "bool \<Rightarrow> conn_state \<Rightarrow> conn_state" where
  "open_finish abandoned c0 =
     (let c = c0\<lparr>opens_n := opens_n c0 - 1\<rparr>;
          c = (if abandoned then c\<lparr>stuck := stuck c - 1\<rparr> else c)
      in wakeIfIdleLocked c)"

text \<open>The timer, when the open has not finished: given up on, and the session cooled down.\<close>

definition open_giveup :: "instant \<Rightarrow> conn_state \<Rightarrow> conn_state" where
  "open_giveup now c =
     coolDownFor (2 * acceptWait) now (wakeIfIdleLocked (c\<lparr>stuck := stuck c + 1\<rparr>))"

text \<open>\<^verbatim>\<open>retire\<close>'s critical section: whether it had been retired already.\<close>

definition retire_mark :: "conn_state \<Rightarrow> bool \<times> conn_state" where
  "retire_mark c = (retired c, c\<lparr>retired := True\<rparr>)"

text \<open>\<^verbatim>\<open>retireForDrain\<close> after \<^verbatim>\<open>retire\<close>: nothing to wait for, or the channel to wait on.\<close>

definition drain_check :: "conn_state \<Rightarrow> bool \<times> conn_state" where
  "drain_check c = (if liveOpensLocked c = 0 then (True, c) else (False, c\<lparr>idle := True\<rparr>))"

lemmas conn_ops = liveOpensLocked_def wakeIfIdleLocked_def coolDownFor_def open_enter_def
  open_finish_def open_giveup_def retire_mark_def drain_check_def Let_def

subsection \<open>The interleaved system\<close>

datatype drain_phase = NotDraining | Marked | Waiting | Acked | AckedEarly

record conn_sys =
  conn :: conn_state
  liveOpens :: "nat set"
  abandonedOpens :: "nat set"
  phase :: drain_phase

definition conn_start :: "conn_sys \<Rightarrow> bool" where
  "conn_start st \<longleftrightarrow> st = \<lparr>conn = new_conn, liveOpens = {}, abandonedOpens = {}, phase = NotDraining\<rparr>"

inductive conn_step :: "conn_sys \<Rightarrow> conn_sys \<Rightarrow> bool" where
  enter: "open_enter (conn st) = (None, c) \<Longrightarrow> i \<notin> liveOpens st \<union> abandonedOpens st \<Longrightarrow>
     conn_step st (st\<lparr>conn := c, liveOpens := insert i (liveOpens st)\<rparr>)"
| finish: "i \<in> liveOpens st \<Longrightarrow>
     conn_step st (st\<lparr>conn := open_finish False (conn st), liveOpens := liveOpens st - {i}\<rparr>)"
| finish_abandoned: "i \<in> abandonedOpens st \<Longrightarrow>
     conn_step st (st\<lparr>conn := open_finish True (conn st), abandonedOpens := abandonedOpens st - {i}\<rparr>)"
| giveup: "i \<in> liveOpens st \<Longrightarrow>
     conn_step st (st\<lparr>conn := open_giveup now (conn st), liveOpens := liveOpens st - {i},
       abandonedOpens := insert i (abandonedOpens st)\<rparr>)"
| retire: "conn_step st (st\<lparr>conn := snd (retire_mark (conn st))\<rparr>)"
| cool: "conn_step st (st\<lparr>conn := coolDownFor d now (conn st)\<rparr>)"
| uncool: "conn_step st (st\<lparr>conn := (conn st)\<lparr>coolUntil := 0\<rparr>\<rparr>)"
| drain_begin: "phase st \<in> {NotDraining, Acked, AckedEarly} \<Longrightarrow>
     conn_step st (st\<lparr>conn := snd (retire_mark (conn st)), phase := Marked\<rparr>)"
| drain_none: "phase st = Marked \<Longrightarrow> drain_check (conn st) = (True, c) \<Longrightarrow>
     conn_step st (st\<lparr>conn := c, phase := Acked\<rparr>)"
| drain_wait: "phase st = Marked \<Longrightarrow> drain_check (conn st) = (False, c) \<Longrightarrow>
     conn_step st (st\<lparr>conn := c, phase := Waiting\<rparr>)"
| drain_woken: "phase st = Waiting \<Longrightarrow> \<not> idle (conn st) \<Longrightarrow> conn_step st (st\<lparr>phase := Acked\<rparr>)"
| drain_timeout: "phase st = Waiting \<Longrightarrow> conn_step st (st\<lparr>phase := AckedEarly\<rparr>)"

definition conn_inv :: "conn_sys \<Rightarrow> bool" where
  "conn_inv st \<longleftrightarrow> finite (liveOpens st) \<and> finite (abandonedOpens st) \<and>
     liveOpens st \<inter> abandonedOpens st = {} \<and>
     opens_n (conn st) = int (card (liveOpens st)) + int (card (abandonedOpens st)) \<and>
     stuck (conn st) = int (card (abandonedOpens st)) \<and>
     (idle (conn st) \<longrightarrow> liveOpens st \<noteq> {}) \<and>
     (phase st \<noteq> NotDraining \<longrightarrow> retired (conn st)) \<and>
     (phase st = Acked \<longrightarrow> liveOpens st = {}) \<and>
     (phase st = Waiting \<and> \<not> idle (conn st) \<longrightarrow> liveOpens st = {})"

lemma conn_inv_start: "conn_start st \<Longrightarrow> conn_inv st"
  by (simp add: conn_start_def conn_inv_def new_conn_def)

lemma live_opens_card: "conn_inv st \<Longrightarrow> liveOpensLocked (conn st) = int (card (liveOpens st))"
  by (simp add: conn_inv_def liveOpensLocked_def)

lemma conn_fields [simp]:
  "retired (wakeIfIdleLocked c) = retired c" "opens_n (wakeIfIdleLocked c) = opens_n c"
  "stuck (wakeIfIdleLocked c) = stuck c" "coolUntil (wakeIfIdleLocked c) = coolUntil c"
  "retired (coolDownFor d now c) = retired c" "opens_n (coolDownFor d now c) = opens_n c"
  "stuck (coolDownFor d now c) = stuck c" "idle (coolDownFor d now c) = idle c"
  by (simp_all add: conn_ops)

lemma idle_wake: "idle (wakeIfIdleLocked c) \<longleftrightarrow> idle c \<and> 0 < liveOpensLocked c"
  by (auto simp: conn_ops)

lemma card_remove1: "finite A \<Longrightarrow> i \<in> A \<Longrightarrow> int (card (A - {i})) = int (card A) - 1"
  using card_Suc_Diff1 [of A i] by linarith

lemma conn_inv_finish:
  assumes inv: "conn_inv st" and i: "i \<in> liveOpens st"
  shows "conn_inv (st\<lparr>conn := open_finish False (conn st), liveOpens := liveOpens st - {i}\<rparr>)"
proof -
  let ?L = "liveOpens st - {i}"
  from inv have fin: "finite (liveOpens st)" by (simp add: conn_inv_def)
  have card: "int (card ?L) = int (card (liveOpens st)) - 1" by (rule card_remove1 [OF fin i])
  have "liveOpensLocked ((conn st)\<lparr>opens_n := opens_n (conn st) - 1\<rparr>) = int (card ?L)"
    using inv card by (simp add: conn_inv_def liveOpensLocked_def)
  then have "idle (open_finish False (conn st)) \<longleftrightarrow> idle (conn st) \<and> ?L \<noteq> {}"
    using fin by (simp add: open_finish_def Let_def idle_wake card_gt_0_iff)
  then show ?thesis using inv card i fin
    by (auto simp: conn_inv_def open_finish_def Let_def)
qed

lemma conn_inv_finish_abandoned:
  assumes inv: "conn_inv st" and i: "i \<in> abandonedOpens st"
  shows "conn_inv (st\<lparr>conn := open_finish True (conn st), abandonedOpens := abandonedOpens st - {i}\<rparr>)"
proof -
  let ?A = "abandonedOpens st - {i}"
  from inv have fin: "finite (abandonedOpens st)" by (simp add: conn_inv_def)
  have card: "int (card ?A) = int (card (abandonedOpens st)) - 1" by (rule card_remove1 [OF fin i])
  have "liveOpensLocked ((conn st)\<lparr>opens_n := opens_n (conn st) - 1, stuck := stuck (conn st) - 1\<rparr>) =
      int (card (liveOpens st))"
    using inv by (simp add: conn_inv_def liveOpensLocked_def)
  moreover have "finite (liveOpens st)" using inv by (simp add: conn_inv_def)
  ultimately have "idle (open_finish True (conn st)) \<longleftrightarrow> idle (conn st) \<and> liveOpens st \<noteq> {}"
    by (simp add: open_finish_def Let_def idle_wake card_gt_0_iff)
  then show ?thesis using inv card fin
    by (auto simp: conn_inv_def open_finish_def Let_def)
qed

lemma conn_inv_giveup:
  assumes inv: "conn_inv st" and i: "i \<in> liveOpens st"
  shows "conn_inv (st\<lparr>conn := open_giveup now (conn st), liveOpens := liveOpens st - {i},
    abandonedOpens := insert i (abandonedOpens st)\<rparr>)"
proof -
  let ?L = "liveOpens st - {i}"
  from inv have fin: "finite (liveOpens st)" by (simp add: conn_inv_def)
  have card: "int (card ?L) = int (card (liveOpens st)) - 1" by (rule card_remove1 [OF fin i])
  have "liveOpensLocked ((conn st)\<lparr>stuck := stuck (conn st) + 1\<rparr>) = int (card ?L)"
    using inv card by (simp add: conn_inv_def liveOpensLocked_def)
  then have idle: "idle (open_giveup now (conn st)) \<longleftrightarrow> idle (conn st) \<and> ?L \<noteq> {}"
    using fin by (simp add: open_giveup_def idle_wake card_gt_0_iff)
  have "i \<notin> abandonedOpens st" using inv i by (auto simp: conn_inv_def)
  then show ?thesis using inv card i fin idle
    by (auto simp: conn_inv_def open_giveup_def)
qed

lemma conn_inv_step:
  assumes "conn_inv st" and "conn_step st st'"
  shows "conn_inv st'"
  using assms(2)
proof cases
  case (enter c i)
  then show ?thesis using assms(1)
    by (auto simp: conn_inv_def open_enter_def split: if_splits)
next
  case (finish i)
  then show ?thesis using conn_inv_finish [OF assms(1)] by simp
next
  case (finish_abandoned i)
  then show ?thesis using conn_inv_finish_abandoned [OF assms(1)] by simp
next
  case (giveup i now)
  then show ?thesis using conn_inv_giveup [OF assms(1)] by simp
next
  case (drain_none c)
  then show ?thesis using assms(1) live_opens_card [OF assms(1)]
    by (auto simp: conn_inv_def drain_check_def split: if_splits)
next
  case (drain_wait c)
  then show ?thesis using assms(1) live_opens_card [OF assms(1)]
    by (auto simp: conn_inv_def drain_check_def split: if_splits)
qed (use assms(1) in \<open>auto simp: conn_inv_def retire_mark_def\<close>)

interpretation agent_conn: inductive_invariant conn_start conn_step conn_inv
  by unfold_locales (auto intro: conn_inv_start conn_inv_step)

text \<open>A retired session stays retired, so no live open starts on it again.\<close>

lemma retired_stable: "conn_step st st' \<Longrightarrow> retired (conn st) \<Longrightarrow> retired (conn st')"
  by (induction rule: conn_step.induct)
    (auto simp: open_enter_def open_finish_def open_giveup_def retire_mark_def drain_check_def Let_def split: if_splits)

lemma no_open_after_retire:
  "conn_step st st' \<Longrightarrow> retired (conn st) \<Longrightarrow> liveOpens st' \<subseteq> liveOpens st"
  by (induction rule: conn_step.induct) (auto simp: open_enter_def)

lemma drained_forever:
  assumes "conn_step\<^sup>*\<^sup>* st st'" and "retired (conn st)" and "liveOpens st = {}"
  shows "retired (conn st') \<and> liveOpens st' = {}"
  using assms
  by (induction rule: rtranclp_induct) (use retired_stable no_open_after_retire in blast)+

subsection \<open>Properties\<close>

text \<open>A history used by the witnesses: a drain arrives with nothing in flight.\<close>

abbreviation sample_conn_sys :: conn_sys where
  "sample_conn_sys \<equiv> \<lparr>conn = new_conn, liveOpens = {}, abandonedOpens = {}, phase = NotDraining\<rparr>"

abbreviation sample_marked :: conn_sys where
  "sample_marked \<equiv> sample_conn_sys\<lparr>conn := snd (retire_mark new_conn), phase := Marked\<rparr>"

lemma reach_sample_marked: "reach conn_start conn_step sample_marked"
proof -
  have "reach conn_start conn_step sample_conn_sys" by (rule reach_init) (simp add: conn_start_def)
  moreover have "conn_step sample_conn_sys sample_marked"
    using drain_begin [of sample_conn_sys] by simp
  ultimately show ?thesis by (rule reach_step)
qed

lemma reach_sample_acked: "reach conn_start conn_step (sample_marked\<lparr>phase := Acked\<rparr>)"
proof -
  have "drain_check (conn sample_marked) = (True, conn sample_marked)"
    by (simp add: drain_check_def liveOpensLocked_def retire_mark_def new_conn_def)
  from drain_none [OF _ this] have "conn_step sample_marked (sample_marked\<lparr>phase := Acked\<rparr>)" by simp
  with reach_sample_marked show ?thesis by (rule reach_step)
qed

text \<open>C3. A drain that is acknowledged for lack of opens in flight is final: from then on, in
  every interleaving, no open that could still reach the agent is in flight and the session
  stays retired. (An acknowledgement after the wait ran out, \<open>AckedEarly\<close>, promises nothing.)\<close>

theorem drain_ack_final:
  assumes "reach conn_start conn_step st" and "phase st = Acked" and "conn_step\<^sup>*\<^sup>* st st'"
  shows "liveOpens st' = {} \<and> retired (conn st') \<and> liveOpensLocked (conn st') = 0 \<and>
    fst (open_enter (conn st')) = Some ErrRetired"
proof -
  from agent_conn.reach_inv [OF assms(1)] assms(2) have inv: "conn_inv st" "retired (conn st)" "liveOpens st = {}"
    by (auto simp: conn_inv_def)
  from drained_forever [OF assms(3) inv(2,3)] have "retired (conn st')" "liveOpens st' = {}" by auto
  moreover from agent_conn.steps_inv [OF assms(3) inv(1)] have "conn_inv st'" .
  ultimately show ?thesis by (simp add: live_opens_card open_enter_def)
qed

theorem drain_ack_final_witness:
  "liveOpens (sample_marked\<lparr>phase := Acked\<rparr>) = {} \<and> liveOpensLocked (conn (sample_marked\<lparr>phase := Acked\<rparr>)) = 0"
  using drain_ack_final [OF reach_sample_acked _ rtranclp.rtrancl_refl] by simp

text \<open>C26. No wake-up is lost: whenever a drain is waiting and no open in flight can reach the
  agent any more, the channel it waits on has been closed; and it is not closed before.\<close>

theorem drain_wakeup:
  assumes "reach conn_start conn_step st" and "phase st = Waiting"
  shows "\<not> idle (conn st) \<longleftrightarrow> liveOpens st = {}"
  using agent_conn.reach_inv [OF assms(1)] assms(2) by (auto simp: conn_inv_def)

lemma reach_sample_waiting:
  "reach conn_start conn_step \<lparr>conn = new_conn\<lparr>opens_n := 1, retired := True, idle := True\<rparr>,
     liveOpens = {7}, abandonedOpens = {}, phase = Waiting\<rparr>"
proof -
  let ?a = "sample_conn_sys\<lparr>conn := new_conn\<lparr>opens_n := 1\<rparr>, liveOpens := {7}\<rparr>"
  let ?b = "?a\<lparr>conn := snd (retire_mark (conn ?a)), phase := Marked\<rparr>"
  let ?c = "?b\<lparr>conn := (conn ?b)\<lparr>idle := True\<rparr>, phase := Waiting\<rparr>"
  have "reach conn_start conn_step sample_conn_sys" by (rule reach_init) (simp add: conn_start_def)
  moreover have "conn_step sample_conn_sys ?a"
    using enter [of sample_conn_sys "new_conn\<lparr>opens_n := 1\<rparr>" 7] by (simp add: open_enter_def new_conn_def)
  ultimately have "reach conn_start conn_step ?a" by (rule reach_step)
  moreover have "conn_step ?a ?b" by (rule drain_begin) simp
  ultimately have "reach conn_start conn_step ?b" by (rule reach_step)
  moreover have "conn_step ?b ?c"
    by (rule drain_wait) (simp_all add: drain_check_def liveOpensLocked_def retire_mark_def new_conn_def)
  ultimately have "reach conn_start conn_step ?c" by (rule reach_step)
  then show ?thesis by (simp add: retire_mark_def)
qed

theorem drain_wakeup_witness:
  "\<not> idle (conn \<lparr>conn = new_conn\<lparr>opens_n := 1, retired := True, idle := True\<rparr>,
      liveOpens = {7}, abandonedOpens = {}, phase = Waiting\<rparr>) \<longleftrightarrow> {7 :: nat} = {}"
  using drain_wakeup [OF reach_sample_waiting] by simp

text \<open>The session's counters count what they mean to: \<^verbatim>\<open>opening\<close> the opens in flight and
  \<^verbatim>\<open>stuck\<close> those given up on that have not returned, so that an open is refused as blocked
  exactly while one of those is outstanding on a session that is not retired.\<close>

theorem open_counters:
  assumes "reach conn_start conn_step st"
  shows "opens_n (conn st) = int (card (liveOpens st \<union> abandonedOpens st)) \<and>
    stuck (conn st) = int (card (abandonedOpens st)) \<and>
    (fst (open_enter (conn st)) = Some ErrOpenBlocked \<longleftrightarrow> abandonedOpens st \<noteq> {} \<and> \<not> retired (conn st))"
  using agent_conn.reach_inv [OF assms]
  by (auto simp: conn_inv_def card_Un_disjoint open_enter_def card_gt_0_iff)

theorem open_counters_witness:
  "opens_n (conn sample_marked) = int (card (liveOpens sample_marked \<union> abandonedOpens sample_marked))"
  using open_counters [OF reach_sample_marked] by blast

end
