(* ===== verification/Go_Path.thy ===== *)
theory Go_Path
  imports Go_Strings
begin

text \<open>
  What the configuration uses of Go's \<^verbatim>\<open>path/filepath\<close> on a Unix system: \<open>Clean\<close>,
  \<open>Base\<close>, \<open>Ext\<close>, \<open>Dir\<close> and \<open>Join\<close>.
\<close>

abbreviation SLASH :: char where
  "SLASH \<equiv> CHR ''/''"

text \<open>One path element against the elements kept so far, the last first.\<close>

definition clean_elem :: "bool \<Rightarrow> string list \<Rightarrow> string \<Rightarrow> string list" where
  "clean_elem rooted kept e =
     (if e = '''' \<or> e = ''.'' then kept
      else if e = ''..'' then
        (case kept of
           [] \<Rightarrow> if rooted then [] else [''..'']
         | k # ks \<Rightarrow> if k = ''..'' then ''..'' # kept else ks)
      else e # kept)"

fun join_elems :: "string list \<Rightarrow> string" where
  "join_elems [] = ''''"
| "join_elems [e] = e"
| "join_elems (e # es) = e @ SLASH # join_elems es"

definition Clean :: "string \<Rightarrow> string" where
  "Clean p =
     (let rooted = HasPrefix p ''/'';
          body = join_elems (rev (foldl (clean_elem rooted) [] (Split p ''/'')))
      in if rooted then SLASH # body else if body = '''' then ''.'' else body)"

text \<open>What follows the last slash.\<close>

definition after_slash :: "string \<Rightarrow> string" where
  "after_slash p = rev (takeWhile (\<lambda>c. c \<noteq> SLASH) (rev p))"

definition Base :: "string \<Rightarrow> string" where
  "Base p =
     (if p = '''' then ''.''
      else
        (let q = after_slash (rev (dropWhile (\<lambda>c. c = SLASH) (rev p)))
         in if q = '''' then ''/'' else q))"

definition Ext :: "string \<Rightarrow> string" where
  "Ext p = (let b = after_slash p in case LastIndexByte b (CHR ''.'') of None \<Rightarrow> '''' | Some i \<Rightarrow> drop i b)"

definition Dir :: "string \<Rightarrow> string" where
  "Dir p = Clean (take (length p - length (after_slash p)) p)"

fun Join :: "string list \<Rightarrow> string" where
  "Join [] = ''''"
| "Join (e # es) = (if e \<noteq> '''' then Clean (join_elems (e # es)) else Join es)"

lemma after_slash_no_slash: "SLASH \<notin> set (after_slash p)"
  unfolding after_slash_def by (auto dest: set_takeWhileD)

end
