(* ===== verification/Config.thy ===== *)
theory Config
  imports Route Go_Net Go_Path "HOL-Library.Char_ord" "HOL-Library.List_Lexorder"
begin

text \<open>
  Package \<^verbatim>\<open>internal/config\<close>: the edge's and the agent's configuration (config.go), its
  validation (load.go) and the drop-in directory (dropin.go). Durations are integers of
  nanoseconds; an unset pointer is \<open>None\<close>. The YAML decoder, the file system, the table of
  service names, the URL parser and \<^verbatim>\<open>httpguts\<close> are arguments. A validation error is a
  constructor with what its message quotes; \<open>None\<close> is the nil error.
\<close>

subsection \<open>Data (config.go)\<close>

record LogConfig =
  Level :: string
  Format :: string

record TLSFiles =
  tls_cert :: string
  tls_key :: string

record HTTP3Config =
  h3_Enabled :: bool
  h3_Listen :: string
  h3_AltSvc :: string

record IngressConfig =
  Mode :: string
  ing_Listen :: string
  ing_TLS :: TLSFiles
  ing_MaxConnections :: int
  ReadHeaderTimeout :: duration
  IdleTimeout :: duration
  ing_HTTP3 :: HTTP3Config

record EdgeRoute =
  er_Host :: string
  AgentFingerprint :: fingerprint
  AgentFingerprints :: "fingerprint list"
  Balance :: string
  AllowSharedCert :: bool
  er_MaxConnections :: int
  er_HTTP3 :: "bool option"

record AgentRoute =
  ar_Host :: string
  Service :: string

record TunnelServerConfig =
  tun_Listen :: string
  tun_CA :: string
  tun_Cert :: string
  tun_Key :: string
  ShareIngress :: bool

record EdgeConfig =
  Ingress :: IngressConfig
  Tunnel_cfg :: TunnelServerConfig
  Routes :: "EdgeRoute list"
  Drain :: duration
  AgentWait :: "duration option"
  Log :: LogConfig
  AdminSocket :: string
  MetricsListen :: string
  Version :: string

record EdgeRef =
  Address :: string
  er_CA :: string
  er_Cert :: string
  er_Key :: string
  EdgeFingerprint :: string
  Proxy :: string

record ReconnectConfig =
  MinBackoff :: duration
  MaxBackoff :: duration

record AgentConfig =
  Edge :: EdgeRef
  ARoutes :: "AgentRoute list"
  Reconnect_cfg :: ReconnectConfig
  ADrain :: duration
  ALog :: LogConfig
  AAdminSocket :: string
  AMetricsListen :: string
  AVersion :: string

abbreviation AltSvcAuto :: string where "AltSvcAuto \<equiv> ''auto''"
abbreviation AltSvcOff :: string where "AltSvcOff \<equiv> ''off''"

definition HTTP3Listen :: "IngressConfig \<Rightarrow> string" where
  "HTTP3Listen i = (if h3_Listen (ing_HTTP3 i) \<noteq> '''' then h3_Listen (ing_HTTP3 i) else ing_Listen i)"

definition AltSvcHeaderFor :: "IngressConfig \<Rightarrow> int \<Rightarrow> string" where
  "AltSvcHeaderFor i port =
     (if \<not> h3_Enabled (ing_HTTP3 i) then ''''
      else
        (let v = ToLower (h3_AltSvc (ing_HTTP3 i))
         in if v = AltSvcOff then ''''
            else if v = '''' \<or> v = AltSvcAuto then
              (if port < 1 then ''''
               else ''h3='' @ CHR 0x22 # '':'' @ show_nat (nat port) @ CHR 0x22 # ''; ma=86400'')
            else h3_AltSvc (ing_HTTP3 i)))"

definition ServesHTTP3 :: "EdgeRoute \<Rightarrow> bool" where
  "ServesHTTP3 r \<longleftrightarrow> (case er_HTTP3 r of None \<Rightarrow> True | Some b \<Rightarrow> b)"

definition BalanceLeastConn :: string where
  "BalanceLeastConn = ''least_conn''"

definition BalanceRoundRobin :: string where
  "BalanceRoundRobin = ''round_robin''"

definition Fingerprints :: "EdgeRoute \<Rightarrow> fingerprint list" where
  "Fingerprints r = (if AgentFingerprint r \<noteq> '''' then [AgentFingerprint r] else AgentFingerprints r)"

definition BalanceMode :: "EdgeRoute \<Rightarrow> string" where
  "BalanceMode r = (if Balance r = '''' then BalanceLeastConn else Balance r)"

definition DefaultAgentWait :: duration where
  "DefaultAgentWait = 5 * second"

definition AgentWaitDuration :: "EdgeConfig \<Rightarrow> duration" where
  "AgentWaitDuration c = (case AgentWait c of None \<Rightarrow> DefaultAgentWait | Some d \<Rightarrow> d)"

definition AllowedFingerprints :: "EdgeConfig \<Rightarrow> fingerprint set" where
  "AllowedFingerprints c = foldl (\<lambda>m r. m \<union> set (Fingerprints r)) {} (Routes c)"

definition SharedFingerprints :: "EdgeConfig \<Rightarrow> fingerprint set" where
  "SharedFingerprints c =
     foldl (\<lambda>m r. if AllowSharedCert r then m \<union> set (Fingerprints r) else m) {} (Routes c)"

text \<open>\<^verbatim>\<open>ProxyURL\<close>; the URL parser is an argument.\<close>

record url =
  Scheme :: string
  Hostname :: string
  Port :: string
  Path :: string
  RawQuery :: string
  Fragment :: string

definition ProxyURL :: "(string \<Rightarrow> 'u option) \<Rightarrow> EdgeRef \<Rightarrow> 'u option" where
  "ProxyURL parse e = (if Proxy e = '''' then None else parse (Proxy e))"

subsection \<open>Listen addresses (load.go)\<close>

type_synonym services = "string \<Rightarrow> string \<Rightarrow> int option"

definition SplitListenNet :: "services \<Rightarrow> string \<Rightarrow> string \<Rightarrow> (string \<times> int) option" where
  "SplitListenNet services network addr = (case SplitHostPort addr of
      Inl _ \<Rightarrow> None
    | Inr (host, p) \<Rightarrow> (case LookupPort services network p of
          None \<Rightarrow> None
        | Some port \<Rightarrow> if port < 1 then None else Some (host, port)))"

definition SplitListen :: "services \<Rightarrow> string \<Rightarrow> (string \<times> int) option" where
  "SplitListen services addr = SplitListenNet services ''tcp'' addr"

definition IsWildcardHost :: "string \<Rightarrow> bool" where
  "IsWildcardHost h \<longleftrightarrow> (if h = '''' then True else (case ParseIP h of None \<Rightarrow> False | Some ip \<Rightarrow> IsUnspecified ip))"

definition LoopbackHosts :: "string \<Rightarrow> string list" where
  "LoopbackHosts host = (if IsWildcardHost host then [''127.0.0.1'', ''::1''] else [host])"

definition loopback_ips :: "ip list" where
  "loopback_ips = [IPv4 127 0 0 1, IPv6loopback]"

definition hostIPs :: "string \<Rightarrow> ip list option" where
  "hostIPs host = (case ParseIP host of
      Some ip \<Rightarrow> Some [ip]
    | None \<Rightarrow> if EqualFold host ''localhost'' then Some loopback_ips else None)"

text \<open>\<^verbatim>\<open>ips\<close> and \<^verbatim>\<open>resolved\<close> as an option.\<close>

record endpoint =
  ep_host :: string
  ep_port :: int
  ep_wildcard :: bool
  ep_ips :: "ip list option"

definition parseEndpoint :: "services \<Rightarrow> string \<Rightarrow> endpoint option" where
  "parseEndpoint services addr = (case SplitListen services addr of
      None \<Rightarrow> None
    | Some (host, port) \<Rightarrow>
        (let w = IsWildcardHost host
         in Some \<lparr>ep_host = host, ep_port = port, ep_wildcard = w,
                 ep_ips = (if w then None else hostIPs host)\<rparr>))"

definition overlaps :: "endpoint \<Rightarrow> endpoint \<Rightarrow> bool" where
  "overlaps e o' \<longleftrightarrow>
     (if ep_port e \<noteq> ep_port o' then False
      else if ep_wildcard e \<or> ep_wildcard o' then True
      else (case (ep_ips e, ep_ips o') of
          (Some xs, Some ys) \<Rightarrow> \<exists>x \<in> set xs. \<exists>y \<in> set ys. x = y
        | _ \<Rightarrow> EqualFold (ep_host e) (ep_host o')))"

definition ListenersOverlap :: "services \<Rightarrow> string \<Rightarrow> string \<Rightarrow> bool" where
  "ListenersOverlap services a b \<longleftrightarrow> (case (parseEndpoint services a, parseEndpoint services b) of
      (Some ea, Some eb) \<Rightarrow> overlaps ea eb
    | _ \<Rightarrow> False)"

text \<open>\<^verbatim>\<open>localIPs\<close>: the test for the interface addresses, which it refuses to know
  (\<open>None\<close>) when they cannot be listed.\<close>

definition localIPs :: "ip list option \<Rightarrow> ip \<Rightarrow> bool" where
  "localIPs addrs ip \<longleftrightarrow> (case addrs of None \<Rightarrow> False | Some ips \<Rightarrow> ip \<in> set ips)"

definition serviceOnMetricsSocket :: "services \<Rightarrow> string \<Rightarrow> string \<Rightarrow> (ip \<Rightarrow> bool) \<Rightarrow> bool" where
  "serviceOnMetricsSocket services metricsAddr service lcl \<longleftrightarrow>
     (case (parseEndpoint services metricsAddr, parseEndpoint services service) of
        (Some m, Some svc0) \<Rightarrow>
          (let svc = (if ep_wildcard svc0
                 then \<lparr>ep_host = ep_host svc0, ep_port = ep_port svc0, ep_wildcard = False, ep_ips = Some loopback_ips\<rparr>
                 else svc0)
           in case ep_ips svc of
                None \<Rightarrow> False
              | Some ips \<Rightarrow>
                  (let onHost = filter (\<lambda>ip. IsLoopback ip \<or> lcl ip) ips
                   in if onHost = [] then False else overlaps m (svc\<lparr>ep_ips := Some onHost\<rparr>)))
      | _ \<Rightarrow> False)"

subsection \<open>Validation (load.go)\<close>

datatype config_error =
    ModeUnknown string
  | StandaloneNeedsTLS
  | MissingIngressListen
  | MissingKeys "string list"  \<comment> \<open>the keys one of which is reported, in the map's random order\<close>
  | NegativeAgentWait
  | ShareNeedsStandalone
  | BadMetricsListen string
  | MetricsConflict string string
  | NoRoutes
  | RouteNoHost nat
  | RouteBadPattern nat pattern_error
  | RouteBothFingerprints string
  | RouteNoFingerprint string
  | RouteEmptyFingerprint string
  | RouteRepeatedFingerprint string fingerprint
  | RouteBadBalance string string
  | RouteHTTP3Proxied string
  | SharedConflict fingerprint string string
  | HTTP3NeedsStandalone
  | HTTP3BadListen string
  | HTTP3BadAltSvc
  | RouteNoService string
  | MetricsOnService string string string
  | BadProxy string
  | DuplicateHost string string string
  | ReadError string
  | ParseError string

text \<open>The first error of a sequence of checks, each made only when those before passed.\<close>

fun first_error :: "'e option list \<Rightarrow> 'e option" where
  "first_error [] = None"
| "first_error (c # cs) = (case c of Some e \<Rightarrow> Some e | None \<Rightarrow> first_error cs)"

definition guard_error :: "bool \<Rightarrow> 'e \<Rightarrow> 'e option" where
  "guard_error bad e = (if bad then Some e else None)"

fun agents_loop :: "string \<Rightarrow> fingerprint set \<Rightarrow> fingerprint list \<Rightarrow> config_error option" where
  "agents_loop host seen [] = None"
| "agents_loop host seen (fp # fps) =
     (if fp = '''' then Some (RouteEmptyFingerprint host)
      else if fp \<in> seen then Some (RouteRepeatedFingerprint host fp)
      else agents_loop host (insert fp seen) fps)"

definition validateAgents :: "EdgeRoute \<Rightarrow> config_error option" where
  "validateAgents r = first_error
     [guard_error (AgentFingerprint r \<noteq> '''' \<and> AgentFingerprints r \<noteq> []) (RouteBothFingerprints (er_Host r)),
      guard_error (AgentFingerprint r = '''' \<and> AgentFingerprints r = []) (RouteNoFingerprint (er_Host r)),
      agents_loop (er_Host r) {} (AgentFingerprints r),
      guard_error (Balance r \<notin> {'''', BalanceLeastConn, BalanceRoundRobin}) (RouteBadBalance (er_Host r) (Balance r))]"

definition metrics_validate :: "services \<Rightarrow> string \<Rightarrow> config_error option" where
  "metrics_validate services listen =
     (if listen = '''' then None
      else guard_error (SplitListen services listen = None) (BadMetricsListen listen))"

definition validateHTTP3 :: "services \<Rightarrow> (string \<Rightarrow> bool) \<Rightarrow> IngressConfig \<Rightarrow> config_error option" where
  "validateHTTP3 services validHeader i =
     (let h = ing_HTTP3 i
      in if \<not> h3_Enabled h then None
         else if Mode i \<noteq> ''standalone'' then Some HTTP3NeedsStandalone
         else if SplitListenNet services ''udp'' (HTTP3Listen i) = None then Some (HTTP3BadListen (HTTP3Listen i))
         else if ToLower (h3_AltSvc h) \<in> {'''', AltSvcAuto, AltSvcOff} then None
         else if \<not> validHeader (h3_AltSvc h) \<or> TrimSpace (h3_AltSvc h) = '''' then Some HTTP3BadAltSvc
         else None)"

text \<open>One route of the loop in \<^verbatim>\<open>EdgeConfig.Validate\<close>: its checks, and what it nts.\<close>

definition route_error :: "string \<Rightarrow> nat \<Rightarrow> EdgeRoute \<Rightarrow> config_error option" where
  "route_error mode i r = first_error
     [guard_error (er_Host r = '''') (RouteNoHost i),
      map_option (RouteBadPattern i) (ValidatePattern (er_Host r)),
      validateAgents r,
      guard_error (\<not> ServesHTTP3 r \<and> mode = ''proxied'') (RouteHTTP3Proxied (er_Host r))]"

type_synonym fp_notes = "(fingerprint \<rightharpoonup> string) \<times> (fingerprint \<rightharpoonup> string)"

definition note_route :: "fp_notes \<Rightarrow> EdgeRoute \<Rightarrow> fp_notes" where
  "note_route nts r =
     foldl (\<lambda>(sharedBy, exclusive) fp.
        if AllowSharedCert r then (sharedBy(fp \<mapsto> er_Host r), exclusive)
        else (sharedBy, exclusive(fp \<mapsto> er_Host r))) nts (Fingerprints r)"

fun routes_loop :: "string \<Rightarrow> nat \<Rightarrow> fp_notes \<Rightarrow> EdgeRoute list \<Rightarrow> config_error + fp_notes" where
  "routes_loop mode i nts [] = Inr nts"
| "routes_loop mode i nts (r # rs) = (case route_error mode i r of
      Some e \<Rightarrow> Inl e
    | None \<Rightarrow> routes_loop mode (Suc i) (note_route nts r) rs)"

text \<open>The second pass: the first fingerprint, in configuration order, noted both ways.\<close>

definition shared_conflict :: "fp_notes \<Rightarrow> EdgeRoute list \<Rightarrow> config_error option" where
  "shared_conflict nts rs = first_error (map (\<lambda>fp. case (fst nts fp, snd nts fp) of
       (Some sh, Some other) \<Rightarrow> Some (SharedConflict fp sh other)
     | _ \<Rightarrow> None) (concat (map Fingerprints rs)))"

definition missing_keys :: "(string \<times> string) list \<Rightarrow> config_error option" where
  "missing_keys required =
     (let missing = map fst (filter (\<lambda>(name, v). v = '''') required)
      in guard_error (missing \<noteq> []) (MissingKeys missing))"

definition mode_error :: "IngressConfig \<Rightarrow> config_error option" where
  "mode_error i =
     (if Mode i = ''standalone'' then
        guard_error (tls_cert (ing_TLS i) = '''' \<or> tls_key (ing_TLS i) = '''') StandaloneNeedsTLS
      else if Mode i = ''proxied'' then None
      else Some (ModeUnknown (Mode i)))"

definition edge_Validate :: "services \<Rightarrow> (string \<Rightarrow> bool) \<Rightarrow> EdgeConfig \<Rightarrow> config_error option" where
  "edge_Validate services validHeader c =
     (let i = Ingress c; t = Tunnel_cfg c; m = MetricsListen c
      in first_error
        [mode_error i,
         guard_error (ing_Listen i = '''') MissingIngressListen,
         validateHTTP3 services validHeader i,
         missing_keys ([(''tunnel.ca'', tun_CA t), (''tunnel.cert'', tun_Cert t), (''tunnel.key'', tun_Key t)] @
           (if \<not> ShareIngress t then [(''tunnel.listen'', tun_Listen t)] else [])),
         guard_error (\<exists>d. AgentWait c = Some d \<and> d < 0) NegativeAgentWait,
         guard_error (ShareIngress t \<and> Mode i \<noteq> ''standalone'') ShareNeedsStandalone,
         metrics_validate services m,
         guard_error (m \<noteq> '''' \<and> ListenersOverlap services m (tun_Listen t)) (MetricsConflict m ''tunnel.listen''),
         guard_error (m \<noteq> '''' \<and> ListenersOverlap services m (ing_Listen i)) (MetricsConflict m ''ingress.listen''),
         guard_error (Routes c = []) NoRoutes,
         (case routes_loop (Mode i) 0 (Map.empty, Map.empty) (Routes c) of
            Inl e \<Rightarrow> Some e
          | Inr nts \<Rightarrow> shared_conflict nts (Routes c))])"

text \<open>\<^verbatim>\<open>validateProxy\<close>: \<^verbatim>\<open>strconv.Atoi\<close> of the port, which a URL parser has checked to
  be digits.\<close>

definition proxy_port_ok :: "string \<Rightarrow> bool" where
  "proxy_port_ok port \<longleftrightarrow> (case port_digits 0 port of None \<Rightarrow> False | Some n \<Rightarrow> 1 \<le> n \<and> n \<le> 65535)"

definition validateProxy :: "(string \<Rightarrow> url option) \<Rightarrow> string \<Rightarrow> config_error option" where
  "validateProxy parse p =
     (if p = '''' then None
      else (case parse p of
          None \<Rightarrow> Some (BadProxy ''and does not parse'')
        | Some u \<Rightarrow>
            if Scheme u \<noteq> ''http'' \<and> Scheme u \<noteq> ''https'' then Some (BadProxy ''not scheme'')
            else if Hostname u = '''' then Some (BadProxy ''and names no host'')
            else if Path u \<noteq> '''' \<and> Path u \<noteq> ''/'' \<or> RawQuery u \<noteq> '''' \<or> Fragment u \<noteq> '''' then
              Some (BadProxy ''with nothing after the host'')
            else if Port u \<noteq> '''' \<and> \<not> proxy_port_ok (Port u) then Some (BadProxy ''and port is not 1 to 65535'')
            else None))"

definition agent_route_error :: "nat \<Rightarrow> AgentRoute \<Rightarrow> config_error option" where
  "agent_route_error i r = first_error
     [guard_error (ar_Host r = '''') (RouteNoHost i),
      guard_error (Service r = '''') (RouteNoService (ar_Host r)),
      map_option (RouteBadPattern i) (ValidatePattern (ar_Host r))]"

definition agent_Validate :: "services \<Rightarrow> (string \<Rightarrow> url option) \<Rightarrow> ip list option \<Rightarrow> AgentConfig \<Rightarrow> config_error option" where
  "agent_Validate services parse addrs c =
     (let e = Edge c; m = AMetricsListen c
      in first_error
        [missing_keys [(''edge.address'', Address e), (''edge.ca'', er_CA e), (''edge.cert'', er_Cert e), (''edge.key'', er_Key e)],
         validateProxy parse (Proxy e),
         metrics_validate services m,
         (if m \<noteq> '''' then first_error (map (\<lambda>r.
             guard_error (serviceOnMetricsSocket services m (Service r) (localIPs addrs))
               (MetricsOnService m (Service r) (ar_Host r))) (ARoutes c))
          else None),
         guard_error (ARoutes c = []) NoRoutes,
         first_error (map (\<lambda>(i, r). agent_route_error i r) (ranged (ARoutes c)))])"

subsection \<open>Drop-in routes (dropin.go)\<close>

definition dropInDir :: "string \<Rightarrow> string" where
  "dropInDir path =
     (let base = Base path; name = TrimSuffix base (Ext base)
      in Join [Dir path, name @ ''.d''])"

record sourced =
  s_host :: string
  s_origin :: string

datatype dir_result = DirNotExist | DirError | DirEntries "(string \<times> bool) list"

record file_system =
  ReadFile :: "string \<Rightarrow> bytes option"
  ReadDir :: "string \<Rightarrow> dir_result"

text \<open>What the YAML decoder makes of a document: a value, nothing (an empty document), or an error.\<close>

datatype 'c decoded = Decoded 'c | DecodeEOF | DecodeError

definition strictDecode :: "(bytes \<Rightarrow> 'c decoded) \<Rightarrow> 'c \<Rightarrow> bytes \<Rightarrow> 'c option" where
  "strictDecode dec zero b = (case dec b of Decoded c \<Rightarrow> Some c | DecodeEOF \<Rightarrow> Some zero | DecodeError \<Rightarrow> None)"

definition strictDecodeFile :: "file_system \<Rightarrow> (bytes \<Rightarrow> 'c decoded) \<Rightarrow> 'c \<Rightarrow> string \<Rightarrow> config_error + 'c" where
  "strictDecodeFile fs dec zero path = (case ReadFile fs path of
      None \<Rightarrow> Inl (ReadError path)
    | Some b \<Rightarrow> (case strictDecode dec zero b of None \<Rightarrow> Inl (ParseError path) | Some c \<Rightarrow> Inr c))"

definition dropInFiles :: "file_system \<Rightarrow> string \<Rightarrow> config_error + string list" where
  "dropInFiles fs path =
     (let dir = dropInDir path
      in case ReadDir fs dir of
           DirNotExist \<Rightarrow> Inr []
         | DirError \<Rightarrow> Inl (ReadError dir)
         | DirEntries es \<Rightarrow>
             Inr (sort (map (\<lambda>(name, _). Join [dir, name]) (filter (\<lambda>(name, isDir). \<not> isDir \<and> Ext name = ''.yaml'') es))))"

definition dropInLabel :: "string \<Rightarrow> string \<Rightarrow> string" where
  "dropInLabel base full = Join [Base (dropInDir base), Base full]"

fun dropIns_loop :: "file_system \<Rightarrow> (bytes \<Rightarrow> 'r list decoded) \<Rightarrow> string \<Rightarrow> string list \<Rightarrow> config_error + 'r list \<times> string list" where
  "dropIns_loop fs dec path [] = Inr ([], [])"
| "dropIns_loop fs dec path (f # files) = (case strictDecodeFile fs dec [] f of
      Inl e \<Rightarrow> Inl e
    | Inr frag \<Rightarrow> (case dropIns_loop fs dec path files of
          Inl e \<Rightarrow> Inl e
        | Inr (routes, origins) \<Rightarrow> Inr (frag @ routes, map (\<lambda>_. dropInLabel path f) frag @ origins)))"

definition readDropIns :: "file_system \<Rightarrow> (bytes \<Rightarrow> 'r list decoded) \<Rightarrow> string \<Rightarrow> config_error + 'r list \<times> string list" where
  "readDropIns fs dec path = (case dropInFiles fs path of
      Inl e \<Rightarrow> Inl e
    | Inr files \<Rightarrow> dropIns_loop fs dec path files)"

fun dup_loop :: "(string \<rightharpoonup> string) \<Rightarrow> sourced list \<Rightarrow> config_error option" where
  "dup_loop seen [] = None"
| "dup_loop seen (h # hs) =
     (let key = Normalize (s_host h)
      in case seen key of
           Some prev \<Rightarrow> Some (DuplicateHost (s_host h) (s_origin h) prev)
         | None \<Rightarrow> dup_loop (seen(key \<mapsto> s_origin h)) hs)"

definition checkDuplicateHosts :: "sourced list \<Rightarrow> config_error option" where
  "checkDuplicateHosts hosts = dup_loop Map.empty hosts"

subsection \<open>Loading (load.go)\<close>

definition loadRoutes :: "file_system \<Rightarrow> (bytes \<Rightarrow> 'r list decoded) \<Rightarrow> string \<Rightarrow> 'r list \<Rightarrow> config_error + 'r list \<times> string list" where
  "loadRoutes fs dec path base =
     (let origins = map (\<lambda>_. Base path) base
      in case readDropIns fs dec path of
           Inl e \<Rightarrow> Inl e
         | Inr (extra, extraOrigins) \<Rightarrow> Inr (base @ extra, origins @ extraOrigins))"

definition checkRouteHosts :: "string list \<Rightarrow> string list \<Rightarrow> config_error option" where
  "checkRouteHosts hosts origins =
     checkDuplicateHosts (map (\<lambda>(h, o'). \<lparr>s_host = h, s_origin = o'\<rparr>) (zip hosts origins))"

definition default_duration :: "duration \<Rightarrow> duration \<Rightarrow> duration" where
  "default_duration d fallback = (if d = 0 then fallback else d)"

definition edge_defaults :: "EdgeConfig \<Rightarrow> EdgeConfig" where
  "edge_defaults c =
     c\<lparr>Ingress := (Ingress c)\<lparr>ReadHeaderTimeout := default_duration (ReadHeaderTimeout (Ingress c)) (10 * second)\<rparr>,
       Drain := default_duration (Drain c) (15 * second)\<rparr>"

record edge_env =
  env_fs :: file_system
  env_services :: services
  env_header :: "string \<Rightarrow> bool"
  env_zero :: EdgeConfig
  env_decode :: "bytes \<Rightarrow> EdgeConfig decoded"
  env_frag :: "bytes \<Rightarrow> EdgeRoute list decoded"

definition LoadEdge :: "edge_env \<Rightarrow> string \<Rightarrow> config_error + EdgeConfig" where
  "LoadEdge env path = (case strictDecodeFile (env_fs env) (env_decode env) (env_zero env) path of
      Inl e \<Rightarrow> Inl e
    | Inr c0 \<Rightarrow> (case loadRoutes (env_fs env) (env_frag env) path (Routes c0) of
          Inl e \<Rightarrow> Inl e
        | Inr (routes, origins) \<Rightarrow>
            (let c = edge_defaults (c0\<lparr>Routes := routes\<rparr>)
             in case edge_Validate (env_services env) (env_header env) c of
                  Some e \<Rightarrow> Inl e
                | None \<Rightarrow> (case checkRouteHosts (map er_Host (Routes c)) origins of
                      Some e \<Rightarrow> Inl e
                    | None \<Rightarrow> Inr c))))"

definition agent_defaults :: "AgentConfig \<Rightarrow> AgentConfig" where
  "agent_defaults c =
     c\<lparr>Reconnect_cfg := \<lparr>MinBackoff = default_duration (MinBackoff (Reconnect_cfg c)) second,
         MaxBackoff = default_duration (MaxBackoff (Reconnect_cfg c)) (30 * second)\<rparr>,
       ADrain := default_duration (ADrain c) (15 * second)\<rparr>"

record agent_env =
  aenv_fs :: file_system
  aenv_services :: services
  aenv_url :: "string \<Rightarrow> url option"
  aenv_addrs :: "ip list option"
  aenv_zero :: AgentConfig
  aenv_decode :: "bytes \<Rightarrow> AgentConfig decoded"
  aenv_frag :: "bytes \<Rightarrow> AgentRoute list decoded"

definition LoadAgent :: "agent_env \<Rightarrow> string \<Rightarrow> config_error + AgentConfig" where
  "LoadAgent env path = (case strictDecodeFile (aenv_fs env) (aenv_decode env) (aenv_zero env) path of
      Inl e \<Rightarrow> Inl e
    | Inr c0 \<Rightarrow> (case loadRoutes (aenv_fs env) (aenv_frag env) path (ARoutes c0) of
          Inl e \<Rightarrow> Inl e
        | Inr (routes, origins) \<Rightarrow>
            (let c = agent_defaults (c0\<lparr>ARoutes := routes\<rparr>)
             in case agent_Validate (aenv_services env) (aenv_url env) (aenv_addrs env) c of
                  Some e \<Rightarrow> Inl e
                | None \<Rightarrow> (case checkRouteHosts (map ar_Host (ARoutes c)) origins of
                      Some e \<Rightarrow> Inl e
                    | None \<Rightarrow> Inr c))))"

text \<open>\<^verbatim>\<open>EdgeLogLevel\<close>, \<^verbatim>\<open>AgentLogLevel\<close>, \<^verbatim>\<open>EdgeAdminSocket\<close> and
  \<^verbatim>\<open>AgentAdminSocket\<close> read one setting of a file that decodes, without validating it.\<close>

definition readSetting :: "('c \<Rightarrow> string) \<Rightarrow> file_system \<Rightarrow> (bytes \<Rightarrow> 'c decoded) \<Rightarrow> 'c \<Rightarrow> string \<Rightarrow> config_error + string" where
  "readSetting setting fs dec zero path = (case strictDecodeFile fs dec zero path of
      Inl e \<Rightarrow> Inl e
    | Inr c \<Rightarrow> Inr (setting c))"

definition EdgeLogLevel :: "file_system \<Rightarrow> (bytes \<Rightarrow> EdgeConfig decoded) \<Rightarrow> EdgeConfig \<Rightarrow> string \<Rightarrow> config_error + string" where
  "EdgeLogLevel = readSetting (Level \<circ> Log)"

definition AgentLogLevel :: "file_system \<Rightarrow> (bytes \<Rightarrow> AgentConfig decoded) \<Rightarrow> AgentConfig \<Rightarrow> string \<Rightarrow> config_error + string" where
  "AgentLogLevel = readSetting (Level \<circ> ALog)"

definition EdgeAdminSocket :: "file_system \<Rightarrow> (bytes \<Rightarrow> EdgeConfig decoded) \<Rightarrow> EdgeConfig \<Rightarrow> string \<Rightarrow> config_error + string" where
  "EdgeAdminSocket = readSetting AdminSocket"

definition AgentAdminSocket :: "file_system \<Rightarrow> (bytes \<Rightarrow> AgentConfig decoded) \<Rightarrow> AgentConfig \<Rightarrow> string \<Rightarrow> config_error + string" where
  "AgentAdminSocket = readSetting AAdminSocket"

subsection \<open>What validation accepts\<close>

lemma first_error_None: "first_error cs = None \<longleftrightarrow> (\<forall>c \<in> set cs. c = None)"
  by (induction cs) (auto split: option.splits)

lemma first_error_None_simps [simp]:
  "first_error ([] :: 'e option list) = None"
  "first_error (c # cs) = None \<longleftrightarrow> c = None \<and> first_error cs = None"
  by (auto split: option.splits)

declare first_error.simps(2) [simp del]

lemma guard_error_None [simp]: "guard_error bad e = None \<longleftrightarrow> \<not> bad"
  by (simp add: guard_error_def)

lemma agents_loop_None:
  "agents_loop host seen fps = None \<longleftrightarrow> '''' \<notin> set fps \<and> distinct fps \<and> set fps \<inter> seen = {}"
  by (induction fps arbitrary: seen) auto

text \<open>A route names its agents one way, without an empty or repeated fingerprint.\<close>

definition valid_agents :: "EdgeRoute \<Rightarrow> bool" where
  "valid_agents r \<longleftrightarrow> (AgentFingerprint r \<noteq> '''') \<noteq> (AgentFingerprints r \<noteq> []) \<and>
     Fingerprints r \<noteq> [] \<and> distinct (Fingerprints r) \<and> '''' \<notin> set (Fingerprints r) \<and>
     BalanceMode r \<in> {BalanceLeastConn, BalanceRoundRobin}"

lemma validateAgents_None: "validateAgents r = None \<longleftrightarrow> valid_agents r"
  by (auto simp: validateAgents_def agents_loop_None valid_agents_def Fingerprints_def
      BalanceMode_def)

definition valid_edge_route :: "string \<Rightarrow> EdgeRoute \<Rightarrow> bool" where
  "valid_edge_route mode r \<longleftrightarrow> ValidatePattern (er_Host r) = None \<and> valid_agents r \<and>
     (mode = ''proxied'' \<longrightarrow> ServesHTTP3 r)"

lemma ValidatePattern_nonempty: "ValidatePattern p = None \<Longrightarrow> p \<noteq> ''''"
  by (auto simp: ValidatePattern_def)

lemma route_error_None: "route_error mode i r = None \<longleftrightarrow> valid_edge_route mode r"
  by (auto simp: route_error_def validateAgents_None valid_edge_route_def
      dest: ValidatePattern_nonempty)

lemma note_route_dom:
  "dom (fst (note_route nts r)) = dom (fst nts) \<union> (if AllowSharedCert r then set (Fingerprints r) else {})"
  "dom (snd (note_route nts r)) = dom (snd nts) \<union> (if AllowSharedCert r then {} else set (Fingerprints r))"
proof -
  have "dom (fst (foldl (\<lambda>(sharedBy, exclusive) fp.
          if b then (sharedBy(fp \<mapsto> h), exclusive) else (sharedBy, exclusive(fp \<mapsto> h))) nts fps)) =
        dom (fst nts) \<union> (if b then set fps else {}) \<and>
      dom (snd (foldl (\<lambda>(sharedBy, exclusive) fp.
          if b then (sharedBy(fp \<mapsto> h), exclusive) else (sharedBy, exclusive(fp \<mapsto> h))) nts fps)) =
        dom (snd nts) \<union> (if b then {} else set fps)" for b h and fps :: "fingerprint list"
    by (induction fps arbitrary: nts) (auto simp: split_beta)
  then show "dom (fst (note_route nts r)) = dom (fst nts) \<union> (if AllowSharedCert r then set (Fingerprints r) else {})"
    "dom (snd (note_route nts r)) = dom (snd nts) \<union> (if AllowSharedCert r then {} else set (Fingerprints r))"
    by (simp_all add: note_route_def)
qed

definition fps_where :: "bool \<Rightarrow> EdgeRoute list \<Rightarrow> fingerprint set" where
  "fps_where b rs = (\<Union>r \<in> {r \<in> set rs. AllowSharedCert r = b}. set (Fingerprints r))"

lemma fps_where_simps [simp]:
  "fps_where b [] = {}"
  "fps_where b (r # rs) = (if AllowSharedCert r = b then set (Fingerprints r) else {}) \<union> fps_where b rs"
  by (auto simp: fps_where_def)

lemma routes_loop_Inl: "(\<exists>nts'. routes_loop mode i nts rs = Inr nts') \<longleftrightarrow> (\<forall>r \<in> set rs. valid_edge_route mode r)"
  by (induction rs arbitrary: i nts) (auto split: option.splits simp flip: route_error_None, (metis not_Some_eq route_error_None)+)

lemma routes_loop_Inr:
  "routes_loop mode i nts rs = Inr nts' \<Longrightarrow>
   dom (fst nts') = dom (fst nts) \<union> fps_where True rs \<and> dom (snd nts') = dom (snd nts) \<union> fps_where False rs"
proof (induction rs arbitrary: i nts)
  case Nil
  then show ?case by simp
next
  case (Cons r rs)
  then have "routes_loop mode (Suc i) (note_route nts r) rs = Inr nts'" by (auto split: option.splits)
  from Cons.IH [OF this] show ?case by (auto simp: note_route_dom)
qed

lemma shared_conflict_None:
  "shared_conflict nts rs = None \<longleftrightarrow> (\<forall>r \<in> set rs. set (Fingerprints r) \<inter> dom (fst nts) \<inter> dom (snd nts) = {})"
  by (auto simp: shared_conflict_def first_error_None split: option.splits)

text \<open>Sharing is a property of the certificate: shared on every route that names it, or on none.\<close>

definition sharing_consistent :: "EdgeRoute list \<Rightarrow> bool" where
  "sharing_consistent rs \<longleftrightarrow> (\<forall>r \<in> set rs. \<forall>r' \<in> set rs.
     set (Fingerprints r) \<inter> set (Fingerprints r') \<noteq> {} \<longrightarrow> AllowSharedCert r = AllowSharedCert r')"

lemma sharing_consistent_iff: "sharing_consistent rs \<longleftrightarrow> fps_where True rs \<inter> fps_where False rs = {}"
  unfolding sharing_consistent_def fps_where_def by blast

lemma routes_checked:
  "(case routes_loop mode 0 (Map.empty, Map.empty) rs of Inl e \<Rightarrow> Some e | Inr nts \<Rightarrow> shared_conflict nts rs) = None \<longleftrightarrow>
   (\<forall>r \<in> set rs. valid_edge_route mode r) \<and> sharing_consistent rs"
proof (cases "routes_loop mode 0 (Map.empty, Map.empty) rs")
  case (Inl e)
  then show ?thesis using routes_loop_Inl [of mode 0 "(Map.empty, Map.empty)" rs] by simp
next
  case (Inr nts)
  have "fps_where True rs \<subseteq> (\<Union>r \<in> set rs. set (Fingerprints r))" by (auto simp: fps_where_def)
  then have "shared_conflict nts rs = None \<longleftrightarrow> fps_where True rs \<inter> fps_where False rs = {}"
    using routes_loop_Inr [OF Inr] by (simp add: shared_conflict_None) blast
  with Inr show ?thesis using routes_loop_Inl [of mode 0 "(Map.empty, Map.empty)" rs]
    by (simp add: sharing_consistent_iff)
qed

lemma foldl_union: "foldl (\<lambda>m x. m \<union> f x) A xs = A \<union> (\<Union>x \<in> set xs. f x)"
  by (induction xs arbitrary: A) auto

lemma AllowedFingerprints_iff: "fp \<in> AllowedFingerprints c \<longleftrightarrow> (\<exists>r \<in> set (Routes c). fp \<in> set (Fingerprints r))"
  by (simp add: AllowedFingerprints_def foldl_union)

lemma SharedFingerprints_iff:
  "fp \<in> SharedFingerprints c \<longleftrightarrow> (\<exists>r \<in> set (Routes c). AllowSharedCert r \<and> fp \<in> set (Fingerprints r))"
proof -
  have "(\<lambda>m r. if AllowSharedCert r then m \<union> set (Fingerprints r) else m) =
      (\<lambda>m r. m \<union> (if AllowSharedCert r then set (Fingerprints r) else {}))" by (auto simp: fun_eq_iff)
  then show ?thesis by (auto simp: SharedFingerprints_def foldl_union)
qed

text \<open>The declarative reading of \<open>edge_Validate\<close>.\<close>

definition valid_edge :: "services \<Rightarrow> (string \<Rightarrow> bool) \<Rightarrow> EdgeConfig \<Rightarrow> bool" where
  "valid_edge services validHeader c \<longleftrightarrow>
     (let i = Ingress c; t = Tunnel_cfg c; h = ing_HTTP3 i; m = MetricsListen c
      in (Mode i = ''proxied'' \<or> Mode i = ''standalone'' \<and> tls_cert (ing_TLS i) \<noteq> '''' \<and> tls_key (ing_TLS i) \<noteq> '''') \<and>
         ing_Listen i \<noteq> '''' \<and>
         (h3_Enabled h \<longrightarrow> Mode i = ''standalone'' \<and> SplitListenNet services ''udp'' (HTTP3Listen i) \<noteq> None \<and>
            (ToLower (h3_AltSvc h) \<in> {'''', AltSvcAuto, AltSvcOff} \<or> validHeader (h3_AltSvc h) \<and> TrimSpace (h3_AltSvc h) \<noteq> '''')) \<and>
         '''' \<notin> {tun_CA t, tun_Cert t, tun_Key t} \<and> (tun_Listen t \<noteq> '''' \<or> ShareIngress t) \<and>
         0 \<le> AgentWaitDuration c \<and>
         (ShareIngress t \<longrightarrow> Mode i = ''standalone'') \<and>
         (m \<noteq> '''' \<longrightarrow> SplitListen services m \<noteq> None \<and> \<not> ListenersOverlap services m (tun_Listen t) \<and>
            \<not> ListenersOverlap services m (ing_Listen i)) \<and>
         Routes c \<noteq> [] \<and> (\<forall>r \<in> set (Routes c). valid_edge_route (Mode i) r) \<and> sharing_consistent (Routes c))"

lemma missing_keys_None: "missing_keys kvs = None \<longleftrightarrow> (\<forall>kv \<in> set kvs. snd kv \<noteq> '''')"
  by (auto simp: missing_keys_def filter_empty_conv split_beta)

lemma validateHTTP3_None:
  "validateHTTP3 services validHeader i = None \<longleftrightarrow>
     (h3_Enabled (ing_HTTP3 i) \<longrightarrow> Mode i = ''standalone'' \<and> SplitListenNet services ''udp'' (HTTP3Listen i) \<noteq> None \<and>
       (ToLower (h3_AltSvc (ing_HTTP3 i)) \<in> {'''', AltSvcAuto, AltSvcOff} \<or>
        validHeader (h3_AltSvc (ing_HTTP3 i)) \<and> TrimSpace (h3_AltSvc (ing_HTTP3 i)) \<noteq> ''''))"
  by (auto simp: validateHTTP3_def Let_def)

lemma mode_error_None:
  "mode_error i = None \<longleftrightarrow>
     (Mode i = ''proxied'' \<or> Mode i = ''standalone'' \<and> tls_cert (ing_TLS i) \<noteq> '''' \<and> tls_key (ing_TLS i) \<noteq> '''')"
  by (auto simp: mode_error_def)

lemma metrics_validate_None: "metrics_validate services m = None \<longleftrightarrow> (m \<noteq> '''' \<longrightarrow> SplitListen services m \<noteq> None)"
  by (auto simp: metrics_validate_def)

lemma agent_wait_ok: "(\<exists>d. AgentWait c = Some d \<and> d < 0) \<longleftrightarrow> \<not> 0 \<le> AgentWaitDuration c"
  by (auto simp: AgentWaitDuration_def DefaultAgentWait_def second_def millisecond_def split: option.splits)

lemma tunnel_keys_None:
  "missing_keys ([(k1, tun_CA t), (k2, tun_Cert t), (k3, tun_Key t)] @
     (if \<not> ShareIngress t then [(k4, tun_Listen t)] else [])) = None \<longleftrightarrow>
   '''' \<notin> {tun_CA t, tun_Cert t, tun_Key t} \<and> (tun_Listen t \<noteq> '''' \<or> ShareIngress t)"
  by (auto simp: missing_keys_None)

lemma edge_Validate_None: "edge_Validate services validHeader c = None \<longleftrightarrow> valid_edge services validHeader c"
proof -
  have "edge_Validate services validHeader c = None \<longleftrightarrow>
     (let i = Ingress c; t = Tunnel_cfg c; m = MetricsListen c
      in mode_error i = None \<and> ing_Listen i \<noteq> '''' \<and> validateHTTP3 services validHeader i = None \<and>
         ('''' \<notin> {tun_CA t, tun_Cert t, tun_Key t} \<and> (tun_Listen t \<noteq> '''' \<or> ShareIngress t)) \<and>
         0 \<le> AgentWaitDuration c \<and> \<not> (ShareIngress t \<and> Mode i \<noteq> ''standalone'') \<and>
         (m \<noteq> '''' \<longrightarrow> SplitListen services m \<noteq> None) \<and>
         \<not> (m \<noteq> '''' \<and> ListenersOverlap services m (tun_Listen t)) \<and>
         \<not> (m \<noteq> '''' \<and> ListenersOverlap services m (ing_Listen i)) \<and>
         Routes c \<noteq> [] \<and> (\<forall>r \<in> set (Routes c). valid_edge_route (Mode i) r) \<and> sharing_consistent (Routes c))"
    unfolding edge_Validate_def Let_def
    by (simp only: first_error_None_simps guard_error_None tunnel_keys_None metrics_validate_None
        agent_wait_ok not_not routes_checked conj_assoc simp_thms)
  then show ?thesis
    unfolding valid_edge_def Let_def mode_error_None validateHTTP3_None by blast
qed

lemma valid_edge_defaults: "valid_edge services validHeader (edge_defaults c) = valid_edge services validHeader c"
proof -
  have "HTTP3Listen (i\<lparr>ReadHeaderTimeout := d\<rparr>) = HTTP3Listen i" for i d by (simp add: HTTP3Listen_def)
  then show ?thesis by (simp add: valid_edge_def Let_def edge_defaults_def AgentWaitDuration_def)
qed

subsection \<open>Unique hosts\<close>

lemma dup_loop_None:
  "dup_loop seen hs = None \<longleftrightarrow>
     distinct (map (Normalize \<circ> s_host) hs) \<and> (Normalize \<circ> s_host) ` set hs \<inter> dom seen = {}"
proof (induction hs arbitrary: seen)
  case Nil
  then show ?case by simp
next
  case (Cons h hs)
  then show ?case
    by (cases "seen (Normalize (s_host h))") (auto simp: Let_def disjoint_iff domIff split: if_splits)
qed

lemma checkRouteHosts_None:
  "length origins = length hosts \<Longrightarrow> checkRouteHosts hosts origins = None \<longleftrightarrow> distinct (map Normalize hosts)"
proof -
  assume len: "length origins = length hosts"
  have "map (Normalize \<circ> s_host) (map (\<lambda>(h, o'). \<lparr>s_host = h, s_origin = o'\<rparr>) (zip hosts origins)) =
      map Normalize (map fst (zip hosts origins))" by (simp add: comp_def split_beta)
  also have "\<dots> = map Normalize hosts" using len by simp
  finally show ?thesis by (simp only: checkRouteHosts_def checkDuplicateHosts_def dup_loop_None) simp
qed

lemma dropIns_loop_length: "dropIns_loop fs dec path files = Inr (routes, origins) \<Longrightarrow> length origins = length routes"
  by (induction files arbitrary: routes origins) (auto split: sum.splits)

lemma loadRoutes_length: "loadRoutes fs dec path base = Inr (routes, origins) \<Longrightarrow> length origins = length routes"
  by (auto simp: loadRoutes_def readDropIns_def Let_def dest: dropIns_loop_length split: sum.splits)

lemma LoadEdge_Inr:
  assumes "LoadEdge env path = Inr c"
  shows "valid_edge (env_services env) (env_header env) c \<and> distinct (map (Normalize \<circ> er_Host) (Routes c)) \<and>
    0 < length (Routes c) \<and> ReadHeaderTimeout (Ingress c) \<noteq> 0 \<and> Drain c \<noteq> 0"
proof -
  from assms obtain c0 routes origins where load: "loadRoutes (env_fs env) (env_frag env) path (Routes c0) = Inr (routes, origins)"
    and c: "c = edge_defaults (c0\<lparr>Routes := routes\<rparr>)"
    and v: "edge_Validate (env_services env) (env_header env) c = None"
    and d: "checkRouteHosts (map er_Host (Routes c)) origins = None"
    by (auto simp: LoadEdge_def Let_def split: sum.splits option.splits)
  have "Routes c = routes" by (simp add: c edge_defaults_def)
  with d loadRoutes_length [OF load] have "distinct (map Normalize (map er_Host (Routes c)))"
    by (simp only: checkRouteHosts_None length_map)
  moreover from v have "valid_edge (env_services env) (env_header env) c" by (simp add: edge_Validate_None)
  moreover have "ReadHeaderTimeout (Ingress c) \<noteq> 0" "Drain c \<noteq> 0"
    by (auto simp: c edge_defaults_def default_duration_def second_def millisecond_def)
  ultimately show ?thesis by (simp add: valid_edge_def Let_def)
qed

text \<open>A wildcard's rest that starts like a host name: what \<open>Build\<close> stores for it is what the
  duplicate check compares.\<close>

definition plain_rest :: "string \<Rightarrow> bool" where
  "plain_rest s \<longleftrightarrow> s \<noteq> '''' \<and> \<not> is_space (hd s) \<and> hd s \<notin> {CHR ''['', CHR '':''}"

lemma IndexByte_append:
  "IndexByte (a @ b) c = (case IndexByte a c of Some i \<Rightarrow> Some i | None \<Rightarrow> map_option (\<lambda>i. i + length a) (IndexByte b c))"
  by (induction a) (auto simp: option.map_comp comp_def option.map_ident split: option.splits)

lemma LastIndexByte_append_absent:
  assumes "c \<notin> set a"
  shows "LastIndexByte (a @ s) c = map_option (\<lambda>i. i + length a) (LastIndexByte s c)"
proof (cases "IndexByte (rev s) c")
  case None
  moreover have "IndexByte (rev a) c = None" using assms by (simp add: IndexByte_None_iff)
  ultimately show ?thesis by (simp add: LastIndexByte_def IndexByte_append)
next
  case (Some i)
  then have "i < length s" by (simp add: IndexByte_Some_iff)
  with Some show ?thesis by (simp add: LastIndexByte_def IndexByte_append)
qed

lemma SplitHostPort_star:
  assumes "s = '''' \<or> hd s \<noteq> CHR ''[''"
  shows "SplitHostPort (''*.'' @ s) = map_sum id (\<lambda>(h, p). (''*.'' @ h, p)) (SplitHostPort s)"
proof (cases "LastIndexByte s (CHR '':'')")
  case None
  then show ?thesis by (simp add: SplitHostPort_def LastIndexByte_append_absent [of _ "''*.''", simplified])
next
  case (Some i)
  then have "s \<noteq> ''''" by (auto simp: LastIndexByte_def)
  with assms Some show ?thesis
    by (simp add: SplitHostPort_def LastIndexByte_append_absent [of _ "''*.''", simplified])
qed

lemma TrimSpace_star:
  assumes "s \<noteq> ''''" and "\<not> is_space (hd s)"
  shows "TrimSpace (''*.'' @ s) = ''*.'' @ TrimSpace s"
proof -
  have left: "dropWhile is_space s = s" using assms by (cases s) auto
  have "dropWhile is_space (''*.'' @ s) = ''*.'' @ s" by (simp add: is_space_def)
  moreover have "dropWhile is_space (rev (''*.'' @ s)) = dropWhile is_space (rev s) @ ''.*''"
  proof -
    have "hd s \<in> set (rev s)" using assms(1) by simp
    with assms(2) show ?thesis using dropWhile_append1 [of "hd s" "rev s" is_space "''.*''"] by simp
  qed
  ultimately show ?thesis using left by (simp add: TrimSpace_def)
qed

lemma TrimSpace_hd:
  assumes "s \<noteq> ''''" and "\<not> is_space (hd s)"
  shows "TrimSpace s \<noteq> '''' \<and> hd (TrimSpace s) = hd s"
proof -
  have left: "dropWhile is_space s = s" using assms by (cases s) auto
  obtain a t where s: "s = a # t" using assms(1) by (cases s) auto
  have "dropWhile is_space (rev t @ [a]) = dropWhile is_space (rev t) @ [a]"
    using assms(2) s by (induction "rev t" arbitrary: t) (auto simp: dropWhile_append)
  then show ?thesis using left s by (simp add: TrimSpace_def)
qed

lemma SplitHostPort_host_hd:
  assumes "SplitHostPort s = Inr (h, p)" and "hd s \<notin> {CHR ''['', CHR '':''}"
  shows "h \<noteq> ''''"
proof -
  from assms obtain i where i: "LastIndexByte s (CHR '':'') = Some i" "h = take i s"
    by (auto simp: SplitHostPort_def Let_def split: option.splits if_splits)
  from LastIndexByte_less [OF i(1)] have "i < length s" "s ! i = CHR '':''" by auto
  moreover from this have "i \<noteq> 0" using assms(2) by (cases s; cases i) auto
  ultimately show ?thesis using i(2) by auto
qed

lemma TrimSuffix_star: "h \<noteq> '''' \<Longrightarrow> TrimSuffix (''*.'' @ h) ''.'' = ''*.'' @ TrimSuffix h ''.''"
  by (cases h rule: rev_cases) (auto simp: TrimSuffix_def HasSuffix_def suffix_def)

lemma Normalize_star:
  assumes "plain_rest s"
  shows "Normalize (''*.'' @ s) = ''*.'' @ Normalize s"
proof -
  let ?t = "TrimSpace s"
  have t: "?t \<noteq> ''''" "hd ?t \<notin> {CHR ''['', CHR '':''}"
    using TrimSpace_hd [of s] assms by (auto simp: plain_rest_def)
  have trim: "TrimSpace (''*.'' @ s) = ''*.'' @ ?t"
    using TrimSpace_star [of s] assms by (simp add: plain_rest_def)
  have split: "SplitHostPort (''*.'' @ ?t) = map_sum id (\<lambda>(h, p). (''*.'' @ h, p)) (SplitHostPort ?t)"
    using t by (intro SplitHostPort_star) auto
  define h where "h = (case SplitHostPort ?t of Inr (h, _) \<Rightarrow> h | Inl _ \<Rightarrow> ?t)"
  have "h \<noteq> ''''" using t SplitHostPort_host_hd [of ?t] by (auto simp: h_def split: sum.splits)
  note dot = TrimSuffix_star [OF this]
  have "(case SplitHostPort (''*.'' @ ?t) of Inr (h, _) \<Rightarrow> h | Inl _ \<Rightarrow> ''*.'' @ ?t) = ''*.'' @ h"
    unfolding split by (auto simp: h_def split: sum.splits)
  then have "Normalize (''*.'' @ s) = ToLower (''*.'' @ TrimSuffix h ''.'')"
    by (simp only: Normalize_def Let_def trim dot)
  also have "\<dots> = ''*.'' @ Normalize s"
    by (simp add: Normalize_def Let_def h_def lower_def)
  finally show ?thesis .
qed

lemma pattern_key_Normalize:
  assumes "pattern_key p = pattern_key q"
    and "HasPrefix p ''*.'' \<Longrightarrow> plain_rest (drop 2 p)" and "HasPrefix q ''*.'' \<Longrightarrow> plain_rest (drop 2 q)"
  shows "Normalize p = Normalize q"
proof (cases "HasPrefix p ''*.'' \<and> p \<noteq> ''*''")
  case True
  with assms(1) have q: "HasPrefix q ''*.''" "Normalize (drop 2 p) = Normalize (drop 2 q)"
    by (auto simp: pattern_key_def split: if_splits)
  from True q(1) have "p = ''*.'' @ drop 2 p" "q = ''*.'' @ drop 2 q"
    by (auto simp: HasPrefix_def prefix_def)
  with Normalize_star [OF assms(2)] Normalize_star [OF assms(3)] True q show ?thesis by metis
next
  case False
  with assms(1) show ?thesis by (auto simp: pattern_key_def split: if_splits)
qed

lemma distinct_keys:
  assumes "distinct (map Normalize ps)" and "\<forall>p \<in> set ps. HasPrefix p ''*.'' \<longrightarrow> plain_rest (drop 2 p)"
  shows "distinct (map pattern_key ps)"
  using assms
proof (induction ps)
  case Nil
  then show ?case by simp
next
  case (Cons p ps)
  then have "pattern_key p \<noteq> pattern_key q" if "q \<in> set ps" for q
    using pattern_key_Normalize [of p q] that by auto
  with Cons show ?case by auto
qed

subsection \<open>Properties\<close>

abbreviation sample_route :: "string \<Rightarrow> fingerprint \<Rightarrow> EdgeRoute" where
  "sample_route h fp \<equiv> \<lparr>er_Host = h, AgentFingerprint = fp, AgentFingerprints = [], Balance = '''',
     AllowSharedCert = False, er_MaxConnections = 0, er_HTTP3 = None\<rparr>"

definition sample_edge :: EdgeConfig where
  "sample_edge = \<lparr>Ingress = \<lparr>Mode = ''proxied'', ing_Listen = '':80'', ing_TLS = \<lparr>tls_cert = '''', tls_key = ''''\<rparr>,
       ing_MaxConnections = 0, ReadHeaderTimeout = 0, IdleTimeout = 0,
       ing_HTTP3 = \<lparr>h3_Enabled = False, h3_Listen = '''', h3_AltSvc = ''''\<rparr>\<rparr>,
     Tunnel_cfg = \<lparr>tun_Listen = '':81'', tun_CA = ''c'', tun_Cert = ''d'', tun_Key = ''k'', ShareIngress = False\<rparr>,
     Routes = [sample_route ''*.a'' ''f'', sample_route ''b'' ''f''], Drain = 0, AgentWait = None,
     Log = \<lparr>Level = '''', Format = ''''\<rparr>, AdminSocket = '''', MetricsListen = '''', Version = ''''\<rparr>"

definition sample_env :: edge_env where
  "sample_env = \<lparr>env_fs = \<lparr>ReadFile = (\<lambda>_. Some ''''), ReadDir = (\<lambda>_. DirNotExist)\<rparr>,
     env_services = (\<lambda>_ _. None), env_header = (\<lambda>_. True), env_zero = sample_edge,
     env_decode = (\<lambda>_. DecodeEOF), env_frag = (\<lambda>_. DecodeEOF)\<rparr>"

lemma sample_valid: "edge_Validate services validHeader sample_edge = None"
proof -
  have "ValidatePattern ''*.a'' = None" "ValidatePattern ''b'' = None" by code_simp+
  then show ?thesis
    by (simp add: edge_Validate_None valid_edge_def Let_def sample_edge_def valid_edge_route_def
        valid_agents_def Fingerprints_def BalanceMode_def ServesHTTP3_def sharing_consistent_def
        AgentWaitDuration_def DefaultAgentWait_def second_def millisecond_def)
qed

lemma sample_load: "LoadEdge sample_env ''e'' = Inr (edge_defaults sample_edge)"
proof -
  have "Normalize ''*.a'' = ''*.a''" "Normalize ''b'' = ''b''" by code_simp+
  moreover have "edge_Validate services validHeader (edge_defaults sample_edge) = None" for services validHeader
    using sample_valid [of services validHeader] by (simp add: edge_Validate_None valid_edge_defaults)
  moreover have "sample_edge\<lparr>Routes := Routes sample_edge\<rparr> = sample_edge"
    "Routes (edge_defaults sample_edge) = Routes sample_edge" "map er_Host (Routes sample_edge) = [''*.a'', ''b'']"
    "length (Routes sample_edge) = 2"
    by (simp_all add: edge_defaults_def sample_edge_def)
  moreover from calculation
  have "checkRouteHosts [''*.a'', ''b''] (map (\<lambda>_. Base ''e'') (Routes sample_edge)) = None"
    by (simp add: checkRouteHosts_None)
  ultimately show ?thesis
    by (simp add: LoadEdge_def sample_env_def strictDecodeFile_def strictDecode_def loadRoutes_def readDropIns_def
        dropInFiles_def Let_def)
qed

text \<open>C15. \<open>edge_Validate\<close> accepts exactly the configurations the documentation allows:
  \<open>valid_edge\<close> spells the rules out without the order of the checks, the loop's maps or the
  second pass.\<close>

theorem edge_Validate_iff_valid:
  "edge_Validate services validHeader c = None \<longleftrightarrow> valid_edge services validHeader c"
  by (rule edge_Validate_None)

text \<open>In an accepted configuration a certificate is shared on every route that names it or on
  none: the registry's shared set, derived from the routes, agrees with each single route.\<close>

theorem sharing_is_per_certificate:
  assumes "edge_Validate services validHeader c = None" and "r \<in> set (Routes c)" and "fp \<in> set (Fingerprints r)"
  shows "(fp \<in> SharedFingerprints c \<longleftrightarrow> AllowSharedCert r) \<and> fp \<in> AllowedFingerprints c"
proof -
  from assms(1) have "sharing_consistent (Routes c)" by (simp add: edge_Validate_None valid_edge_def Let_def)
  with assms(2,3) show ?thesis
    unfolding SharedFingerprints_iff AllowedFingerprints_iff sharing_consistent_def by blast
qed

theorem sharing_is_per_certificate_witness:
  "(''f'' \<in> SharedFingerprints sample_edge \<longleftrightarrow> AllowSharedCert (sample_route ''b'' ''f'')) \<and> ''f'' \<in> AllowedFingerprints sample_edge"
  by (rule sharing_is_per_certificate [OF sample_valid [of "\<lambda>_ _. None" "\<lambda>_. True"]])
    (simp_all add: sample_edge_def Fingerprints_def)

text \<open>C28. A configuration that loads routes every host unambiguously: when the wildcards' rests
  start like host names, the matcher built from its routes resolves a host to the one best route.\<close>

theorem loaded_routes_unambiguous:
  assumes "LoadEdge env path = Inr c"
    and "\<forall>r \<in> set (Routes c). HasPrefix (er_Host r) ''*.'' \<longrightarrow> plain_rest (drop 2 (er_Host r))"
    and "es = map (\<lambda>r. \<lparr>Pattern = er_Host r, Value = r\<rparr>) (Routes c)"
  shows "distinct (map pattern_key (map er_Host (Routes c))) \<and>
    (Match (Build es) host = Some r \<longleftrightarrow> (\<exists>e. best_entry es (Normalize host) e \<and> Value e = r))"
proof -
  from LoadEdge_Inr [OF assms(1)] have "distinct (map Normalize (map er_Host (Routes c)))" by simp
  then have d: "distinct (map pattern_key (map er_Host (Routes c)))"
    using assms(2) by (intro distinct_keys) auto
  then have "distinct (map (\<lambda>e. pattern_key (Pattern e)) es)" by (simp add: assms(3) comp_def)
  from Match_Some_iff [OF this] d show ?thesis by blast
qed

theorem loaded_routes_unambiguous_witness:
  "distinct (map pattern_key (map er_Host (Routes (edge_defaults sample_edge))))"
proof -
  have "\<forall>r \<in> set (Routes (edge_defaults sample_edge)). HasPrefix (er_Host r) ''*.'' \<longrightarrow> plain_rest (drop 2 (er_Host r))"
    by (simp add: edge_defaults_def sample_edge_def plain_rest_def is_space_def HasPrefix_def)
  from loaded_routes_unambiguous [OF sample_load this refl] show ?thesis by blast
qed

text \<open>C37. Without that condition the duplicate check misses a clash: \<^verbatim>\<open>*.a\<close> and
  \<^verbatim>\<open>*. a\<close> are both valid patterns and pass as different hosts, but are stored under the
  same suffix, and the second route never gets a request.\<close>

theorem wildcard_clash_undetected:
  "ValidatePattern ''*.a'' = None \<and> ValidatePattern ''*. a'' = None \<and>
   checkRouteHosts [''*.a'', ''*. a''] [o1, o2] = None \<and>
   pattern_key ''*.a'' = pattern_key ''*. a'' \<and>
   Match (Build [\<lparr>Pattern = ''*.a'', Value = False\<rparr>, \<lparr>Pattern = ''*. a'', Value = True\<rparr>]) host \<noteq> Some True"
proof -
  have "Normalize ''*.a'' \<noteq> Normalize ''*. a''" by code_simp
  then have dup: "checkRouteHosts [''*.a'', ''*. a''] [o1, o2] = None" by (simp add: checkRouteHosts_None)
  let ?m = "Build [\<lparr>Pattern = ''*.a'', Value = False\<rparr>, \<lparr>Pattern = ''*. a'', Value = True\<rparr>]"
  have w: "wildcards ?m = [\<lparr>wsuffix = ''a'', wval = False\<rparr>, \<lparr>wsuffix = ''a'', wval = True\<rparr>]"
    and m: "mdefault ?m = None" by code_simp+
  have "exact ?m h = None" for h
    by (simp add: exact_Build is_exact_def HasPrefix_def)
  then have "Match ?m host \<noteq> Some True"
    by (simp add: Match_def w m Let_def wildcard_matches_def)
  moreover have "ValidatePattern ''*.a'' = None" "ValidatePattern ''*. a'' = None"
    "pattern_key ''*.a'' = pattern_key ''*. a''" by code_simp+
  ultimately show ?thesis using dup by blast
qed

text \<open>Two listeners compete for a socket or they do not, whichever is asked first, and an
  address that parses competes with itself.\<close>

lemma overlaps_sym: "overlaps a b = overlaps b a"
  by (auto simp: overlaps_def split: option.splits dest: EqualFold_sym)

lemma overlaps_refl: "parseEndpoint services a = Some e \<Longrightarrow> overlaps e e"
proof -
  have "\<exists>x. x \<in> set xs" if "hostIPs host = Some xs" for host xs
    using that by (auto simp: hostIPs_def loopback_ips_def split: option.splits if_splits)
  then show "parseEndpoint services a = Some e \<Longrightarrow> overlaps e e"
    by (auto simp: parseEndpoint_def overlaps_def Let_def split: option.splits if_splits)
qed

theorem listeners_overlap_symmetric:
  "ListenersOverlap services a b = ListenersOverlap services b a \<and>
   (ListenersOverlap services a a \<longleftrightarrow> SplitListen services a \<noteq> None)"
proof
  show "ListenersOverlap services a b = ListenersOverlap services b a"
    by (simp add: ListenersOverlap_def overlaps_sym split: option.splits)
  have "parseEndpoint services a = None \<longleftrightarrow> SplitListen services a = None"
    by (auto simp: parseEndpoint_def Let_def split: option.splits)
  then show "ListenersOverlap services a a \<longleftrightarrow> SplitListen services a \<noteq> None"
    by (auto simp: ListenersOverlap_def overlaps_refl split: option.splits)
qed

text \<open>Drop-in routes do not depend on the order in which the directory is listed: two
  listings with the same entries give the same routes, in the order of the file names.\<close>

lemma dropIns_loop_fs: "ReadFile fs = ReadFile fs' \<Longrightarrow> dropIns_loop fs dec path files = dropIns_loop fs' dec path files"
  by (induction files) (simp_all add: strictDecodeFile_def split: option.splits)

lemma sort_mset_cong: "mset xs = mset ys \<Longrightarrow> sort xs = sort ys"
  by (metis properties_for_sort mset_sort sorted_sort)

theorem drop_in_order:
  assumes "ReadDir fs (dropInDir path) = DirEntries es" and "ReadDir fs' (dropInDir path) = DirEntries es'"
    and "mset es = mset es'" and "ReadFile fs = ReadFile fs'"
  shows "readDropIns fs dec path = readDropIns fs' dec path"
proof -
  let ?f = "\<lambda>es. map (\<lambda>(name, _). Join [dropInDir path, name]) (filter (\<lambda>(name, isDir). \<not> isDir \<and> Ext name = ''.yaml'') es)"
  have "mset (?f es) = mset (?f es')" using assms(3) by (simp add: mset_map mset_filter)
  then have "sort (?f es) = sort (?f es')" by (rule sort_mset_cong)
  then have "dropInFiles fs path = dropInFiles fs' path" using assms(1,2) by (simp add: dropInFiles_def Let_def)
  then show ?thesis using dropIns_loop_fs [OF assms(4), of dec path] by (simp add: readDropIns_def split: sum.splits)
qed

theorem drop_in_order_witness:
  "readDropIns \<lparr>ReadFile = (\<lambda>_. Some ''''), ReadDir = (\<lambda>_. DirEntries [(''b.yaml'', False), (''a.yaml'', False)])\<rparr>
     (\<lambda>_. Decoded [sample_route ''h'' ''f'']) ''e.yaml'' =
   readDropIns \<lparr>ReadFile = (\<lambda>_. Some ''''), ReadDir = (\<lambda>_. DirEntries [(''a.yaml'', False), (''b.yaml'', False)])\<rparr>
     (\<lambda>_. Decoded [sample_route ''h'' ''f'']) ''e.yaml''"
  by (rule drop_in_order [where es = "[(''b.yaml'', False), (''a.yaml'', False)]" and
      es' = "[(''a.yaml'', False), (''b.yaml'', False)]"]) simp_all

end
