(* ===== verification/Balancer.thy ===== *)
theory Balancer
  imports Agent_Conn Config
begin

text \<open>
  The balancer of edge.go: \<open>pick\<close> and \<open>nextTurn\<close>. A candidate is a session of the route's
  agents; what \<open>pick\<close> reads of it while it runs is its cooldown and its open streams, given
  as functions of the session. The turn is a 64-bit counter.
\<close>

subsection \<open>Model\<close>

text \<open>\<^verbatim>\<open>eligible\<close> of pass \<open>p\<close>.\<close>

definition eligible :: "(agentConn \<Rightarrow> instant) \<Rightarrow> instant \<Rightarrow> agentConn set \<Rightarrow> nat \<Rightarrow> agentConn \<Rightarrow> bool" where
  "eligible cool now tried p c \<longleftrightarrow> c \<notin> tried \<and> (p = 1 \<or> cool c \<le> now)"

text \<open>The round-robin scan: the \<open>k\<close>-th eligible candidate.\<close>

fun rr_scan :: "(agentConn \<Rightarrow> bool) \<Rightarrow> nat \<Rightarrow> agentConn list \<Rightarrow> agentConn option" where
  "rr_scan el k [] = None"
| "rr_scan el k (c # cs) =
     (if el c then (if k = 0 then Some c else rr_scan el (k - 1) cs) else rr_scan el k cs)"

text \<open>The least-connections scan: the first of the fewest streams, in the order scanned.\<close>

fun lc_scan :: "(agentConn \<Rightarrow> bool) \<Rightarrow> (agentConn \<Rightarrow> int) \<Rightarrow> agentConn option \<Rightarrow> agentConn list \<Rightarrow> agentConn option" where
  "lc_scan el active best [] = best"
| "lc_scan el active best (c # cs) =
     (if el c \<and> (case best of None \<Rightarrow> True | Some b \<Rightarrow> active c < active b)
      then lc_scan el active (Some c) cs else lc_scan el active best cs)"

text \<open>One pass. Scanning from \<open>start\<close> round to \<open>start - 1\<close> is scanning the rotated list.\<close>

definition pick_pass :: "string \<Rightarrow> (agentConn \<Rightarrow> bool) \<Rightarrow> (agentConn \<Rightarrow> int) \<Rightarrow> agentConn list \<Rightarrow> 64 word \<Rightarrow> agentConn option" where
  "pick_pass balance el active cands turn =
     (if balance = BalanceRoundRobin then
        (let count = length (filter el cands)
         in if count = 0 then None else rr_scan el (unat turn mod count) cands)
      else
        (let start = unat turn mod length cands
         in lc_scan el active None (drop start cands @ take start cands)))"

text \<open>\<^verbatim>\<open>pick\<close>: a pass over the sessions not cooling down, then one over all. The choice joins
  \<open>tried\<close>.\<close>

definition pick :: "string \<Rightarrow> (agentConn \<Rightarrow> instant) \<Rightarrow> (agentConn \<Rightarrow> int) \<Rightarrow> instant \<Rightarrow>
    agentConn list \<Rightarrow> agentConn set \<Rightarrow> 64 word \<Rightarrow> agentConn option \<times> agentConn set" where
  "pick balance cool active now cands tried turn =
     (if cands = [] then (None, tried)
      else
        (let idx = (case pick_pass balance (eligible cool now tried 0) active cands turn of
                None \<Rightarrow> pick_pass balance (eligible cool now tried 1) active cands turn
              | Some c \<Rightarrow> Some c)
         in case idx of None \<Rightarrow> (None, tried) | Some c \<Rightarrow> (Some c, insert c tried)))"

text \<open>\<^verbatim>\<open>pickReserve\<close>: the pick, and the open streams of every session once the new one is
  counted. Under \<^verbatim>\<open>least_conn\<close> with several candidates both happen under the edge's pick
  lock, so no other pick sees the counts in between.\<close>

definition pickReserve :: "string \<Rightarrow> (agentConn \<Rightarrow> instant) \<Rightarrow> (agentConn \<Rightarrow> int) \<Rightarrow> instant \<Rightarrow>
    agentConn list \<Rightarrow> agentConn set \<Rightarrow> 64 word \<Rightarrow> (agentConn option \<times> agentConn set) \<times> (agentConn \<Rightarrow> int)" where
  "pickReserve balance cool active now cands tried turn =
     (let ct = pick balance cool active now cands tried turn
      in (ct, case fst ct of None \<Rightarrow> active | Some c \<Rightarrow> active(c := active c + 1)))"

lemma fst_pickReserve [simp]:
  "fst (pickReserve balance cool active now cands tried turn) = pick balance cool active now cands tried turn"
  by (simp add: pickReserve_def Let_def)

text \<open>\<^verbatim>\<open>nextTurn\<close>: \<^verbatim>\<open>rs.rr.Add(1) - 1\<close>.\<close>

definition nextTurn :: "64 word \<Rightarrow> 64 word \<times> 64 word" where
  "nextTurn rr = (let rr' = rr + 1 in (rr' - 1, rr'))"

subsection \<open>The scans\<close>

lemma rr_scan_nth:
  "rr_scan el k cs = (if k < length (filter el cs) then Some (filter el cs ! k) else None)"
proof (induction cs arbitrary: k)
  case Nil
  then show ?case by simp
next
  case (Cons c cs)
  then show ?case by (cases k) auto
qed

lemma lc_scan_in: "lc_scan el active best cs = Some c \<Longrightarrow> best = Some c \<or> c \<in> set cs \<and> el c"
  by (induction cs arbitrary: best) (auto split: if_splits option.splits)

lemma lc_scan_None: "lc_scan el active best cs = None \<longleftrightarrow> best = None \<and> (\<forall>c \<in> set cs. \<not> el c)"
  by (induction cs arbitrary: best) (auto split: option.splits)

lemma lc_scan_least:
  assumes "lc_scan el active best cs = Some c"
  shows "(\<forall>b. best = Some b \<longrightarrow> active c \<le> active b) \<and> (\<forall>d \<in> set cs. el d \<longrightarrow> active c \<le> active d)"
  using assms
proof (induction cs arbitrary: best)
  case Nil
  then show ?case by simp
next
  case (Cons d cs)
  show ?case
  proof (cases "el d \<and> (case best of None \<Rightarrow> True | Some b \<Rightarrow> active d < active b)")
    case True
    with Cons.prems have "lc_scan el active (Some d) cs = Some c" by simp
    from Cons.IH [OF this] True show ?thesis by (cases best) auto
  next
    case False
    with Cons.prems have "lc_scan el active best cs = Some c" by simp
    from Cons.IH [OF this] False show ?thesis by (cases best) auto
  qed
qed

lemma set_rotated: "set (drop n xs @ take n xs) = set xs"
  by (metis Un_commute append_take_drop_id set_append)

lemma pick_pass_None: "pick_pass balance el active cands turn = None \<longleftrightarrow> (\<forall>c \<in> set cands. \<not> el c)"
proof (cases "balance = BalanceRoundRobin")
  case True
  then show ?thesis by (auto simp: pick_pass_def Let_def rr_scan_nth filter_empty_conv)
next
  case False
  then show ?thesis by (simp add: pick_pass_def Let_def lc_scan_None flip: set_append) (metis UnE UnI1 UnI2 set_append set_rotated)
qed

lemma pick_pass_Some: "pick_pass balance el active cands turn = Some c \<Longrightarrow> c \<in> set cands \<and> el c"
proof (cases "balance = BalanceRoundRobin")
  case True
  assume "pick_pass balance el active cands turn = Some c"
  with True have "length (filter el cands) \<noteq> 0"
    and "c = filter el cands ! (unat turn mod length (filter el cands))"
    by (auto simp: pick_pass_def Let_def rr_scan_nth split: if_splits)
  then have "c \<in> set (filter el cands)" by (metis mod_less_divisor neq0_conv nth_mem)
  then show ?thesis by simp
next
  case False
  assume "pick_pass balance el active cands turn = Some c"
  with False show ?thesis
    by (auto simp: pick_pass_def Let_def dest!: lc_scan_in dest: in_set_dropD in_set_takeD)
qed

lemma pick_pass_least:
  assumes "balance \<noteq> BalanceRoundRobin" and "pick_pass balance el active cands turn = Some c"
    and "d \<in> set cands" and "el d"
  shows "active c \<le> active d"
proof -
  let ?s = "unat turn mod length cands"
  from assms have "lc_scan el active None (drop ?s cands @ take ?s cands) = Some c"
    by (simp add: pick_pass_def Let_def)
  moreover have "d \<in> set (drop ?s cands @ take ?s cands)" using assms(3) by (simp only: set_rotated)
  ultimately show ?thesis using lc_scan_least assms(4) by blast
qed

subsection \<open>pick\<close>

lemma pick_None:
  "fst (pick balance cool active now cands tried turn) = None \<longleftrightarrow> set cands \<subseteq> tried"
  by (auto simp: pick_def Let_def pick_pass_None eligible_def split: option.splits dest!: pick_pass_Some)

lemma pick_cases:
  assumes "pick balance cool active now cands tried turn = (Some c, tried')"
  obtains p where "p \<le> 1" "pick_pass balance (eligible cool now tried p) active cands turn = Some c"
    "p = 1 \<Longrightarrow> \<forall>d \<in> set cands. \<not> eligible cool now tried 0 d" "tried' = insert c tried"
proof (cases "pick_pass balance (eligible cool now tried 0) active cands turn")
  case None
  then have "\<forall>d \<in> set cands. \<not> eligible cool now tried 0 d" by (simp only: pick_pass_None)
  with assms None that [of 1] show ?thesis
    by (auto simp: pick_def Let_def split: if_splits option.splits)
next
  case (Some d)
  with assms that [of 0] show ?thesis by (auto simp: pick_def Let_def split: if_splits)
qed

lemma pick_Some:
  assumes "pick balance cool active now cands tried turn = (Some c, tried')"
  shows "c \<in> set cands" "c \<notin> tried" "tried' = insert c tried"
    "(\<exists>d \<in> set cands. d \<notin> tried \<and> cool d \<le> now) \<Longrightarrow> cool c \<le> now"
  using assms by (auto elim!: pick_cases dest!: pick_pass_Some simp: eligible_def le_Suc_eq)

lemma pick_tried: "snd (pick balance cool active now cands tried turn) =
    (case fst (pick balance cool active now cands tried turn) of None \<Rightarrow> tried | Some c \<Rightarrow> insert c tried)"
  by (auto simp: pick_def Let_def split: option.splits)

subsection \<open>Properties\<close>

lemma pick_pass_rr:
  "pick_pass BalanceRoundRobin el active cands turn =
     (if filter el cands = [] then None else Some (filter el cands ! (unat turn mod length (filter el cands))))"
  by (auto simp: pick_pass_def Let_def rr_scan_nth)

lemma unat_plus_small: "unat (turn :: 64 word) + i < 2 ^ 64 \<Longrightarrow> unat (turn + of_nat i) = unat turn + i"
  by (simp add: unat_word_ariths unat_of_nat)

text \<open>The balancer gives up only when every candidate has been tried; otherwise it takes a
  candidate not tried yet, marks it tried, and prefers one that is not cooling down.\<close>

theorem pick_sound:
  "(fst (pick balance cool active now cands tried turn) = None \<longleftrightarrow> set cands \<subseteq> tried) \<and>
   (\<forall>c tried'. pick balance cool active now cands tried turn = (Some c, tried') \<longrightarrow>
      c \<in> set cands \<and> c \<notin> tried \<and> tried' = insert c tried \<and>
      ((\<exists>d \<in> set cands. d \<notin> tried \<and> cool d \<le> now) \<longrightarrow> cool c \<le> now))"
  using pick_None pick_Some [of balance cool active now cands tried turn] by meson

abbreviation conn_a :: agentConn where
  "conn_a \<equiv> \<lparr>cfp = ''f'', csess = 1, cv2 = True\<rparr>"

abbreviation conn_b :: agentConn where
  "conn_b \<equiv> \<lparr>cfp = ''g'', csess = 2, cv2 = True\<rparr>"

lemma sample_pick:
  "pick BalanceLeastConn (\<lambda>_. 0) (\<lambda>c. if csess c = 1 then 3 else 2) 5 [conn_a, conn_b] {} 0 = (Some conn_b, {conn_b})"
  by (simp add: pick_def pick_pass_def BalanceLeastConn_def BalanceRoundRobin_def eligible_def Let_def)

theorem pick_sound_witness:
  "conn_b \<in> set [conn_a, conn_b] \<and> conn_b \<notin> {} \<and> {conn_b} = insert conn_b {}"
  using pick_sound [of BalanceLeastConn "\<lambda>_. 0" "\<lambda>c. if csess c = 1 then 3 else 2" 5 "[conn_a, conn_b]" "{}" 0]
    sample_pick by blast

text \<open>Under \<^verbatim>\<open>least_conn\<close> the session chosen has the fewest open streams of all the
  sessions it could have been: of those not tried and not cooling down, or, when there is none,
  of those not tried.\<close>

theorem pick_least_conn:
  assumes "pick BalanceLeastConn cool active now cands tried turn = (Some c, tried')"
    and "d \<in> set cands" and "d \<notin> tried" and "cool d \<le> now \<or> now < cool c"
  shows "active c \<le> active d"
proof -
  from assms(1) obtain p where p: "p \<le> 1"
    "pick_pass BalanceLeastConn (eligible cool now tried p) active cands turn = Some c" by (rule pick_cases)
  have "eligible cool now tried p d"
    using assms(3,4) pick_pass_Some [OF p(2)] p(1) by (auto simp: eligible_def le_Suc_eq)
  moreover have "BalanceLeastConn \<noteq> BalanceRoundRobin" by (simp add: BalanceLeastConn_def BalanceRoundRobin_def)
  ultimately show ?thesis using pick_pass_least [OF _ p(2) assms(2)] by blast
qed

theorem pick_least_conn_witness:
  "(\<lambda>c. if csess c = 1 then 3 else 2 :: int) conn_b \<le> (\<lambda>c. if csess c = 1 then 3 else 2 :: int) conn_a"
  by (rule pick_least_conn [OF sample_pick]) simp_all

text \<open>Round robin is fair: \<open>m\<close> consecutive turns over \<open>m\<close> sessions that are not cooling
  down choose each of them once, in the list's order from where the rotation stands. (The turns
  are consecutive 64-bit numbers; only the wrap-around after \<open>2 ^ 64\<close> requests may skip one.)\<close>

theorem round_robin_fair:
  assumes "el = filter (\<lambda>c. cool c \<le> now) cands" and "el \<noteq> []" and "unat turn + length el \<le> 2 ^ 64"
  shows "map (\<lambda>i. fst (pick BalanceRoundRobin cool active now cands {} (turn + of_nat i))) [0..<length el] =
    map Some (rotate (unat turn) el)"
proof (rule nth_equalityI)
  fix i
  assume "i < length (map (\<lambda>i. fst (pick BalanceRoundRobin cool active now cands {} (turn + of_nat i))) [0..<length el])"
  then have i: "i < length el" by simp
  have el: "filter (eligible cool now {} 0) cands = el"
    using assms(1) by (simp add: eligible_def [abs_def])
  have "fst (pick BalanceRoundRobin cool active now cands {} (turn + of_nat i)) =
      Some (el ! ((unat turn + i) mod length el))"
    using assms i unat_plus_small [of turn i]
    by (auto simp: pick_def pick_pass_rr el Let_def)
  then show "map (\<lambda>i. fst (pick BalanceRoundRobin cool active now cands {} (turn + of_nat i))) [0..<length el] ! i =
      map Some (rotate (unat turn) el) ! i"
    using i by (simp add: nth_rotate add.commute)
qed simp

theorem round_robin_fair_witness:
  "map (\<lambda>i. fst (pick BalanceRoundRobin (\<lambda>_. 0) (\<lambda>_. 0) 5 [conn_a, conn_b] {} (3 + of_nat i)))
     [0..<length [conn_a, conn_b]] = map Some (rotate 3 [conn_a, conn_b])"
  using round_robin_fair [of "[conn_a, conn_b]" "\<lambda>_. 0" 5 "[conn_a, conn_b]" 3 "\<lambda>_. 0"] by simp

text \<open>A burst: requests that pick and reserve one after another, each with its own turn.\<close>

fun burst :: "(agentConn \<Rightarrow> instant) \<Rightarrow> instant \<Rightarrow> agentConn list \<Rightarrow> 64 word list \<Rightarrow> (agentConn \<Rightarrow> int) \<Rightarrow> agentConn \<Rightarrow> int" where
  "burst cool now cands [] active = active"
| "burst cool now cands (turn # turns) active =
     burst cool now cands turns (snd (pickReserve BalanceLeastConn cool active now cands {} turn))"

definition even_load :: "agentConn list \<Rightarrow> (agentConn \<Rightarrow> int) \<Rightarrow> bool" where
  "even_load cands active \<longleftrightarrow> (\<forall>c \<in> set cands. \<forall>d \<in> set cands. active c \<le> active d + 1)"

lemma pick_least_all:
  assumes "pick BalanceLeastConn cool active now cands {} turn = (Some c, tried')"
    and "\<forall>d \<in> set cands. cool d \<le> now" and "d \<in> set cands"
  shows "active c \<le> active d"
proof -
  from assms(1) obtain p where p: "p \<le> 1"
    "pick_pass BalanceLeastConn (eligible cool now {} p) active cands turn = Some c" by (rule pick_cases)
  moreover have "eligible cool now {} p d" using assms(2,3) by (simp add: eligible_def)
  moreover have "BalanceLeastConn \<noteq> BalanceRoundRobin" by (simp add: BalanceLeastConn_def BalanceRoundRobin_def)
  ultimately show ?thesis using pick_pass_least [OF _ p(2) assms(3)] by blast
qed

lemma even_load_reserve:
  assumes "even_load cands active" and "\<forall>d \<in> set cands. cool d \<le> now"
  shows "even_load cands (snd (pickReserve BalanceLeastConn cool active now cands {} turn))"
proof (cases "fst (pick BalanceLeastConn cool active now cands {} turn)")
  case None
  with assms(1) show ?thesis by (simp add: pickReserve_def Let_def)
next
  case (Some c)
  then obtain tried' where p: "pick BalanceLeastConn cool active now cands {} turn = (Some c, tried')"
    by (metis prod.collapse)
  have "active c \<le> active d" if "d \<in> set cands" for d by (rule pick_least_all [OF p assms(2) that])
  moreover have "active d \<le> active c + 1" if "d \<in> set cands" for d
    using assms(1) pick_Some(1) [OF p] that by (simp add: even_load_def)
  ultimately show ?thesis using assms(1)
    by (force simp: pickReserve_def p even_load_def)
qed

text \<open>A burst under \<^verbatim>\<open>least_conn\<close> spreads: while the sessions' open streams differ by at
  most one and none cools down, any number of picks that reserve as they choose keeps it so.\<close>

theorem least_conn_burst_even:
  assumes "even_load cands active" and "\<forall>d \<in> set cands. cool d \<le> now"
  shows "even_load cands (burst cool now cands turns active)"
  using assms by (induction turns arbitrary: active) (simp_all add: even_load_reserve)

theorem least_conn_burst_even_witness:
  "even_load [conn_a, conn_b] (burst (\<lambda>_. 0) 5 [conn_a, conn_b] [0, 1, 2] (\<lambda>_. 0))"
  by (rule least_conn_burst_even) (simp_all add: even_load_def)

end
