(* ===== verification/Dispatch.thy ===== *)
theory Dispatch
  imports Balancer
begin

text \<open>
  Handing a request to an agent (edge.go): \<open>tryAgent\<close>, \<open>untried\<close>, \<open>dispatchOnce\<close> and
  \<open>dispatch\<close>. These run outside every lock, so what they observe (the clock, other requests'
  changes of counters and cooldowns, sessions that join, what a stream does) is given to them:
  a \<open>try_env\<close> per attempt, an \<open>iteration\<close> per turn of \<open>dispatchOnce\<close>'s loop, a
  \<open>round\<close> per turn of \<open>dispatch\<close>'s. A loop whose observations run out has not returned
  (\<open>None\<close>). Logging is left out; every counter is kept.
\<close>

subsection \<open>One attempt\<close>

datatype attempt = attemptOK | attemptUnavailable | attemptFailed | attemptUnknown

text \<open>What a failed attempt does to the session.\<close>

datatype conn_action = Retire | Evict | CoolFor duration | Leave

record try_env =
  te_open :: "open_error option"  \<comment> \<open>openUnlessRetired's error\<close>
  te_gone_open :: bool  \<comment> \<open>the session is closed, asked after a failed open\<close>
  te_write :: "io_error option"  \<comment> \<open>version 1: the preamble's write\<close>
  te_gone_write :: bool
  te_window :: duration  \<comment> \<open>what is left of wait after the open\<close>
  te_accept :: "accept_error option"  \<comment> \<open>version 2: AwaitAccept's error\<close>
  te_gone_accept :: bool
  te_send :: "io_error option"  \<comment> \<open>version 2: sendHead's error\<close>
  te_gone_send :: bool

record try_result =
  tr_outcome :: attempt
  tr_released :: bool  \<comment> \<open>the reservation was given back (StreamClosed)\<close>
  tr_stream :: bool  \<comment> \<open>the stream is handed to the caller\<close>
  tr_action :: conn_action
  tr_wrote :: bytes  \<comment> \<open>what was given to the stream's Write\<close>

definition streamRefused :: "io_error \<Rightarrow> bool" where
  "streamRefused err \<longleftrightarrow> err = ErrConnectionReset \<or> err = ErrStreamClosed"

definition stalledAfter :: "duration \<Rightarrow> conn_action" where
  "stalledAfter silent = (if acceptWait div 2 \<le> silent then CoolFor (2 * acceptWait) else Leave)"

definition try_fail :: "bytes \<Rightarrow> attempt \<Rightarrow> conn_action \<Rightarrow> try_result" where
  "try_fail wrote o' act =
     \<lparr>tr_outcome = o', tr_released = True, tr_stream = False, tr_action = act, tr_wrote = wrote\<rparr>"

definition try_ok :: "bytes \<Rightarrow> try_result" where
  "try_ok wrote =
     \<lparr>tr_outcome = attemptOK, tr_released = False, tr_stream = True, tr_action = Leave, tr_wrote = wrote\<rparr>"

definition tryAgent :: "bool \<Rightarrow> bytes \<Rightarrow> bytes \<Rightarrow> try_env \<Rightarrow> try_result" where
  "tryAgent v2 preamble head env = (case te_open env of
      Some err \<Rightarrow>
        if err = ErrRetired \<or> err = ErrRemoteGoAway then try_fail [] attemptUnavailable Retire
        else if te_gone_open env then try_fail [] attemptUnavailable Evict
        else if err = ErrOpenTimeout then try_fail [] attemptFailed Leave
        else if err = ErrOpenBlocked then try_fail [] attemptFailed (CoolFor (2 * acceptWait))
        else try_fail [] attemptFailed Evict
    | None \<Rightarrow>
        if \<not> v2 then
          (case te_write env of
             Some err \<Rightarrow>
               if te_gone_write env then try_fail preamble attemptUnavailable Evict
               else if streamRefused err then try_fail preamble attemptUnavailable (CoolFor cooldown)
               else try_fail preamble attemptFailed (CoolFor cooldown)
           | None \<Rightarrow> try_ok preamble)
        else
          (case te_accept env of
             Some err \<Rightarrow>
               if te_gone_accept env then try_fail [] attemptUnavailable Evict
               else if err = ErrRefused then try_fail [] attemptUnavailable (CoolFor cooldown)
               else if err = ErrBadAccept then try_fail [] attemptFailed Evict
               else try_fail [] attemptFailed (stalledAfter (te_window env))
           | None \<Rightarrow>
               (case te_send env of
                  Some err \<Rightarrow>
                    if te_gone_send env then try_fail (preamble @ head) attemptUnknown Evict
                    else try_fail (preamble @ head) attemptUnknown (CoolFor cooldown)
                | None \<Rightarrow> try_ok (preamble @ head))))"

lemma tryAgent_retry_safe:
  "tr_outcome (tryAgent v2 preamble head env) \<in> {attemptUnavailable, attemptFailed} \<Longrightarrow>
   tr_wrote (tryAgent v2 preamble head env) = (if v2 \<or> te_open env \<noteq> None then [] else preamble)"
  by (auto simp: tryAgent_def try_fail_def try_ok_def split: option.splits if_splits)

lemma tryAgent_released: "tr_released (tryAgent v2 preamble head env) \<longleftrightarrow>
    tr_outcome (tryAgent v2 preamble head env) \<noteq> attemptOK"
  by (auto simp: tryAgent_def try_fail_def try_ok_def split: option.splits if_splits)

lemma tryAgent_stream: "tr_stream (tryAgent v2 preamble head env) \<longleftrightarrow>
    tr_outcome (tryAgent v2 preamble head env) = attemptOK"
  by (auto simp: tryAgent_def try_fail_def try_ok_def split: option.splits if_splits)

lemma tryAgent_ok_wrote:
  "tr_outcome (tryAgent v2 preamble head env) = attemptOK \<Longrightarrow>
   tr_wrote (tryAgent v2 preamble head env) = (if v2 then preamble @ head else preamble)"
  by (auto simp: tryAgent_def try_fail_def try_ok_def split: option.splits if_splits)

subsection \<open>The sessions left to try\<close>

text \<open>\<^verbatim>\<open>evict\<close> as far as the pool goes; closing the session is the environment's step.\<close>

definition evict_pool :: "agentConn \<Rightarrow> registry \<Rightarrow> registry" where
  "evict_pool c r = take_session (cfp c) (csess c) r"

definition untried :: "(session \<Rightarrow> bool) \<Rightarrow> fingerprint list \<Rightarrow> agentConn set \<Rightarrow> registry \<Rightarrow> agentConn list \<times> registry" where
  "untried closed fps attempted r =
     (let (live, dead) = candidates closed fps r;
          r' = foldl (\<lambda>r c. evict_pool c r) r dead
      in if attempted = {} then (live, r') else (filter (\<lambda>c. c \<notin> attempted) live, r'))"

text \<open>The same over a list of live sessions observed.\<close>

definition fresh_of :: "agentConn list \<Rightarrow> agentConn set \<Rightarrow> agentConn list" where
  "fresh_of live attempted = filter (\<lambda>c. c \<notin> attempted) live"

lemma untried_fresh_of:
  "fst (untried closed fps attempted r) = fresh_of (fst (candidates closed fps r)) attempted"
  by (simp add: untried_def fresh_of_def candidates_def Let_def)

subsection \<open>One round: dispatchOnce\<close>

datatype dispatch_why = WhyOK | NoSessionWhy | NoAgentWhy | WhyPreamble | WhyStreamError | WhySendError

record iteration =
  it_wait :: duration  \<comment> \<open>time until the request's deadline\<close>
  it_now :: instant
  it_cool :: "agentConn \<Rightarrow> instant"
  it_active :: "agentConn \<Rightarrow> int"
  it_live :: "agentConn list"  \<comment> \<open>the route's live sessions, when the list is exhausted\<close>
  it_now_last :: instant  \<comment> \<open>clock and cooldowns again, once a session is picked\<close>
  it_cool_last :: "agentConn \<Rightarrow> instant"
  it_cooled :: "agentConn \<Rightarrow> instant"  \<comment> \<open>the cooldown just before the attempt\<close>
  it_live_last :: "agentConn list"  \<comment> \<open>the live sessions, when the pick was the last listed\<close>
  it_try :: "agentConn \<Rightarrow> duration \<Rightarrow> try_env"

record tried_session =
  ts_conn :: agentConn
  ts_wait :: duration
  ts_left :: duration  \<comment> \<open>the request's time left when it was tried\<close>
  ts_result :: try_result

record once_result =
  or_why :: dispatch_why
  or_chosen :: "agentConn option"
  or_uncool :: "instant option"  \<comment> \<open>the cooldown CompareAndSwap clears on the chosen session\<close>
  or_trace :: "tried_session list"

text \<open>Whether no listed session is left to try (\<^verbatim>\<open>!slices.ContainsFunc(cands, untried)\<close>).\<close>

definition all_tried :: "agentConn list \<Rightarrow> agentConn set \<Rightarrow> bool" where
  "all_tried cands tried \<longleftrightarrow> (\<forall>c \<in> set cands. c \<in> tried)"

fun once_loop :: "string \<Rightarrow> bytes \<Rightarrow> bytes \<Rightarrow> 64 word \<Rightarrow> agentConn list \<Rightarrow> agentConn set \<Rightarrow>
    nat \<Rightarrow> nat \<Rightarrow> tried_session list \<Rightarrow> iteration list \<Rightarrow> once_result option" where
  "once_loop balance preamble head turn cands tried attempts unavailable trace [] = None"
| "once_loop balance preamble head turn cands tried attempts unavailable trace (it # its) =
     (let wait = it_wait it;
          (c, tried') = (if 0 < wait
             then fst (pickReserve balance (it_cool it) (it_active it) (it_now it) cands tried turn)
             else (None, tried));
          fresh = fresh_of (it_live it) tried'
      in case c of
           None \<Rightarrow>
             if 0 < wait \<and> fresh \<noteq> [] then
               once_loop balance preamble head turn fresh tried' attempts unavailable trace its
             else if unavailable = attempts then
               Some \<lparr>or_why = NoAgentWhy, or_chosen = None, or_uncool = None, or_trace = trace\<rparr>
             else Some \<lparr>or_why = WhyStreamError, or_chosen = None, or_uncool = None, or_trace = trace\<rparr>
         | Some c \<Rightarrow>
             (let attempts = attempts + 1;
                  lastListed = (it_cool_last it c \<le> it_now_last it \<and> all_tried cands tried');
                  fresh = (if lastListed \<and> 1 < attempts then fresh_of (it_live_last it) tried' else []);
                  cands' = (if fresh \<noteq> [] then cands @ fresh else cands);
                  attemptWait = (if lastListed \<and> fresh = [] then wait else min wait acceptWait);
                  res = tryAgent (cv2 c) preamble head (it_try it c attemptWait);
                  trace' = trace @ [\<lparr>ts_conn = c, ts_wait = attemptWait, ts_left = wait, ts_result = res\<rparr>]
              in case tr_outcome res of
                   attemptOK \<Rightarrow> Some \<lparr>or_why = WhyOK, or_chosen = Some c,
                     or_uncool = Some (it_cooled it c), or_trace = trace'\<rparr>
                 | attemptUnavailable \<Rightarrow>
                     once_loop balance preamble head turn cands' tried' attempts (unavailable + 1) trace' its
                 | attemptFailed \<Rightarrow>
                     once_loop balance preamble head turn cands' tried' attempts unavailable trace' its
                 | attemptUnknown \<Rightarrow> Some \<lparr>or_why = WhySendError, or_chosen = None, or_uncool = None, or_trace = trace'\<rparr>))"

text \<open>
  \<^verbatim>\<open>dispatchOnce\<close>: the live sessions found at the start, the preamble, the route's rotation
  counter; it returns the new counter with the result.
\<close>

definition dispatchOnce :: "string \<Rightarrow> agentConn list \<Rightarrow> Preamble \<Rightarrow> bytes \<Rightarrow> 64 word \<Rightarrow> iteration list \<Rightarrow>
    (once_result \<times> 64 word) option" where
  "dispatchOnce balance cands p head rr its =
     (if cands = [] then Some (\<lparr>or_why = NoSessionWhy, or_chosen = None, or_uncool = None, or_trace = []\<rparr>, rr)
      else (case EncodePreamble p of
          Inl _ \<Rightarrow> Some (\<lparr>or_why = WhyPreamble, or_chosen = None, or_uncool = None, or_trace = []\<rparr>, rr)
        | Inr preamble \<Rightarrow>
            (let (turn, rr') = nextTurn rr
             in map_option (\<lambda>res. (res, rr')) (once_loop balance preamble head turn cands {} 0 0 [] its))))"

text \<open>The failures \<open>dispatchOnce\<close> counts on the route itself.\<close>

definition counts_stream_error :: "dispatch_why \<Rightarrow> bool" where
  "counts_stream_error why \<longleftrightarrow> why \<in> {WhyPreamble, WhyStreamError, WhySendError}"

subsection \<open>The rounds: dispatch\<close>

datatype wake = Joined | TimerFired | CtxDone | Stopping

record round =
  rd_cands :: "agentConn list"  \<comment> \<open>the route's live sessions at the start of the round\<close>
  rd_its :: "iteration list"
  rd_left :: duration  \<comment> \<open>time until the wait runs out, asked after the round\<close>
  rd_wake :: wake  \<comment> \<open>what ends the pause\<close>

datatype refusal = noAgent | streamFailed

record dispatch_result =
  dr_chosen :: "agentConn option"
  dr_refused :: "refusal option"
  dr_waits :: nat  \<comment> \<open>AgentWait counts\<close>
  dr_noAgent :: nat  \<comment> \<open>ReasonNoAgent counts\<close>
  dr_streamError :: nat  \<comment> \<open>ReasonStreamError counts\<close>
  dr_rr :: "64 word"
  dr_trace :: "tried_session list"  \<comment> \<open>the attempts of every round\<close>

fun dispatch_loop :: "string \<Rightarrow> Preamble \<Rightarrow> bytes \<Rightarrow> duration \<Rightarrow> bool \<Rightarrow> nat \<Rightarrow> 64 word \<Rightarrow>
    tried_session list \<Rightarrow> round list \<Rightarrow> dispatch_result option" where
  "dispatch_loop balance p head wait waiting waits rr trace [] = None"
| "dispatch_loop balance p head wait waiting waits rr trace (rd # rds) =
     (case dispatchOnce balance (rd_cands rd) p head rr (rd_its rd) of
        None \<Rightarrow> None
      | Some (once, rr') \<Rightarrow>
          (let trace' = trace @ or_trace once; w = or_why once
           in if w = WhyOK then
                Some \<lparr>dr_chosen = or_chosen once, dr_refused = None, dr_waits = waits, dr_noAgent = 0,
                  dr_streamError = 0, dr_rr = rr', dr_trace = trace'\<rparr>
              else if w = NoSessionWhy \<or> w = NoAgentWhy then
                (let start = (\<not> waiting \<and> 0 < wait);
                     waiting' = (waiting \<or> start);
                     waits' = (if start then waits + 1 else waits);
                     giveUp = Some \<lparr>dr_chosen = None, dr_refused = Some noAgent, dr_waits = waits', dr_noAgent = 1,
                       dr_streamError = 0, dr_rr = rr', dr_trace = trace'\<rparr>
                 in if waiting' \<and> 0 < rd_left rd then
                      (case rd_wake rd of
                         Joined \<Rightarrow> dispatch_loop balance p head wait waiting' waits' rr' trace' rds
                       | TimerFired \<Rightarrow> dispatch_loop balance p head wait waiting' waits' rr' trace' rds
                       | CtxDone \<Rightarrow> giveUp
                       | Stopping \<Rightarrow> giveUp)
                    else giveUp)
              else Some \<lparr>dr_chosen = None, dr_refused = Some streamFailed, dr_waits = waits, dr_noAgent = 0,
                dr_streamError = (if counts_stream_error w then 1 else 0), dr_rr = rr', dr_trace = trace'\<rparr>))"

definition dispatch :: "string \<Rightarrow> Preamble \<Rightarrow> bytes \<Rightarrow> duration \<Rightarrow> 64 word \<Rightarrow> round list \<Rightarrow> dispatch_result option" where
  "dispatch balance p head agentWait rr rds = dispatch_loop balance p head agentWait False 0 rr [] rds"

subsection \<open>What a round promises\<close>

text \<open>An attempt that left nothing of the request with the agent: the edge may go on to
  another session.\<close>

definition retryable :: "bytes \<Rightarrow> tried_session \<Rightarrow> bool" where
  "retryable preamble t \<longleftrightarrow> tr_outcome (ts_result t) \<in> {attemptUnavailable, attemptFailed} \<and>
     tr_wrote (ts_result t) \<in> {[], preamble} \<and> tr_released (ts_result t)"

definition unavailable_t :: "tried_session \<Rightarrow> bool" where
  "unavailable_t t \<longleftrightarrow> tr_outcome (ts_result t) = attemptUnavailable"

definition wait_ok :: "tried_session \<Rightarrow> bool" where
  "wait_ok t \<longleftrightarrow> 0 < ts_wait t \<and> ts_wait t \<le> ts_left t"

definition once_spec :: "bytes \<Rightarrow> bytes \<Rightarrow> once_result \<Rightarrow> bool" where
  "once_spec preamble head res \<longleftrightarrow>
     distinct (map ts_conn (or_trace res)) \<and> (\<forall>t \<in> set (or_trace res). wait_ok t) \<and>
     (case or_why res of
        WhyOK \<Rightarrow> (\<exists>xs x. or_trace res = xs @ [x] \<and> (\<forall>t \<in> set xs. retryable preamble t) \<and>
           tr_outcome (ts_result x) = attemptOK \<and> \<not> tr_released (ts_result x) \<and>
           or_chosen res = Some (ts_conn x) \<and>
           tr_wrote (ts_result x) = (if cv2 (ts_conn x) then preamble @ head else preamble))
      | WhySendError \<Rightarrow> (\<exists>xs x. or_trace res = xs @ [x] \<and> (\<forall>t \<in> set xs. retryable preamble t) \<and>
           tr_outcome (ts_result x) = attemptUnknown \<and> tr_released (ts_result x) \<and> or_chosen res = None)
      | NoAgentWhy \<Rightarrow> (\<forall>t \<in> set (or_trace res). retryable preamble t \<and> unavailable_t t) \<and> or_chosen res = None
      | WhyStreamError \<Rightarrow> (\<forall>t \<in> set (or_trace res). retryable preamble t) \<and>
           (\<exists>t \<in> set (or_trace res). \<not> unavailable_t t) \<and> or_chosen res = None
      | _ \<Rightarrow> False)"

definition loop_inv :: "bytes \<Rightarrow> agentConn set \<Rightarrow> nat \<Rightarrow> nat \<Rightarrow> tried_session list \<Rightarrow> bool" where
  "loop_inv preamble tried attempts unavailable trace \<longleftrightarrow>
     distinct (map ts_conn trace) \<and> ts_conn ` set trace \<subseteq> tried \<and>
     (\<forall>t \<in> set trace. retryable preamble t \<and> wait_ok t) \<and>
     attempts = length trace \<and> unavailable = length (filter unavailable_t trace)"

lemma filter_all_iff_length: "length (filter p xs) = length xs \<longleftrightarrow> (\<forall>x \<in> set xs. p x)"
  by (metis filter_eq_length_iff filter_id_conv)

lemma retryable_tryAgent:
  assumes "tr_outcome (tryAgent v2 preamble head env) \<in> {attemptUnavailable, attemptFailed}"
  shows "retryable preamble \<lparr>ts_conn = c, ts_wait = w, ts_left = l, ts_result = tryAgent v2 preamble head env\<rparr>"
proof -
  have "tr_wrote (tryAgent v2 preamble head env) \<in> {[], preamble}"
    using tryAgent_retry_safe [OF assms] by simp
  then show ?thesis
    using assms tryAgent_released [of v2 preamble head env] by (auto simp: retryable_def)
qed

lemma loop_inv_extend:
  assumes inv: "loop_inv preamble tried n u trace"
    and c: "c \<notin> tried" "tried' = insert c tried" and w: "0 < w" "w \<le> l"
    and o: "tr_outcome (tryAgent (cv2 c) preamble head env) \<in> {attemptUnavailable, attemptFailed}"
  shows "loop_inv preamble tried' (n + 1)
     (if tr_outcome (tryAgent (cv2 c) preamble head env) = attemptUnavailable then u + 1 else u)
     (trace @ [\<lparr>ts_conn = c, ts_wait = w, ts_left = l, ts_result = tryAgent (cv2 c) preamble head env\<rparr>])"
  using inv c w retryable_tryAgent [OF o, of c w l]
  by (auto simp: loop_inv_def unavailable_t_def wait_ok_def)

lemma once_spec_end:
  assumes inv: "loop_inv preamble tried n u trace"
    and res: "(if u = n then Some \<lparr>or_why = NoAgentWhy, or_chosen = None, or_uncool = None, or_trace = trace\<rparr>
       else Some \<lparr>or_why = WhyStreamError, or_chosen = None, or_uncool = None, or_trace = trace\<rparr>) = Some res"
  shows "once_spec preamble head res"
proof (cases "u = n")
  case True
  with inv have "\<forall>t \<in> set trace. unavailable_t t"
    using filter_all_iff_length [of unavailable_t trace] by (simp add: loop_inv_def)
  with True res inv show ?thesis by (auto simp: once_spec_def loop_inv_def)
next
  case False
  with inv have "\<exists>t \<in> set trace. \<not> unavailable_t t"
    using filter_all_iff_length [of unavailable_t trace] by (auto simp: loop_inv_def)
  with False res inv show ?thesis by (auto simp: once_spec_def loop_inv_def)
qed

lemma once_spec_last:
  assumes inv: "loop_inv preamble tried n u trace" and c: "c \<notin> tried" and w: "0 < w" "w \<le> l"
    and t: "t = \<lparr>ts_conn = c, ts_wait = w, ts_left = l, ts_result = tryAgent (cv2 c) preamble head env\<rparr>"
    and res: "or_trace res = trace @ [t]"
      "or_why res = WhyOK \<and> or_chosen res = Some c \<and> tr_outcome (ts_result t) = attemptOK
       \<or> or_why res = WhySendError \<and> or_chosen res = None \<and> tr_outcome (ts_result t) = attemptUnknown"
  shows "once_spec preamble head res"
proof -
  have "distinct (map ts_conn (trace @ [t]))" and "\<forall>x \<in> set (trace @ [t]). wait_ok x"
    and "\<forall>x \<in> set trace. retryable preamble x"
    using inv c w t by (auto simp: loop_inv_def wait_ok_def)
  then show ?thesis
    using res t tryAgent_released [of "cv2 c" preamble head env] tryAgent_ok_wrote [of "cv2 c" preamble head env]
    by (elim disjE) (auto simp: once_spec_def)
qed

lemma once_loop_spec:
  assumes "loop_inv preamble tried n u trace"
    and "once_loop balance preamble head turn cands tried n u trace its = Some res"
  shows "once_spec preamble head res"
  using assms
proof (induction its arbitrary: cands tried n u trace)
  case Nil
  then show ?case by simp
next
  case (Cons it its)
  note inv = Cons.prems(1)
  define pk where "pk = (if 0 < it_wait it
    then pick balance (it_cool it) (it_active it) (it_now it) cands tried turn else (None, tried))"
  obtain co tried' where pk': "pk = (co, tried')" by (cases pk)
  note eq = Cons.prems(2) [unfolded once_loop.simps Let_def fst_pickReserve pk_def [symmetric] pk', simplified]
  show ?case
  proof (cases co)
    case None
    have "tried' = tried"
      using pk' None pick_tried [of balance "it_cool it" "it_active it" "it_now it" cands tried turn]
      by (auto simp: pk_def split: if_splits)
    with eq None inv Cons.IH once_spec_end [OF inv] show ?thesis by (auto split: if_splits)
  next
    case (Some c)
    with pk' have wait: "0 < it_wait it"
      and pc: "pick balance (it_cool it) (it_active it) (it_now it) cands tried turn = (Some c, tried')"
      by (auto simp: pk_def split: if_splits)
    note picked = pick_Some [OF pc]
    define last where "last \<longleftrightarrow> it_cool_last it c \<le> it_now_last it \<and> all_tried cands tried'"
    define fresh where "fresh = (if last \<and> 1 < n + 1 then fresh_of (it_live_last it) tried' else [])"
    define cands' where "cands' = (if fresh \<noteq> [] then cands @ fresh else cands)"
    define w where "w = (if last \<and> fresh = [] then it_wait it else min (it_wait it) acceptWait)"
    define r where "r = tryAgent (cv2 c) preamble head (it_try it c w)"
    define t where "t = \<lparr>ts_conn = c, ts_wait = w, ts_left = it_wait it, ts_result = r\<rparr>"
    have wpos: "0 < w" "w \<le> it_wait it"
      using wait by (auto simp: w_def acceptWait_def second_def millisecond_def)
    have step: "(case tr_outcome r of
        attemptOK \<Rightarrow> Some \<lparr>or_why = WhyOK, or_chosen = Some c, or_uncool = Some (it_cooled it c), or_trace = trace @ [t]\<rparr>
      | attemptUnavailable \<Rightarrow> once_loop balance preamble head turn cands' tried' (n + 1) (u + 1) (trace @ [t]) its
      | attemptFailed \<Rightarrow> once_loop balance preamble head turn cands' tried' (n + 1) u (trace @ [t]) its
      | attemptUnknown \<Rightarrow> Some \<lparr>or_why = WhySendError, or_chosen = None, or_uncool = None, or_trace = trace @ [t]\<rparr>) = Some res"
      using Cons.prems(2)
      unfolding once_loop.simps Let_def fst_pickReserve pk_def [symmetric] pk' Some prod.case option.case
      unfolding last_def [symmetric] unfolding fresh_def [symmetric]
      unfolding cands'_def [symmetric] w_def [symmetric] unfolding r_def [symmetric]
      unfolding t_def [symmetric] .
    have ext: "tr_outcome r \<in> {attemptUnavailable, attemptFailed} \<Longrightarrow>
        loop_inv preamble tried' (n + 1) (if tr_outcome r = attemptUnavailable then u + 1 else u) (trace @ [t])"
      using loop_inv_extend [OF inv picked(2,3) wpos] by (simp add: r_def t_def)
    show ?thesis
    proof (cases "tr_outcome r")
      case attemptOK
      with step show ?thesis
        by (intro once_spec_last [OF inv picked(2) wpos t_def [unfolded r_def]]) (auto simp: t_def r_def)
    next
      case attemptUnavailable
      with step ext Cons.IH show ?thesis by simp
    next
      case attemptFailed
      with step ext Cons.IH show ?thesis by simp
    next
      case attemptUnknown
      with step show ?thesis
        by (intro once_spec_last [OF inv picked(2) wpos t_def [unfolded r_def]]) (auto simp: t_def r_def)
    qed
  qed
qed

lemma dispatchOnce_spec:
  assumes "EncodePreamble p = Inr preamble" and "dispatchOnce balance cands p head rr its = Some (res, rr')"
  shows "or_why res = NoSessionWhy \<and> or_chosen res = None \<and> or_trace res = [] \<or> once_spec preamble head res"
proof (cases "cands = []")
  case True
  with assms show ?thesis by (auto simp: dispatchOnce_def)
next
  case False
  with assms have "once_loop balance preamble head (fst (nextTurn rr)) cands {} 0 0 [] its = Some res"
    by (auto simp: dispatchOnce_def split_beta)
  moreover have "loop_inv preamble {} 0 0 []" by (simp add: loop_inv_def)
  ultimately show ?thesis using once_loop_spec by blast
qed

text \<open>The attempt that had, or may have had, the request.\<close>

definition handed :: "tried_session \<Rightarrow> bool" where
  "handed t \<longleftrightarrow> tr_outcome (ts_result t) \<in> {attemptOK, attemptUnknown}"

definition dispatch_spec :: "bytes \<Rightarrow> bytes \<Rightarrow> dispatch_result \<Rightarrow> bool" where
  "dispatch_spec preamble head r \<longleftrightarrow>
     dr_waits r \<le> 1 \<and>
     (case dr_refused r of
        None \<Rightarrow> dr_noAgent r = 0 \<and> dr_streamError r = 0 \<and>
          (\<exists>xs x. dr_trace r = xs @ [x] \<and> (\<forall>t \<in> set xs. retryable preamble t) \<and>
             tr_outcome (ts_result x) = attemptOK \<and> \<not> tr_released (ts_result x) \<and>
             dr_chosen r = Some (ts_conn x) \<and>
             tr_wrote (ts_result x) = (if cv2 (ts_conn x) then preamble @ head else preamble))
      | Some noAgent \<Rightarrow> dr_noAgent r = 1 \<and> dr_streamError r = 0 \<and> dr_chosen r = None \<and>
          (\<forall>t \<in> set (dr_trace r). retryable preamble t \<and> unavailable_t t)
      | Some streamFailed \<Rightarrow> dr_noAgent r = 0 \<and> dr_streamError r = 1 \<and> dr_chosen r = None \<and>
          (\<exists>xs ys. dr_trace r = xs @ ys \<and> length ys \<le> 1 \<and> (\<forall>t \<in> set xs. retryable preamble t) \<and>
             (\<forall>t \<in> set ys. handed t \<and> tr_released (ts_result t))))"

lemma dispatch_spec_OK:
  assumes "once_spec preamble head once" and "or_why once = WhyOK" and "\<forall>t \<in> set trace. retryable preamble t"
    and "waits \<le> 1"
  shows "dispatch_spec preamble head \<lparr>dr_chosen = or_chosen once, dr_refused = None, dr_waits = waits,
    dr_noAgent = 0, dr_streamError = 0, dr_rr = rr, dr_trace = trace @ or_trace once\<rparr>"
proof -
  from assms obtain xs x where x: "or_trace once = xs @ [x]" "\<forall>t \<in> set xs. retryable preamble t"
    "tr_outcome (ts_result x) = attemptOK" "\<not> tr_released (ts_result x)" "or_chosen once = Some (ts_conn x)"
    "tr_wrote (ts_result x) = (if cv2 (ts_conn x) then preamble @ head else preamble)"
    by (auto simp: once_spec_def)
  then have "trace @ or_trace once = (trace @ xs) @ [x]" "\<forall>t \<in> set (trace @ xs). retryable preamble t"
    using assms(3) by auto
  then show ?thesis using x(3-6) assms(4) unfolding dispatch_spec_def by auto
qed

lemma dispatch_spec_failed:
  assumes "once_spec preamble head once" and "or_why once \<in> {WhyStreamError, WhySendError}"
    and "\<forall>t \<in> set trace. retryable preamble t" and "waits \<le> 1"
  shows "dispatch_spec preamble head \<lparr>dr_chosen = None, dr_refused = Some streamFailed, dr_waits = waits,
    dr_noAgent = 0, dr_streamError = 1, dr_rr = rr, dr_trace = trace @ or_trace once\<rparr>"
proof -
  have "\<exists>xs ys. or_trace once = xs @ ys \<and> length ys \<le> 1 \<and> (\<forall>t \<in> set xs. retryable preamble t) \<and>
      (\<forall>t \<in> set ys. handed t \<and> tr_released (ts_result t))"
  proof (cases "or_why once = WhyStreamError")
    case True
    with assms(1) have "\<forall>t \<in> set (or_trace once). retryable preamble t" by (simp add: once_spec_def)
    then show ?thesis by (intro exI [of _ "or_trace once"] exI [of _ "[]"]) simp
  next
    case False
    with assms(1,2) obtain xs x where "or_trace once = xs @ [x]" "\<forall>t \<in> set xs. retryable preamble t"
      "handed x" "tr_released (ts_result x)" by (auto simp: once_spec_def handed_def)
    then show ?thesis by (intro exI [of _ xs] exI [of _ "[x]"]) simp
  qed
  then obtain xs ys where "or_trace once = xs @ ys" "length ys \<le> 1" "\<forall>t \<in> set xs. retryable preamble t"
    "\<forall>t \<in> set ys. handed t \<and> tr_released (ts_result t)" by blast
  then have "\<exists>xs' ys'. trace @ or_trace once = xs' @ ys' \<and> length ys' \<le> 1 \<and>
      (\<forall>t \<in> set xs'. retryable preamble t) \<and> (\<forall>t \<in> set ys'. handed t \<and> tr_released (ts_result t))"
    using assms(3) by (intro exI [of _ "trace @ xs"] exI [of _ ys]) auto
  then show ?thesis using assms(4) unfolding dispatch_spec_def by simp
qed

lemma dispatch_loop_spec:
  assumes "EncodePreamble p = Inr preamble"
    and "\<forall>t \<in> set trace. retryable preamble t \<and> unavailable_t t" and "waits = (if waiting then 1 else 0)"
    and "dispatch_loop balance p head wait waiting waits rr trace rds = Some r"
  shows "dispatch_spec preamble head r"
  using assms(2-4)
proof (induction rds arbitrary: waiting waits rr trace)
  case Nil
  then show ?case by simp
next
  case (Cons rd rds)
  from Cons.prems(3) obtain once rr' where once: "dispatchOnce balance (rd_cands rd) p head rr (rd_its rd) = Some (once, rr')"
    by (auto split: option.splits)
  note cases = dispatchOnce_spec [OF assms(1) once]
  have w1: "waits \<le> 1" using Cons.prems(2) by simp
  have rt: "\<forall>t \<in> set trace. retryable preamble t" using Cons.prems(1) by blast
  have noagent: "dispatch_spec preamble head r"
    if all: "\<forall>t \<in> set (trace @ or_trace once). retryable preamble t \<and> unavailable_t t"
      and why: "or_why once = NoSessionWhy \<or> or_why once = NoAgentWhy"
  proof -
    let ?wt = "waiting \<or> 0 < wait" and ?tr = "trace @ or_trace once"
    let ?k = "if \<not> waiting \<and> 0 < wait then waits + 1 else waits"
    have k: "?k = (if ?wt then 1 else 0)" using Cons.prems(2) by simp
    have up: "dispatch_spec preamble head \<lparr>dr_chosen = None, dr_refused = Some noAgent, dr_waits = ?k,
        dr_noAgent = 1, dr_streamError = 0, dr_rr = rr', dr_trace = ?tr\<rparr>"
      using all k by (auto simp: dispatch_spec_def)
    have "r = \<lparr>dr_chosen = None, dr_refused = Some noAgent, dr_waits = ?k, dr_noAgent = 1,
        dr_streamError = 0, dr_rr = rr', dr_trace = ?tr\<rparr>
      \<or> dispatch_loop balance p head wait ?wt ?k rr' ?tr rds = Some r"
      using Cons.prems(3) once why by (auto simp: Let_def split: if_splits wake.splits)
    then show ?thesis using up Cons.IH [OF all k] by blast
  qed
  show ?case
  proof (cases "or_why once")
    case WhyOK
    with cases have "once_spec preamble head once" by auto
    with Cons.prems(3) once WhyOK dispatch_spec_OK [OF _ _ rt w1] show ?thesis by (auto simp: Let_def)
  next
    case WhyPreamble
    with cases show ?thesis by (auto simp: once_spec_def)
  next
    case WhyStreamError
    with cases have "once_spec preamble head once" by auto
    with Cons.prems(3) once WhyStreamError dispatch_spec_failed [OF _ _ rt w1] show ?thesis
      by (auto simp: Let_def counts_stream_error_def)
  next
    case WhySendError
    with cases have "once_spec preamble head once" by auto
    with Cons.prems(3) once WhySendError dispatch_spec_failed [OF _ _ rt w1] show ?thesis
      by (auto simp: Let_def counts_stream_error_def)
  next
    case NoSessionWhy
    with cases Cons.prems(1) have "\<forall>t \<in> set (trace @ or_trace once). retryable preamble t \<and> unavailable_t t"
      by (auto simp: once_spec_def)
    from noagent [OF this] NoSessionWhy show ?thesis by simp
  next
    case NoAgentWhy
    with cases Cons.prems(1) have "\<forall>t \<in> set (trace @ or_trace once). retryable preamble t \<and> unavailable_t t"
      by (auto simp: once_spec_def)
    from noagent [OF this] NoAgentWhy show ?thesis by simp
  qed
qed

text \<open>Termination: a round ends once an iteration sees the request's deadline passed, and
  \<open>dispatch\<close> ends once a round that ended finds the wait run out.\<close>

lemma once_loop_ends:
  "\<exists>it \<in> set its. it_wait it \<le> 0 \<Longrightarrow>
   once_loop balance preamble head turn cands tried n u trace its \<noteq> None"
proof (induction its arbitrary: cands tried n u trace)
  case Nil
  then show ?case by simp
next
  case (Cons it its)
  then show ?case
    by (cases "it_wait it \<le> 0") (auto simp: Let_def split: option.splits attempt.splits prod.splits)
qed

lemma dispatchOnce_ends: "\<exists>it \<in> set its. it_wait it \<le> 0 \<Longrightarrow> dispatchOnce balance cands p head rr its \<noteq> None"
  using once_loop_ends [of its balance _ head "fst (nextTurn rr)" cands "{}" 0 0 "[]"]
  by (auto simp: dispatchOnce_def split_beta split: sum.splits)

lemma dispatch_loop_ends:
  assumes "\<forall>rd \<in> set rds. \<exists>it \<in> set (rd_its rd). it_wait it \<le> 0" and "\<exists>rd \<in> set rds. rd_left rd \<le> 0"
  shows "dispatch_loop balance p head wait waiting waits rr trace rds \<noteq> None"
  using assms
proof (induction rds arbitrary: waiting waits rr trace)
  case Nil
  then show ?case by simp
next
  case (Cons rd rds)
  have "dispatchOnce balance (rd_cands rd) p head rr (rd_its rd) \<noteq> None"
    using Cons.prems(1) by (intro dispatchOnce_ends) simp
  then obtain once rr' where "dispatchOnce balance (rd_cands rd) p head rr (rd_its rd) = Some (once, rr')"
    by auto
  then show ?case using Cons
    by (cases "rd_left rd \<le> 0") (auto simp: Let_def split: wake.splits)
qed

subsection \<open>Properties\<close>

text \<open>Only a request whose preamble can be encoded gets an agent.\<close>

lemma dispatch_loop_encodes:
  "dispatch_loop balance p head wait waiting waits rr trace rds = Some r \<Longrightarrow> dr_refused r = None \<Longrightarrow>
   \<exists>preamble. EncodePreamble p = Inr preamble"
proof (induction rds arbitrary: waiting waits rr trace)
  case Nil
  then show ?case by simp
next
  case (Cons rd rds)
  show ?case
  proof (cases "EncodePreamble p")
    case (Inr f)
    then show ?thesis by blast
  next
    case (Inl err)
    then have "\<exists>why rr'. dispatchOnce balance (rd_cands rd) p head rr (rd_its rd) =
        Some (\<lparr>or_why = why, or_chosen = None, or_uncool = None, or_trace = []\<rparr>, rr') \<and> why \<in> {NoSessionWhy, WhyPreamble}"
      by (auto simp: dispatchOnce_def)
    with Cons show ?thesis by (auto simp: Let_def split: if_splits wake.splits)
  qed
qed

lemma dispatch_chosen_spec:
  assumes "dispatch balance p head wait rr rds = Some r" and "dr_refused r = None"
  shows "\<exists>preamble. EncodePreamble p = Inr preamble \<and> dispatch_spec preamble head r"
proof -
  from assms obtain preamble where p: "EncodePreamble p = Inr preamble"
    unfolding dispatch_def using dispatch_loop_encodes by blast
  with assms(1) have "dispatch_spec preamble head r"
    unfolding dispatch_def by (intro dispatch_loop_spec [of p preamble "[]"]) auto
  with p show ?thesis by blast
qed

definition ok_env :: try_env where
  "ok_env = \<lparr>te_open = None, te_gone_open = False, te_write = None, te_gone_write = False, te_window = 1,
     te_accept = None, te_gone_accept = False, te_send = None, te_gone_send = False\<rparr>"

definition ok_iteration :: iteration where
  "ok_iteration = \<lparr>it_wait = 5, it_now = 1, it_cool = (\<lambda>_. 0), it_active = (\<lambda>_. 0), it_live = [], it_now_last = 1,
     it_cool_last = (\<lambda>_. 0), it_cooled = (\<lambda>_. 0), it_live_last = [], it_try = (\<lambda>_ _. ok_env)\<rparr>"

abbreviation sample_rounds :: "round list" where
  "sample_rounds \<equiv> [\<lparr>rd_cands = [], rd_its = [], rd_left = 3, rd_wake = Joined\<rparr>,
     \<lparr>rd_cands = [conn_a], rd_its = [ok_iteration, ok_iteration\<lparr>it_wait := 0\<rparr>], rd_left = 0, rd_wake = TimerFired\<rparr>]"

lemma sample_dispatch:
  assumes "EncodePreamble p = Inr preamble"
  shows "\<exists>r. dispatch BalanceLeastConn p head 5 0 sample_rounds = Some r \<and> dr_chosen r = Some conn_a"
  by (simp add: dispatch_def dispatchOnce_def assms nextTurn_def pick_def pick_pass_def eligible_def
      BalanceLeastConn_def BalanceRoundRobin_def ok_iteration_def ok_env_def tryAgent_def try_ok_def
      all_tried_def fresh_of_def Let_def)

text \<open>C1. A request is given to at most one agent. Of all the attempts of all the rounds, at
  most one handed the request over or may have; every other wrote nothing of the request (at
  most the preamble, to a version 1 agent, whose stream then failed), and every attempt but the
  successful one gave its reservation back.\<close>

theorem dispatch_at_most_once:
  assumes "EncodePreamble p = Inr preamble" and "dispatch balance p head wait rr rds = Some r"
  shows "length (filter handed (dr_trace r)) \<le> 1 \<and>
    (\<forall>t \<in> set (dr_trace r). \<not> handed t \<longrightarrow> tr_wrote (ts_result t) \<in> {[], preamble}) \<and>
    (\<forall>t \<in> set (dr_trace r). tr_released (ts_result t) \<or> dr_chosen r = Some (ts_conn t))"
proof -
  from assms have spec: "dispatch_spec preamble head r"
    unfolding dispatch_def by (intro dispatch_loop_spec [of p preamble "[]"]) auto
  have nh: "filter handed xs = []" "\<forall>t \<in> set xs. tr_wrote (ts_result t) \<in> {[], preamble} \<and> tr_released (ts_result t)"
    if "\<forall>t \<in> set xs. retryable preamble t" for xs
    using that by (auto simp: filter_empty_conv retryable_def handed_def)
  show ?thesis
  proof (cases "dr_refused r")
    case None
    with spec obtain xs x where x: "dr_trace r = xs @ [x]" "\<forall>t \<in> set xs. retryable preamble t"
      "tr_outcome (ts_result x) = attemptOK" "dr_chosen r = Some (ts_conn x)"
      by (auto simp: dispatch_spec_def)
    with nh [OF x(2)] show ?thesis by (auto simp: handed_def)
  next
    case (Some f)
    show ?thesis
    proof (cases f)
      case noAgent
      with spec Some have "\<forall>t \<in> set (dr_trace r). retryable preamble t" by (auto simp: dispatch_spec_def)
      from nh [OF this] show ?thesis by auto
    next
      case streamFailed
      with spec Some obtain xs ys where ys: "dr_trace r = xs @ ys" "length ys \<le> 1"
        "\<forall>t \<in> set xs. retryable preamble t" "\<forall>t \<in> set ys. handed t \<and> tr_released (ts_result t)"
        by (auto simp: dispatch_spec_def)
      have "length (filter handed (dr_trace r)) \<le> 1"
        using nh(1) [OF ys(3)] ys(1,2) le_trans [OF length_filter_le] by simp
      then show ?thesis using nh(2) [OF ys(3)] ys by auto
    qed
  qed
qed

theorem dispatch_at_most_once_witness:
  "\<exists>r. dispatch BalanceLeastConn sample_preamble ''GET'' 5 0 sample_rounds = Some r \<and> dr_chosen r = Some conn_a \<and>
     length (filter handed (dr_trace r)) \<le> 1"
  using sample_dispatch [OF sample_frame, of "''GET''"] dispatch_at_most_once [OF sample_frame] by blast



text \<open>C22. \<open>dispatch\<close> returns: once each round's clock passes the request's deadline and the
  wait for an agent has run out, it has a result, whatever sessions come and go meanwhile.\<close>

theorem dispatch_returns:
  assumes "\<forall>rd \<in> set rds. \<exists>it \<in> set (rd_its rd). it_wait it \<le> 0" and "\<exists>rd \<in> set rds. rd_left rd \<le> 0"
  shows "\<exists>r. dispatch balance p head wait rr rds = Some r"
  using dispatch_loop_ends [OF assms, of balance p head wait False 0 rr "[]"] by (simp add: dispatch_def)

theorem dispatch_returns_witness:
  "\<exists>r. dispatch BalanceLeastConn sample_preamble ''GET'' 5 0
     [\<lparr>rd_cands = [conn_a], rd_its = [ok_iteration, ok_iteration\<lparr>it_wait := 0\<rparr>], rd_left = 0, rd_wake = TimerFired\<rparr>] = Some r"
  by (rule dispatch_returns) (auto simp: ok_iteration_def)

end
