(* ===== verification/Obs.thy ===== *)
theory Obs
  imports Go_Strings "HOL-Library.Char_ord" "HOL-Library.List_Lexorder" "HOL-Library.Multiset"
begin

text \<open>
  Package \<^verbatim>\<open>internal/obs\<close>: the counters shared by a daemon, its status socket and its
  metrics endpoint (state.go, routes.go), and the drain wait (drain.go). Every atomic counter is
  an integer and every atomic operation one step; a \<^verbatim>\<open>*RouteStats\<close> is referred to by its
  pattern, under which \<^verbatim>\<open>State.routes\<close> holds it, and the nil receiver is \<open>None\<close>. An
  \<^verbatim>\<open>*AgentSession\<close> is referred to by a number. Shards of byte counters are kept as in the
  code; the round-robin shard index is a 32-bit word.
\<close>

subsection \<open>Failure reasons (routes.go)\<close>

datatype Reason =
    ReasonMaxConnections | ReasonBadRequest | ReasonNoRoute | ReasonRouteMaxConnections
  | ReasonNoAgent | ReasonStreamError | ReasonPreambleError | ReasonDialError
  | ReasonResponseTimeout | ReasonBadResponse | ReasonHTTP3Off
  | ReasonOther nat  \<comment> \<open>a uint8 from numReasons\<close>

definition in_range :: "Reason \<Rightarrow> bool" where
  "in_range r = (case r of ReasonOther _ \<Rightarrow> False | _ \<Rightarrow> True)"

definition Reason_String :: "Reason \<Rightarrow> string" where
  "Reason_String r = (case r of
      ReasonMaxConnections \<Rightarrow> ''max_connections''
    | ReasonBadRequest \<Rightarrow> ''bad_request''
    | ReasonNoRoute \<Rightarrow> ''no_route''
    | ReasonRouteMaxConnections \<Rightarrow> ''route_max_connections''
    | ReasonNoAgent \<Rightarrow> ''no_agent''
    | ReasonStreamError \<Rightarrow> ''stream_error''
    | ReasonPreambleError \<Rightarrow> ''preamble_error''
    | ReasonDialError \<Rightarrow> ''dial_error''
    | ReasonResponseTimeout \<Rightarrow> ''response_timeout''
    | ReasonBadResponse \<Rightarrow> ''bad_response''
    | ReasonHTTP3Off \<Rightarrow> ''http3_off''
    | ReasonOther _ \<Rightarrow> ''unknown'')"

definition EdgeUnroutedReasons :: "Reason list" where
  "EdgeUnroutedReasons = [ReasonMaxConnections, ReasonBadRequest, ReasonNoRoute]"

definition EdgeRouteReasons :: "Reason list" where
  "EdgeRouteReasons = [ReasonRouteMaxConnections, ReasonNoAgent, ReasonStreamError,
     ReasonResponseTimeout, ReasonBadResponse, ReasonHTTP3Off]"

definition AgentUnroutedReasons :: "Reason list" where
  "AgentUnroutedReasons = [ReasonPreambleError, ReasonNoRoute]"

definition AgentRouteReasons :: "Reason list" where
  "AgentRouteReasons = [ReasonDialError]"

type_synonym reasonCounts = "Reason \<Rightarrow> int"

definition reason_inc :: "Reason \<Rightarrow> reasonCounts \<Rightarrow> reasonCounts" where
  "reason_inc r c = (if in_range r then c(r := c r + 1) else c)"

definition reason_Get :: "reasonCounts \<Rightarrow> Reason \<Rightarrow> int" where
  "reason_Get c r = (if in_range r then c r else 0)"

subsection \<open>Per-route counters (routes.go)\<close>

definition byteShards :: nat where
  "byteShards = 16"

record byteShard =
  sh_in :: int
  sh_out :: int

record RouteStats =
  rpattern :: string
  ractive :: int
  rtotal :: int
  rtotalH3 :: int
  rreqH3 :: int
  rwaits :: int
  rbytes :: "byteShard list"
  rnext :: "32 word"
  rfailures :: reasonCounts

definition new_RouteStats :: "string \<Rightarrow> RouteStats" where
  "new_RouteStats p = \<lparr>rpattern = p, ractive = 0, rtotal = 0, rtotalH3 = 0, rreqH3 = 0, rwaits = 0,
     rbytes = replicate byteShards \<lparr>sh_in = 0, sh_out = 0\<rparr>, rnext = 0, rfailures = (\<lambda>_. 0)\<rparr>"

definition route_opened :: "bool \<Rightarrow> RouteStats \<Rightarrow> RouteStats" where
  "route_opened http3 r =
     (let r = r\<lparr>ractive := ractive r + 1\<rparr>; r = r\<lparr>rtotal := rtotal r + 1\<rparr>
      in if http3 then r\<lparr>rtotalH3 := rtotalH3 r + 1\<rparr> else r)"

definition route_HTTP3Request :: "RouteStats \<Rightarrow> RouteStats" where
  "route_HTTP3Request r = r\<lparr>rreqH3 := rreqH3 r + 1\<rparr>"

definition route_AgentWait :: "RouteStats \<Rightarrow> RouteStats" where
  "route_AgentWait r = r\<lparr>rwaits := rwaits r + 1\<rparr>"

definition route_closed :: "RouteStats \<Rightarrow> RouteStats" where
  "route_closed r = r\<lparr>ractive := ractive r - 1\<rparr>"

definition route_Failure :: "Reason \<Rightarrow> RouteStats \<Rightarrow> RouteStats" where
  "route_Failure reason r = r\<lparr>rfailures := reason_inc reason (rfailures r)\<rparr>"

text \<open>\<^verbatim>\<open>Bytes\<close>: the shard of a new stream (\<open>None\<close> for a nil route), and the route after
  the index moved on.\<close>

definition route_Bytes :: "RouteStats \<Rightarrow> nat \<times> RouteStats" where
  "route_Bytes r = (let n = rnext r + 1 in (unat n mod byteShards, r\<lparr>rnext := n\<rparr>))"

definition AddIn :: "nat option \<Rightarrow> int \<Rightarrow> RouteStats \<Rightarrow> RouteStats" where
  "AddIn shard n r = (case shard of
      None \<Rightarrow> r
    | Some k \<Rightarrow> r\<lparr>rbytes := (rbytes r)[k := (rbytes r ! k)\<lparr>sh_in := sh_in (rbytes r ! k) + n\<rparr>]\<rparr>)"

definition AddOut :: "nat option \<Rightarrow> int \<Rightarrow> RouteStats \<Rightarrow> RouteStats" where
  "AddOut shard n r = (case shard of
      None \<Rightarrow> r
    | Some k \<Rightarrow> r\<lparr>rbytes := (rbytes r)[k := (rbytes r ! k)\<lparr>sh_out := sh_out (rbytes r ! k) + n\<rparr>]\<rparr>)"

definition byteTotals :: "RouteStats \<Rightarrow> int \<times> int" where
  "byteTotals r = foldl (\<lambda>(i, u) s. (i + sh_in s, u + sh_out s)) (0, 0) (rbytes r)"

record RouteSnapshot =
  sPattern :: string
  sActive :: int
  sTotal :: int
  sTotalH3 :: int
  sReqH3 :: int
  sWaits :: int
  sBytesIn :: int
  sBytesOut :: int
  sFailures :: reasonCounts

definition routeSnapshot :: "RouteStats \<Rightarrow> RouteSnapshot" where
  "routeSnapshot r =
     (let (bin, bout) = byteTotals r
      in \<lparr>sPattern = rpattern r, sActive = ractive r, sTotal = rtotal r, sTotalH3 = rtotalH3 r,
          sReqH3 = rreqH3 r, sWaits = rwaits r, sBytesIn = bin, sBytesOut = bout,
          sFailures = rfailures r\<rparr>)"

subsection \<open>Agent sessions and the daemon's state (state.go)\<close>

type_synonym agent_id = nat

record AgentSession =
  a_fp :: fingerprint
  a_addr :: string
  a_since :: instant
  a_active :: int
  a_draining :: bool

record State =
  role :: string
  connected :: bool
  connectedNano :: instant
  activeStreams :: int
  totalStreams :: int
  maxStreams :: int
  reconnects :: int
  handshakeOK :: int
  handshakeFail :: int
  handshakeRejected :: int
  handshakeDup :: int
  handshakeCapped :: int
  lastError :: string
  peerFP :: string
  selfFP :: string
  http3Listen :: string
  sessions :: "agent_id \<rightharpoonup> AgentSession"  \<comment> \<open>every AgentSession made\<close>
  agents :: "agent_id set"  \<comment> \<open>those listed as connected\<close>
  expected :: "fingerprint set"
  agentTotals :: "fingerprint \<rightharpoonup> int"
  routes :: "(string \<times> RouteStats) list"  \<comment> \<open>by pattern, one entry each\<close>
  unrouted :: reasonCounts
  headerTimeouts :: int
  draining :: bool
  started :: instant

definition NewState :: "string \<Rightarrow> instant \<Rightarrow> State" where
  "NewState rl now = \<lparr>role = rl, connected = False, connectedNano = 0, activeStreams = 0,
     totalStreams = 0, maxStreams = 0, reconnects = 0, handshakeOK = 0, handshakeFail = 0,
     handshakeRejected = 0, handshakeDup = 0, handshakeCapped = 0, lastError = '''', peerFP = '''',
     selfFP = '''', http3Listen = '''', sessions = Map.empty, agents = {}, expected = {},
     agentTotals = Map.empty, routes = [], unrouted = (\<lambda>_. 0), headerTimeouts = 0,
     draining = False, started = now\<rparr>"

text \<open>Operations on one session; an unknown number is the nil receiver, which does nothing.\<close>

definition on_session :: "agent_id \<Rightarrow> (AgentSession \<Rightarrow> AgentSession) \<Rightarrow> State \<Rightarrow> State" where
  "on_session a f s = (case sessions s a of
      None \<Rightarrow> s
    | Some x \<Rightarrow> s\<lparr>sessions := (sessions s)(a \<mapsto> f x)\<rparr>)"

definition session_Active :: "State \<Rightarrow> agent_id \<Rightarrow> int" where
  "session_Active s a = (case sessions s a of None \<Rightarrow> 0 | Some x \<Rightarrow> a_active x)"

definition Reserve :: "agent_id \<Rightarrow> State \<Rightarrow> State" where
  "Reserve a = on_session a (\<lambda>x. x\<lparr>a_active := a_active x + 1\<rparr>)"

definition session_StreamClosed :: "agent_id \<Rightarrow> State \<Rightarrow> State" where
  "session_StreamClosed a = on_session a (\<lambda>x. x\<lparr>a_active := a_active x - 1\<rparr>)"

definition session_SetDraining :: "agent_id \<Rightarrow> State \<Rightarrow> State" where
  "session_SetDraining a = on_session a (\<lambda>x. x\<lparr>a_draining := True\<rparr>)"

text \<open>\<^verbatim>\<open>Commit\<close> adds to the fingerprint's counter, which the session holds a pointer to.\<close>

definition Commit :: "agent_id \<Rightarrow> State \<Rightarrow> State" where
  "Commit a s = (case sessions s a of
      None \<Rightarrow> s
    | Some x \<Rightarrow> s\<lparr>agentTotals := (agentTotals s)(a_fp x \<mapsto>
        (case agentTotals s (a_fp x) of None \<Rightarrow> 0 | Some n \<Rightarrow> n) + 1)\<rparr>)"

definition NewAgentSession :: "agent_id \<Rightarrow> fingerprint \<Rightarrow> string \<Rightarrow> instant \<Rightarrow> State \<Rightarrow> State" where
  "NewAgentSession a fp addr now s =
     s\<lparr>agentTotals := (case agentTotals s fp of None \<Rightarrow> (agentTotals s)(fp \<mapsto> 0) | Some _ \<Rightarrow> agentTotals s),
       sessions := (sessions s)(a \<mapsto> \<lparr>a_fp = fp, a_addr = addr, a_since = now, a_active = 0, a_draining = False\<rparr>)\<rparr>"

definition AddAgent :: "agent_id \<Rightarrow> State \<Rightarrow> State" where
  "AddAgent a s = s\<lparr>agents := insert a (agents s)\<rparr>"

definition AgentDisconnected :: "agent_id \<Rightarrow> State \<Rightarrow> State" where
  "AgentDisconnected a s = s\<lparr>agents := agents s - {a}\<rparr>"

definition SetDraining :: "State \<Rightarrow> State" where
  "SetDraining s = s\<lparr>draining := True\<rparr>"

definition SetConnected :: "fingerprint \<Rightarrow> instant \<Rightarrow> State \<Rightarrow> State" where
  "SetConnected fp now s = s\<lparr>connectedNano := now, peerFP := fp, connected := True\<rparr>"

definition SetDisconnected :: "State \<Rightarrow> State" where
  "SetDisconnected s = s\<lparr>connected := False, peerFP := ''''\<rparr>"

text \<open>Updating a route's counters in place; \<open>None\<close> is the nil \<^verbatim>\<open>*RouteStats\<close>.\<close>

definition on_route :: "string option \<Rightarrow> (RouteStats \<Rightarrow> RouteStats) \<Rightarrow> State \<Rightarrow> State" where
  "on_route p f s = (case p of
      None \<Rightarrow> s
    | Some p \<Rightarrow> s\<lparr>routes := map (\<lambda>(q, r). if q = p then (q, f r) else (q, r)) (routes s)\<rparr>)"

text \<open>\<^verbatim>\<open>streamOpened\<close>: the compare-and-swap loop raises the high-water mark to the new count.\<close>

definition streamOpened :: "string option \<Rightarrow> bool \<Rightarrow> State \<Rightarrow> State" where
  "streamOpened r http3 s0 =
     (let s = on_route r (route_opened http3) s0;
          n = activeStreams s + 1;
          s = s\<lparr>activeStreams := n, totalStreams := totalStreams s + 1\<rparr>
      in if n \<le> maxStreams s then s else s\<lparr>maxStreams := n\<rparr>)"

definition StreamOpened :: "string option \<Rightarrow> State \<Rightarrow> State" where
  "StreamOpened r s = streamOpened r False s"

definition StreamOpenedHTTP3 :: "string option \<Rightarrow> State \<Rightarrow> State" where
  "StreamOpenedHTTP3 r s = streamOpened r True s"

definition StreamClosed :: "string option \<Rightarrow> State \<Rightarrow> State" where
  "StreamClosed r s0 =
     (let s = on_route r route_closed s0 in s\<lparr>activeStreams := activeStreams s - 1\<rparr>)"

definition Reconnect :: "State \<Rightarrow> State" where
  "Reconnect s = s\<lparr>reconnects := reconnects s + 1\<rparr>"

definition HandshakeOK :: "State \<Rightarrow> State" where
  "HandshakeOK s = s\<lparr>handshakeOK := handshakeOK s + 1\<rparr>"

definition HandshakeFail :: "State \<Rightarrow> State" where
  "HandshakeFail s = s\<lparr>handshakeFail := handshakeFail s + 1\<rparr>"

definition HandshakeRejected :: "State \<Rightarrow> State" where
  "HandshakeRejected s = s\<lparr>handshakeRejected := handshakeRejected s + 1\<rparr>"

definition HandshakeDuplicate :: "State \<Rightarrow> State" where
  "HandshakeDuplicate s = s\<lparr>handshakeDup := handshakeDup s + 1\<rparr>"

definition HandshakeCapped :: "State \<Rightarrow> State" where
  "HandshakeCapped s = s\<lparr>handshakeCapped := handshakeCapped s + 1\<rparr>"

definition SetError :: "string \<Rightarrow> State \<Rightarrow> State" where
  "SetError e s = s\<lparr>lastError := e\<rparr>"

definition SetSelfFingerprint :: "string \<Rightarrow> State \<Rightarrow> State" where
  "SetSelfFingerprint fp s = s\<lparr>selfFP := fp\<rparr>"

definition SetHTTP3Listen :: "string \<Rightarrow> State \<Rightarrow> State" where
  "SetHTTP3Listen addr s = s\<lparr>http3Listen := addr\<rparr>"

text \<open>\<^verbatim>\<open>State.Route\<close> creates a route's counters on first use.\<close>

definition State_Route :: "string \<Rightarrow> State \<Rightarrow> State" where
  "State_Route p s =
     (if p \<in> fst ` set (routes s) then s else s\<lparr>routes := routes s @ [(p, new_RouteStats p)]\<rparr>)"

definition State_Failure :: "Reason \<Rightarrow> State \<Rightarrow> State" where
  "State_Failure reason s = s\<lparr>unrouted := reason_inc reason (unrouted s)\<rparr>"

definition Route_Failure :: "string option \<Rightarrow> Reason \<Rightarrow> State \<Rightarrow> State" where
  "Route_Failure r reason s = on_route r (route_Failure reason) s"

definition Route_AgentWait :: "string option \<Rightarrow> State \<Rightarrow> State" where
  "Route_AgentWait r s = on_route r route_AgentWait s"

definition ExpectAgents :: "fingerprint set \<Rightarrow> State \<Rightarrow> State" where
  "ExpectAgents allowed s = s\<lparr>expected := expected s \<union> allowed\<rparr>"

definition HeaderTimeout :: "State \<Rightarrow> State" where
  "HeaderTimeout s = s\<lparr>headerTimeouts := headerTimeouts s + 1\<rparr>"

text \<open>\<^verbatim>\<open>Bytes\<close> of the route held under a pattern: the new stream's shard.\<close>

definition State_Bytes :: "string \<Rightarrow> State \<Rightarrow> nat option \<times> State" where
  "State_Bytes p s = (case map_of (routes s) p of
      None \<Rightarrow> (None, s)
    | Some r \<Rightarrow> (Some (fst (route_Bytes r)), on_route (Some p) (snd \<circ> route_Bytes) s))"

subsection \<open>Snapshots\<close>

definition routeSnapshots :: "State \<Rightarrow> RouteSnapshot list" where
  "routeSnapshots s = sort_key sPattern (map (routeSnapshot \<circ> snd) (routes s))"

record AgentInfo =
  i_fp :: fingerprint
  i_addr :: string
  i_since :: instant
  i_active :: int
  i_draining :: bool

definition agentInfo :: "AgentSession \<Rightarrow> AgentInfo" where
  "agentInfo a = \<lparr>i_fp = a_fp a, i_addr = a_addr a, i_since = a_since a, i_active = a_active a,
     i_draining = a_draining a\<rparr>"

record Snapshot =
  snRole :: string
  snConnected :: bool
  snSince :: "instant option"
  snActive :: int
  snMax :: int
  snTotal :: int
  snBytesIn :: int
  snBytesOut :: int
  snReconnects :: int
  snOK :: int
  snFail :: int
  snRejected :: int
  snDup :: int
  snCapped :: int
  snLastError :: string
  snSelf :: string
  snPeer :: string
  snAgents :: "AgentInfo list"
  snHTTP3 :: string

text \<open>\<^verbatim>\<open>snapshot\<close>: the listed agents are ordered by fingerprint, then by connection time;
  \<^verbatim>\<open>order\<close> is the order in which the map of agents is ranged over.\<close>

definition snapshot :: "agent_id list \<Rightarrow> RouteSnapshot list \<Rightarrow> State \<Rightarrow> Snapshot" where
  "snapshot order rts s =
     \<lparr>snRole = role s, snConnected = connected s,
      snSince = (if connected s then Some (connectedNano s) else None),
      snActive = activeStreams s, snMax = maxStreams s, snTotal = totalStreams s,
      snBytesIn = foldl (\<lambda>n r. n + sBytesIn r) 0 rts, snBytesOut = foldl (\<lambda>n r. n + sBytesOut r) 0 rts,
      snReconnects = reconnects s, snOK = handshakeOK s, snFail = handshakeFail s,
      snRejected = handshakeRejected s, snDup = handshakeDup s, snCapped = handshakeCapped s,
      snLastError = lastError s, snSelf = selfFP s, snPeer = peerFP s,
      snAgents = sort_key i_fp (sort_key i_since (map (agentInfo \<circ> the \<circ> sessions s) order)),
      snHTTP3 = http3Listen s\<rparr>"

subsection \<open>The drain wait (drain.go)\<close>

text \<open>\<^verbatim>\<open>DrainWait\<close>, given how long the group takes to complete: how long it waits, and
  whether it logs a timeout.\<close>

definition DrainWait :: "duration \<Rightarrow> duration \<Rightarrow> duration \<times> bool" where
  "DrainWait timeout completes =
     (if timeout \<le> 0 then (0, False)
      else if completes < timeout then (completes, False) else (timeout, True))"

subsection \<open>Byte accounting\<close>

lemma byteTotals_sums:
  "byteTotals r = (sum_list (map sh_in (rbytes r)), sum_list (map sh_out (rbytes r)))"
proof -
  have "foldl (\<lambda>(i, u) s. (i + sh_in s, u + sh_out s)) (a, b) xs =
      (a + sum_list (map sh_in xs), b + sum_list (map sh_out xs))" for a b and xs :: "byteShard list"
    by (induction xs arbitrary: a b) auto
  then show ?thesis by (simp add: byteTotals_def)
qed

lemma sum_list_map_update:
  "k < length xs \<Longrightarrow> sum_list (map f (xs[k := y])) = sum_list (map f xs) + (f y - f (xs ! k) :: int)"
  by (induction xs arbitrary: k) (auto split: nat.splits)

definition shards_ok :: "RouteStats \<Rightarrow> bool" where
  "shards_ok r \<longleftrightarrow> length (rbytes r) = byteShards"

lemma shards_ok_new [coen_inv]: "shards_ok (new_RouteStats p)"
  by (simp add: shards_ok_def new_RouteStats_def)

lemma shards_ok_ops [coen_inv]:
  "shards_ok (route_opened h r) = shards_ok r" "shards_ok (route_closed r) = shards_ok r"
  "shards_ok (route_Failure f r) = shards_ok r" "shards_ok (route_AgentWait r) = shards_ok r"
  "shards_ok (route_HTTP3Request r) = shards_ok r" "shards_ok (snd (route_Bytes r)) = shards_ok r"
  "shards_ok (AddIn k n r) = shards_ok r" "shards_ok (AddOut k n r) = shards_ok r"
  by (auto simp: shards_ok_def route_opened_def route_closed_def route_Failure_def route_AgentWait_def
      route_HTTP3Request_def route_Bytes_def AddIn_def AddOut_def Let_def split: option.splits)

lemma shard_in_range: "fst (route_Bytes r) < byteShards"
  by (simp add: route_Bytes_def byteShards_def Let_def)

lemma byteTotals_AddIn:
  "shards_ok r \<Longrightarrow> k < byteShards \<Longrightarrow> byteTotals (AddIn (Some k) n r) = (fst (byteTotals r) + n, snd (byteTotals r))"
  by (simp add: byteTotals_sums AddIn_def shards_ok_def sum_list_map_update)

lemma byteTotals_AddOut:
  "shards_ok r \<Longrightarrow> k < byteShards \<Longrightarrow> byteTotals (AddOut (Some k) n r) = (fst (byteTotals r), snd (byteTotals r) + n)"
  by (simp add: byteTotals_sums AddOut_def shards_ok_def sum_list_map_update)

text \<open>Writes of concurrent streams, each on its own shard, in any order: what a route reports.\<close>

datatype byte_event = In nat int | Out nat int

definition byte_step :: "RouteStats \<Rightarrow> byte_event \<Rightarrow> RouteStats" where
  "byte_step r e = (case e of In k n \<Rightarrow> AddIn (Some k) n r | Out k n \<Rightarrow> AddOut (Some k) n r)"

lemma byteTotals_events:
  assumes "shards_ok r" and "\<forall>e \<in> set es. case e of In k _ \<Rightarrow> k < byteShards | Out k _ \<Rightarrow> k < byteShards"
  shows "byteTotals (foldl byte_step r es) =
    (fst (byteTotals r) + (\<Sum>e\<leftarrow>es. case e of In _ n \<Rightarrow> n | Out _ _ \<Rightarrow> 0),
     snd (byteTotals r) + (\<Sum>e\<leftarrow>es. case e of In _ _ \<Rightarrow> 0 | Out _ n \<Rightarrow> n))"
  using assms
proof (induction es arbitrary: r)
  case Nil
  then show ?case by simp
next
  case (Cons e es)
  then show ?case
    by (cases e) (simp_all add: byte_step_def shards_ok_ops byteTotals_AddIn byteTotals_AddOut)
qed

subsection \<open>Streams, globally and per route\<close>

text \<open>The streams of a daemon, opened and closed on configured routes.\<close>

datatype stream_event = Opened string bool | Closed string

fun stream_step :: "State \<Rightarrow> stream_event \<Rightarrow> State" where
  "stream_step s (Opened p h) = streamOpened (Some p) h s"
| "stream_step s (Closed p) = StreamClosed (Some p) s"

fun event_route :: "stream_event \<Rightarrow> string" where
  "event_route (Opened p h) = p"
| "event_route (Closed p) = p"

definition streams_ok :: "State \<Rightarrow> bool" where
  "streams_ok s \<longleftrightarrow> distinct (map fst (routes s)) \<and>
     activeStreams s = (\<Sum>(p, r)\<leftarrow>routes s. ractive r) \<and>
     totalStreams s = (\<Sum>(p, r)\<leftarrow>routes s. rtotal r) \<and>
     activeStreams s \<le> maxStreams s \<and> maxStreams s \<le> totalStreams s \<and>
     (\<forall>(p, r) \<in> set (routes s). 0 \<le> rtotalH3 r \<and> rtotalH3 r \<le> rtotal r)"

lemma routes_on_route [simp]:
  "map fst (routes (on_route p f s)) = map fst (routes s)"
  "activeStreams (on_route p f s) = activeStreams s" "totalStreams (on_route p f s) = totalStreams s"
  "maxStreams (on_route p f s) = maxStreams s"
  by (auto simp: on_route_def split: option.splits prod.splits)

lemma sum_on_route:
  assumes "distinct (map fst xs)" and "p \<in> fst ` set xs" and "\<And>r. h (g r) = h r + (d :: int)"
  shows "(\<Sum>(q, r)\<leftarrow>map (\<lambda>(q, r). if q = p then (q, g r) else (q, r)) xs. h r) = (\<Sum>(q, r)\<leftarrow>xs. h r) + d"
  using assms
proof (induction xs)
  case Nil
  then show ?case by simp
next
  case (Cons x xs)
  obtain q r where x: "x = (q, r)" by (cases x)
  show ?case
  proof (cases "q = p")
    case True
    with Cons.prems(1) x have "map (\<lambda>(q, r). if q = p then (q, g r) else (q, r)) xs = xs"
      by (intro map_idI) (force split: prod.splits)
    with True x Cons.prems(3) show ?thesis by simp
  next
    case False
    with Cons x show ?thesis by simp
  qed
qed

lemma sum_routes_on_route:
  assumes "streams_ok s" and "p \<in> fst ` set (routes s)" and "\<And>r. h (g r) = h r + (d :: int)"
  shows "(\<Sum>(q, r)\<leftarrow>routes (on_route (Some p) g s). h r) = (\<Sum>(q, r)\<leftarrow>routes s. h r) + d"
proof -
  have "routes (on_route (Some p) g s) = map (\<lambda>(q, r). if q = p then (q, g r) else (q, r)) (routes s)"
    by (simp add: on_route_def)
  then show ?thesis using assms by (simp only: sum_on_route streams_ok_def)
qed

lemma streams_ok_opened [coen_inv]:
  assumes "streams_ok s" and "p \<in> fst ` set (routes s)"
  shows "streams_ok (streamOpened (Some p) h s)"
proof -
  let ?s = "on_route (Some p) (route_opened h) s"
  have act: "(\<Sum>(q, r)\<leftarrow>routes ?s. ractive r) = (\<Sum>(q, r)\<leftarrow>routes s. ractive r) + 1"
    and tot: "(\<Sum>(q, r)\<leftarrow>routes ?s. rtotal r) = (\<Sum>(q, r)\<leftarrow>routes s. rtotal r) + 1"
    by (rule sum_routes_on_route [OF assms], simp add: route_opened_def Let_def)+
  have h3: "\<forall>(q, r) \<in> set (routes ?s). 0 \<le> rtotalH3 r \<and> rtotalH3 r \<le> rtotal r"
    using assms(1) by (force simp: on_route_def streams_ok_def route_opened_def Let_def split: if_splits)
  show ?thesis using assms(1) act tot h3
    by (auto simp: streams_ok_def streamOpened_def Let_def)
qed

lemma streams_ok_closed [coen_inv]:
  assumes "streams_ok s" and "p \<in> fst ` set (routes s)"
  shows "streams_ok (StreamClosed (Some p) s)"
proof -
  let ?s = "on_route (Some p) route_closed s"
  have act: "(\<Sum>(q, r)\<leftarrow>routes ?s. ractive r) = (\<Sum>(q, r)\<leftarrow>routes s. ractive r) + (- 1)"
    and tot: "(\<Sum>(q, r)\<leftarrow>routes ?s. rtotal r) = (\<Sum>(q, r)\<leftarrow>routes s. rtotal r) + 0"
    by (rule sum_routes_on_route [OF assms], simp add: route_closed_def)+
  have h3: "\<forall>(q, r) \<in> set (routes ?s). 0 \<le> rtotalH3 r \<and> rtotalH3 r \<le> rtotal r"
    using assms(1) by (force simp: on_route_def streams_ok_def route_closed_def split: if_splits)
  show ?thesis using assms(1) act tot h3
    by (auto simp: streams_ok_def StreamClosed_def Let_def)
qed

lemma routes_stream_step: "map fst (routes (stream_step s e)) = map fst (routes s)"
  by (cases e) (simp_all add: streamOpened_def StreamClosed_def Let_def)

lemma streams_ok_run:
  assumes "streams_ok s" and "\<forall>e \<in> set es. event_route e \<in> fst ` set (routes s)"
  shows "streams_ok (foldl stream_step s es)"
  using assms
proof (induction es arbitrary: s)
  case Nil
  then show ?case by simp
next
  case (Cons e es)
  have "streams_ok (stream_step s e)"
    using Cons.prems by (cases e) (auto intro: streams_ok_opened streams_ok_closed)
  moreover have "fst ` set (routes (stream_step s e)) = fst ` set (routes s)"
    using routes_stream_step by (metis list.set_map)
  ultimately show ?case using Cons by simp
qed

lemma streams_ok_start: "streams_ok (foldl (\<lambda>s p. State_Route p s) (NewState rl now) ps)"
proof -
  have "streams_ok s \<Longrightarrow> streams_ok (State_Route p s)" for s p
    by (auto simp: streams_ok_def State_Route_def new_RouteStats_def)
  then have "streams_ok s \<Longrightarrow> streams_ok (foldl (\<lambda>s p. State_Route p s) s ps)" for s
    by (induction ps arbitrary: s) auto
  moreover have "streams_ok (NewState rl now)" by (simp add: streams_ok_def NewState_def)
  ultimately show ?thesis by blast
qed

subsection \<open>Properties\<close>

text \<open>The stream counters agree: from a daemon with its routes registered, after any sequence
  of streams opened and closed on them, the global active and total counts are the sums of the
  routes', the high-water mark lies between them, and no route counts more HTTP/3 streams than
  streams.\<close>

theorem stream_counters_agree:
  assumes "s0 = foldl (\<lambda>s p. State_Route p s) (NewState rl now) ps"
    and "\<forall>e \<in> set es. event_route e \<in> fst ` set (routes s0)"
    and "s = foldl stream_step s0 es"
  shows "activeStreams s = (\<Sum>(p, r)\<leftarrow>routes s. ractive r) \<and> totalStreams s = (\<Sum>(p, r)\<leftarrow>routes s. rtotal r) \<and>
    activeStreams s \<le> maxStreams s \<and> maxStreams s \<le> totalStreams s \<and>
    (\<forall>(p, r) \<in> set (routes s). rtotalH3 r \<le> rtotal r)"
proof -
  have "streams_ok s0" unfolding assms(1) by (rule streams_ok_start)
  from streams_ok_run [OF this assms(2)] have "streams_ok s" by (simp add: assms(3))
  then show ?thesis by (auto simp: streams_ok_def)
qed

theorem stream_counters_agree_witness:
  "activeStreams (foldl stream_step (State_Route ''a'' (NewState ''edge'' 0)) [Opened ''a'' True, Opened ''a'' False, Closed ''a'']) =
   (\<Sum>(p, r)\<leftarrow>routes (foldl stream_step (State_Route ''a'' (NewState ''edge'' 0)) [Opened ''a'' True, Opened ''a'' False, Closed ''a'']). ractive r)"
  using stream_counters_agree [of "State_Route ''a'' (NewState ''edge'' 0)" "''edge''" 0 "[''a'']"
      "[Opened ''a'' True, Opened ''a'' False, Closed ''a'']", OF _ _ refl]
  by (simp add: State_Route_def NewState_def)

text \<open>No byte is lost or counted twice: however the streams of a route interleave their
  counting, each on the shard it was given, the totals the route reports are the sums of what
  was counted.\<close>

theorem byte_totals_exact:
  assumes "\<forall>e \<in> set es. case e of In k _ \<Rightarrow> k < byteShards | Out k _ \<Rightarrow> k < byteShards"
  shows "byteTotals (foldl byte_step (new_RouteStats p) es) =
    ((\<Sum>e\<leftarrow>es. case e of In _ n \<Rightarrow> n | Out _ _ \<Rightarrow> 0), (\<Sum>e\<leftarrow>es. case e of In _ _ \<Rightarrow> 0 | Out _ n \<Rightarrow> n)) \<and>
    fst (route_Bytes r) < byteShards"
proof -
  have "byteTotals (new_RouteStats p) = (0, 0)"
    by (simp add: byteTotals_sums new_RouteStats_def sum_list_replicate)
  with byteTotals_events [OF shards_ok_new assms] show ?thesis by (simp add: shard_in_range)
qed

theorem byte_totals_exact_witness:
  "byteTotals (foldl byte_step (new_RouteStats ''a'') [In 3 5, Out 3 2, In 15 7]) = (12, 2)"
  using byte_totals_exact [of "[In 3 5, Out 3 2, In 15 7]" "''a''"] by (simp add: byteShards_def)

subsection \<open>Counting one stream from its start to its end\<close>

text \<open>The reports of a pipe, added to the stream's shard of the route's byte counters. The two
  directions run at once; they add to different counters, so their order plays no part.\<close>

definition add_reports :: "string \<Rightarrow> nat option \<Rightarrow> int list \<Rightarrow> int list \<Rightarrow> State \<Rightarrow> State" where
  "add_reports p sb ins outs s =
     foldl (\<lambda>s n. on_route (Some p) (AddOut sb n) s) (foldl (\<lambda>s n. on_route (Some p) (AddIn sb n) s) s ins) outs"

lemma map_of_on_route:
  "map_of (routes (on_route (Some p) f s)) q = map_option (if q = p then f else id) (map_of (routes s) q)"
proof -
  have "map_of (map (\<lambda>(q, r). if q = p then (q, f r) else (q, r)) xs) q =
      map_option (if q = p then f else id) (map_of xs q)" for xs
    by (induction xs) auto
  then show ?thesis by (simp add: on_route_def)
qed

lemma unrouted_on_route [simp]: "unrouted (on_route p f s) = unrouted s"
  by (simp add: on_route_def split: option.splits)

lemma add_reports_frame [simp]:
  "activeStreams (add_reports p sb ins outs s) = activeStreams s"
  "totalStreams (add_reports p sb ins outs s) = totalStreams s"
  "unrouted (add_reports p sb ins outs s) = unrouted s"
proof -
  have "activeStreams (foldl (\<lambda>s n. on_route (Some p) (f n) s) s ns) = activeStreams s \<and>
      totalStreams (foldl (\<lambda>s n. on_route (Some p) (f n) s) s ns) = totalStreams s \<and>
      unrouted (foldl (\<lambda>s n. on_route (Some p) (f n) s) s ns) = unrouted s" for f :: "int \<Rightarrow> RouteStats \<Rightarrow> RouteStats" and ns s
    by (induction ns arbitrary: s) simp_all
  then show "activeStreams (add_reports p sb ins outs s) = activeStreams s"
    "totalStreams (add_reports p sb ins outs s) = totalStreams s"
    "unrouted (add_reports p sb ins outs s) = unrouted s" by (simp_all add: add_reports_def)
qed

lemma map_of_add_reports:
  "map_of (routes (add_reports p sb ins outs s)) p =
     map_option (\<lambda>r. foldl (\<lambda>r n. AddOut sb n r) (foldl (\<lambda>r n. AddIn sb n r) r ins) outs) (map_of (routes s) p)"
proof -
  have "map_of (routes (foldl (\<lambda>s n. on_route (Some p) (f n) s) s ns)) p =
      map_option (\<lambda>r. foldl (\<lambda>r n. f n r) r ns) (map_of (routes s) p)" for f :: "int \<Rightarrow> RouteStats \<Rightarrow> RouteStats" and ns s
    by (induction ns arbitrary: s) (simp_all add: map_of_on_route option.map_comp comp_def option.map_ident)
  then show ?thesis by (simp add: add_reports_def option.map_comp comp_def)
qed

lemma byteTotals_reports:
  assumes "shards_ok r" and "k < byteShards"
  shows "byteTotals (foldl (\<lambda>r n. AddOut (Some k) n r) (foldl (\<lambda>r n. AddIn (Some k) n r) r ins) outs) =
    (fst (byteTotals r) + sum_list ins, snd (byteTotals r) + sum_list outs)"
proof -
  have ins: "shards_ok (foldl (\<lambda>r n. AddIn (Some k) n r) r ns) \<and>
      byteTotals (foldl (\<lambda>r n. AddIn (Some k) n r) r ns) = (fst (byteTotals r) + sum_list ns, snd (byteTotals r))"
    if "shards_ok r" for r ns
    using that by (induction ns arbitrary: r) (simp_all add: shards_ok_ops byteTotals_AddIn assms(2))
  have outs: "byteTotals (foldl (\<lambda>r n. AddOut (Some k) n r) r ns) = (fst (byteTotals r), snd (byteTotals r) + sum_list ns)"
    if "shards_ok r" for r ns
    using that by (induction ns arbitrary: r) (simp_all add: shards_ok_ops byteTotals_AddOut assms(2))
  show ?thesis using ins [OF assms(1), of ins] outs by simp
qed

lemma State_Bytes_frame [simp]:
  "activeStreams (snd (State_Bytes p s)) = activeStreams s" "totalStreams (snd (State_Bytes p s)) = totalStreams s"
  "unrouted (snd (State_Bytes p s)) = unrouted s"
  by (simp_all add: State_Bytes_def split: option.splits)

lemma stream_ops_frame [simp]:
  "activeStreams (StreamOpened p s) = activeStreams s + 1" "totalStreams (StreamOpened p s) = totalStreams s + 1"
  "unrouted (StreamOpened p s) = unrouted s" "activeStreams (StreamClosed p s) = activeStreams s - 1"
  "totalStreams (StreamClosed p s) = totalStreams s" "unrouted (StreamClosed p s) = unrouted s"
  by (simp_all add: StreamOpened_def streamOpened_def StreamClosed_def Let_def)

lemma map_of_StreamOpened:
  "map_of (routes (StreamOpened (Some p) s)) p = map_option (route_opened False) (map_of (routes s) p)"
  by (simp add: StreamOpened_def streamOpened_def Let_def map_of_on_route)

lemma map_of_StreamClosed:
  "map_of (routes (StreamClosed (Some p) s)) p = map_option route_closed (map_of (routes s) p)"
  by (simp add: StreamClosed_def Let_def map_of_on_route)

text \<open>The reports leave the other counters of a route alone.\<close>

lemma reports_counters [simp]:
  "ractive (foldl (\<lambda>r n. AddOut sb n r) r ns) = ractive r" "rtotal (foldl (\<lambda>r n. AddOut sb n r) r ns) = rtotal r"
  "ractive (foldl (\<lambda>r n. AddIn sb n r) r ns) = ractive r" "rtotal (foldl (\<lambda>r n. AddIn sb n r) r ns) = rtotal r"
  by (induction ns arbitrary: r) (simp_all add: AddOut_def AddIn_def split: option.splits)

lemma byteTotals_counters [simp]:
  "byteTotals (route_closed r) = byteTotals r" "byteTotals (route_opened h r) = byteTotals r"
  "byteTotals (snd (route_Bytes r)) = byteTotals r"
  by (simp_all add: byteTotals_def route_closed_def route_opened_def route_Bytes_def Let_def)

lemma piped_route_counters:
  assumes "map_of (routes s) p = Some r" and "shards_ok r"
  shows "\<exists>r'. map_of (routes (StreamClosed (Some p) (add_reports p (fst (State_Bytes p (StreamOpened (Some p) s))) ins outs
      (snd (State_Bytes p (StreamOpened (Some p) s)))))) p = Some r' \<and>
    ractive r' = ractive r \<and> rtotal r' = rtotal r + 1 \<and>
    byteTotals r' = (fst (byteTotals r) + sum_list ins, snd (byteTotals r) + sum_list outs)"
proof -
  define r1 where "r1 = route_opened False r"
  have r1: "map_of (routes (StreamOpened (Some p) s)) p = Some r1" by (simp add: map_of_StreamOpened assms(1) r1_def)
  define k where "k = fst (route_Bytes r1)"
  define r2 where "r2 = snd (route_Bytes r1)"
  have sb: "fst (State_Bytes p (StreamOpened (Some p) s)) = Some k"
    and st: "map_of (routes (snd (State_Bytes p (StreamOpened (Some p) s)))) p = Some r2"
    by (simp_all add: State_Bytes_def r1 map_of_on_route k_def r2_def)
  define r3 where "r3 = foldl (\<lambda>r n. AddOut (Some k) n r) (foldl (\<lambda>r n. AddIn (Some k) n r) r2 ins) outs"
  have "shards_ok r2" using assms(2) by (simp add: r2_def r1_def shards_ok_ops)
  then have "byteTotals r3 = (fst (byteTotals r2) + sum_list ins, snd (byteTotals r2) + sum_list outs)"
    unfolding r3_def by (rule byteTotals_reports) (simp add: k_def shard_in_range)
  then have b: "byteTotals (route_closed r3) = (fst (byteTotals r) + sum_list ins, snd (byteTotals r) + sum_list outs)"
    by (simp add: r2_def r1_def)
  have c: "ractive (route_closed r3) = ractive r" "rtotal (route_closed r3) = rtotal r + 1"
    by (simp_all add: route_closed_def r3_def r2_def r1_def route_opened_def route_Bytes_def Let_def)
  show ?thesis
    by (rule exI [of _ "route_closed r3"]) (use b c in \<open>simp add: sb map_of_StreamClosed map_of_add_reports st r3_def\<close>)
qed

end
