(* ===== verification/Errpage.thy ===== *)
theory Errpage
  imports Go_Net
begin

text \<open>
  \<^verbatim>\<open>internal/errpage/errpage.go\<close>: the error page both daemons send. The template is
  written out; the escaping of a value in an element is the one \<^verbatim>\<open>html/template\<close> applies there.
\<close>

definition page_head :: string where
  \<open>page_head =
     ''<!doctype html>'' @ [LF] @
     ''<html lang="en">'' @ [LF] @
     ''<head>'' @ [LF] @
     ''<meta charset="utf-8">'' @ [LF] @
     ''<meta name="viewport" content="width=device-width, initial-scale=1">'' @ [LF] @
     ''<meta name="color-scheme" content="light">'' @ [LF] @
     ''<title>''\<close>

definition page_style :: string where
  \<open>page_style =
     ''</title>'' @ [LF] @
     ''<style>'' @ [LF] @
     ''html,body{height:100%;margin:0}'' @ [LF] @
     ''body{display:flex;flex-direction:column;align-items:center;justify-content:center;'' @ [LF] @
     ''min-height:100%;box-sizing:border-box;padding:2rem;text-align:center;'' @ [LF] @
     ''font-family:system-ui,-apple-system,"Segoe UI",Roboto,Helvetica,Arial,sans-serif;'' @ [LF] @
     ''color:#111;background:#fff}'' @ [LF] @
     ''.code{font-size:5rem;font-weight:700;line-height:1;letter-spacing:-.02em}'' @ [LF] @
     ''.reason{font-size:1.5rem;color:#444;margin-top:.5rem}'' @ [LF] @
     ''.detail{font-size:1rem;color:#777;margin-top:1rem}'' @ [LF] @
     ''.footer{font-size:.8rem;color:#999;margin-top:2.5rem}'' @ [LF] @
     ''.footer .id{font-family:ui-monospace,SFMono-Regular,Menlo,Consolas,monospace}'' @ [LF] @
     ''</style>'' @ [LF] @
     ''</head>'' @ [LF] @
     ''<body>'' @ [LF] @
     ''<div class="code">''\<close>

text \<open>The escaping \<^verbatim>\<open>html/template\<close> applies to a value in an element's text and in a title.\<close>

definition html_char :: "char \<Rightarrow> string" where
  "html_char c =
     (if c = CHR 0x00 then [CHR 0xEF, CHR 0xBF, CHR 0xBD]
      else if c = CHR 0x22 then ''&#34;''
      else if c = CHR 0x26 then ''&amp;''
      else if c = CHR 0x27 then ''&#39;''
      else if c = CHR 0x2B then ''&#43;''
      else if c = CHR 0x3C then ''&lt;''
      else if c = CHR 0x3E then ''&gt;''
      else [c])"

definition html_escape :: "string \<Rightarrow> string" where
  "html_escape s = concat (map html_char s)"

definition Render :: "nat \<Rightarrow> string \<Rightarrow> string \<Rightarrow> string \<Rightarrow> string" where
  \<open>Render code reason detail connID =
     page_head @ show_nat code @ '' '' @ html_escape reason @ page_style @
     show_nat code @ ''</div>'' @ [LF] @ ''<div class="reason">'' @ html_escape reason @
     ''</div>'' @ [LF] @
     (if detail = [] then [] else ''<div class="detail">'' @ html_escape detail @ ''</div>'') @
     [LF] @ ''<div class="footer">Coen &middot; conn <span class="id">'' @ html_escape connID @
     ''</span></div>'' @ [LF] @ ''</body>'' @ [LF] @ ''</html>'' @ [LF]\<close>

definition errpage_Write :: "nat \<Rightarrow> string \<Rightarrow> string \<Rightarrow> string \<Rightarrow> bytes" where
  "errpage_Write code reason detail connID =
     (let body = Render code reason detail connID
      in ''HTTP/1.1 '' @ show_nat code @ '' '' @ reason @ CRLF @
         ''Content-Type: text/html; charset=utf-8'' @ CRLF @
         ''Content-Length: '' @ show_nat (length body) @ CRLF @
         ''Connection: close'' @ CRLF @ CRLF @ body)"

subsection \<open>What a page contains\<close>

definition markup :: "char \<Rightarrow> bool" where
  "markup c \<longleftrightarrow> c \<in> {CHR 0x22, CHR 0x27, CHR 0x3C, CHR 0x3E}"

lemma filter_html_char [simp]: "filter markup (html_char c) = []"
  by (auto simp: html_char_def markup_def)

lemma filter_html_escape [simp]: "filter markup (html_escape s) = []"
  by (induction s) (simp_all add: html_escape_def)

lemma digit_char: "n < 10 \<Longrightarrow> of_char (char_of (48 + n)) = 48 + n" for n :: nat
  by (simp add: char_of_nat take_bit_nat_def)

lemma show_nat_digits: "c \<in> set (show_nat n) \<Longrightarrow> 48 \<le> (of_char c :: nat) \<and> (of_char c :: nat) \<le> 57"
proof (induction n rule: show_nat.induct)
  case (1 n)
  show ?case
  proof (cases "n < 10")
    case True
    with 1(2) have "c = char_of (48 + n)" by (subst (asm) show_nat.simps) simp
    with digit_char [OF True] True show ?thesis by simp
  next
    case False
    have d: "of_char (char_of (48 + n mod 10)) = 48 + n mod 10" by (rule digit_char) simp
    from False 1(2) have "c \<in> set (show_nat (n div 10)) \<or> c = char_of (48 + n mod 10)"
      by (subst (asm) show_nat.simps) auto
    then show ?thesis
    proof
      assume "c \<in> set (show_nat (n div 10))"
      then show ?thesis by (rule 1(1) [OF False])
    next
      assume "c = char_of (48 + n mod 10)"
      then show ?thesis using d mod_less_divisor [of 10 n] by simp
    qed
  qed
qed

lemma filter_show_nat [simp]: "filter markup (show_nat n) = []"
proof -
  have "\<not> markup c" if "c \<in> set (show_nat n)" for c
    using show_nat_digits [OF that] by (auto simp: markup_def)
  then show ?thesis by (simp add: filter_empty_conv)
qed

text \<open>An escaped value can be read back: nothing of it is lost (a NUL apart).\<close>

fun html_unescape :: "string \<Rightarrow> string" where
  "html_unescape [] = []"
| "html_unescape (c # cs) =
     (if take 5 (c # cs) = ''&#34;'' then CHR 0x22 # html_unescape (drop 4 cs)
      else if take 5 (c # cs) = ''&amp;'' then CHR 0x26 # html_unescape (drop 4 cs)
      else if take 5 (c # cs) = ''&#39;'' then CHR 0x27 # html_unescape (drop 4 cs)
      else if take 5 (c # cs) = ''&#43;'' then CHR 0x2B # html_unescape (drop 4 cs)
      else if take 4 (c # cs) = ''&lt;'' then CHR 0x3C # html_unescape (drop 3 cs)
      else if take 4 (c # cs) = ''&gt;'' then CHR 0x3E # html_unescape (drop 3 cs)
      else c # html_unescape cs)"

lemma html_unescape_char: "c \<noteq> CHR 0x00 \<Longrightarrow> html_unescape (html_char c @ r) = c # html_unescape r"
  by (auto simp: html_char_def)

lemma html_unescape_escape: "CHR 0x00 \<notin> set s \<Longrightarrow> html_unescape (html_escape s) = s"
  by (induction s) (auto simp: html_escape_def html_unescape_char)

text \<open>An error page cannot be made to carry markup: its quotes and angle brackets are those of
  the template, whatever the reason, the detail and the connection id hold; and each value that
  has no NUL is shown exactly, because the escaping can be undone.\<close>

theorem errpage_no_injection:
  assumes "detail = [] \<longleftrightarrow> detail' = []"
  shows "filter markup (Render code reason detail connID) = filter markup (Render code' reason' detail' connID')
    \<and> (CHR 0x00 \<notin> set detail \<longrightarrow> html_unescape (html_escape detail) = detail)"
proof -
  have "filter markup (Render code reason detail connID) =
      filter markup (Render code' reason' detail' connID')"
    using assms unfolding Render_def filter_append filter_html_escape filter_show_nat by (cases "detail = []") simp_all
  then show ?thesis using html_unescape_escape by blast
qed

theorem errpage_no_injection_witness:
  "filter markup (Render 502 ''Bad Gateway'' ''<script>'' ''x'') = filter markup (Render 404 ''Not Found'' ''No route for host'' ''y'')
   \<and> html_unescape (html_escape ''<script>'') = ''<script>''"
  using errpage_no_injection [of "''<script>''" "''No route for host''" 502 "''Bad Gateway''" "''x''" 404 "''Not Found''" "''y''"]
  by simp

end
