(* ===== verification/Edge_State.thy ===== *)
theory Edge_State
  imports H3_Pool Dispatch Obs Errpage
begin

text \<open>
  The state the goroutines of one \<^verbatim>\<open>Edge\<close> share (internal/edge/edge.go), and the operations that
  touch several of its parts: making it from the configuration (\<open>edge_New\<close>), taking an agent out
  (\<open>edge_retire\<close>, \<open>edge_evict\<close>), closing a tunnel stream with everything it holds, and taking a
  slot of a route's cap. Routes are identified by their normalised pattern, under which
  their counters and their semaphore are held; an agent session's counters are held under the
  session's number.
\<close>

subsection \<open>State\<close>

record routeState =
  rs_fingerprints :: "fingerprint list"
  rs_label :: string
  rs_balance :: string
  rs_stats :: string  \<comment> \<open>the pattern\<close>
  rs_noHTTP3 :: bool

record edge_sys =
  es_rs :: reg_sys  \<comment> \<open>the registry and which sessions are closed\<close>
  es_state :: State
  es_retired :: "session set"
  es_h3 :: h3_state
  es_sem :: semaphore  \<comment> \<open>ingress.max_connections\<close>
  es_route_sem :: "string \<Rightarrow> semaphore"
  es_waiters :: "string \<Rightarrow> int"  \<comment> \<open>slotWaiters\<close>
  es_rr :: "string \<Rightarrow> 64 word"
  es_altSvc :: string

subsection \<open>New\<close>

definition join_comma :: "string list \<Rightarrow> string" where
  "join_comma xs = (case xs of [] \<Rightarrow> [] | x # xs \<Rightarrow> x @ concat (map (\<lambda>y. CHR '','' # y) xs))"

definition route_state :: "EdgeRoute \<Rightarrow> routeState" where
  "route_state r = \<lparr>rs_fingerprints = Fingerprints r, rs_label = join_comma (Fingerprints r), rs_balance = BalanceMode r,
     rs_stats = Normalize (er_Host r), rs_noHTTP3 = (\<not> ServesHTTP3 r)\<rparr>"

definition edge_entry :: "EdgeRoute \<Rightarrow> routeState Entry" where
  "edge_entry r = \<lparr>Pattern = er_Host r, Value = route_state r\<rparr>"

record edge =
  e_cfg :: EdgeConfig
  e_allowed :: "fingerprint set"
  e_routes :: "routeState Matcher"

text \<open>\<^verbatim>\<open>New\<close>; \<open>material\<close> is the certificate material as loaded (\<open>None\<close> for an error) with the
  fingerprint of its leaf, if it was parsed.\<close>

definition edge_New :: "EdgeConfig \<Rightarrow> fingerprint option option \<Rightarrow> State \<Rightarrow> (edge \<times> edge_sys) option" where
  "edge_New cfg material s = (case material of
      None \<Rightarrow> None
    | Some leaf \<Rightarrow>
        (let s = (case leaf of None \<Rightarrow> s | Some fp \<Rightarrow> SetSelfFingerprint fp s);
             s = ExpectAgents (AllowedFingerprints cfg) s;
             s = foldl (\<lambda>s r. State_Route (Normalize (er_Host r)) s) s (Routes cfg);
             sems = foldl (\<lambda>m r. m(Normalize (er_Host r) := newSemaphore (er_MaxConnections r))) (\<lambda>_. None) (Routes cfg)
         in Some (\<lparr>e_cfg = cfg, e_allowed = AllowedFingerprints cfg, e_routes = Build (map edge_entry (Routes cfg))\<rparr>,
              \<lparr>es_rs = \<lparr>reg = newRegistry\<lparr>shared := SharedFingerprints cfg\<rparr>, closedS = {}, usedS = {}\<rparr>,
               es_state = s, es_retired = {}, es_h3 = newH3Pool, es_sem = newSemaphore (ing_MaxConnections (Ingress cfg)),
               es_route_sem = sems, es_waiters = (\<lambda>_. 0), es_rr = (\<lambda>_. 0), es_altSvc = ''''\<rparr>)))"

subsection \<open>Slots\<close>

text \<open>\<^verbatim>\<open>sem.release\<close>. With no token in the channel it would wait for one; every caller holds one.\<close>

definition release_slot :: "semaphore \<Rightarrow> semaphore" where
  "release_slot s = (case release s of None \<Rightarrow> s | Some s' \<Rightarrow> s')"

definition release_route :: "string \<Rightarrow> edge_sys \<Rightarrow> edge_sys" where
  "release_route p st = st\<lparr>es_route_sem := (es_route_sem st)(p := release_slot (es_route_sem st p))\<rparr>"

definition acquire_route :: "string \<Rightarrow> edge_sys \<Rightarrow> bool \<times> edge_sys" where
  "acquire_route p st =
     (let (ok, s) = tryAcquire (es_route_sem st p) in (ok, st\<lparr>es_route_sem := (es_route_sem st)(p := s)\<rparr>))"

text \<open>\<^verbatim>\<open>tunnelStream.close\<close> with what it releases.\<close>

definition close_tunnelStream :: "tunnelStream \<Rightarrow> edge_sys \<Rightarrow> edge_sys" where
  "close_tunnelStream ts st =
     (if ts_id ts \<in> streamsClosed (es_h3 st) then st
      else release_route (ts_rs ts)
        (st\<lparr>es_h3 := close_stream (ts_id ts) (es_h3 st),
            es_state := StreamClosed (Some (ts_rs ts)) (session_StreamClosed (ts_agent ts) (es_state st))\<rparr>))"

text \<open>Closing a kept stream that has been taken out of the pool.\<close>

definition close_kept :: "nat \<Rightarrow> edge_sys \<Rightarrow> edge_sys" where
  "close_kept i st = (case idles (es_h3 st) i of
      None \<Rightarrow> st
    | Some is \<Rightarrow>
        (let st = close_tunnelStream (is_ts is) st
         in st\<lparr>es_h3 := (es_h3 st)\<lparr>doomed := doomed (es_h3 st) - {i}\<rparr>\<rparr>))"

definition kept_on :: "string \<Rightarrow> edge_sys \<Rightarrow> nat \<Rightarrow> bool" where
  "kept_on p st i \<longleftrightarrow> i \<in> pall (es_h3 st) \<and> (case idles (es_h3 st) i of None \<Rightarrow> False | Some is \<Rightarrow> ts_rs (is_ts is) = p)"

text \<open>\<^verbatim>\<open>evictRoute\<close> choosing the idle stream \<open>i\<close>.\<close>

definition evict_kept :: "string \<Rightarrow> nat \<Rightarrow> edge_sys \<Rightarrow> edge_sys" where
  "evict_kept p i st = close_kept i (st\<lparr>es_h3 := snd (evictRoute p [i] (es_h3 st))\<rparr>)"

text \<open>\<^verbatim>\<open>slotFromKept\<close>; \<open>order\<close> is the order in which \<^verbatim>\<open>evictRoute\<close> comes upon the idle streams.\<close>

fun slotFromKept :: "string \<Rightarrow> nat list \<Rightarrow> edge_sys \<Rightarrow> bool \<times> edge_sys" where
  "slotFromKept p [] st = (False, st)"
| "slotFromKept p (i # order) st =
     (if kept_on p st i then
        (let (ok, st') = acquire_route p (evict_kept p i st) in if ok then (True, st') else slotFromKept p order st')
      else slotFromKept p order st)"

definition add_waiter :: "int \<Rightarrow> string \<Rightarrow> edge_sys \<Rightarrow> edge_sys" where
  "add_waiter n p st = st\<lparr>es_waiters := (es_waiters st)(p := es_waiters st p + n)\<rparr>"

definition tcpRouteSlot :: "string \<Rightarrow> nat list \<Rightarrow> edge_sys \<Rightarrow> bool \<times> edge_sys" where
  "tcpRouteSlot p order st =
     (let (ok, st1) = acquire_route p st
      in if ok then (True, st1)
         else (let (ok, st2) = slotFromKept p order (add_waiter 1 p st1) in (ok, add_waiter (-1) p st2)))"

text \<open>\<^verbatim>\<open>routeSlot\<close>: an HTTP/3 request also waits. \<open>others\<close> is what the other goroutines do while it
  does, \<open>pick\<close> the outcome of its \<^verbatim>\<open>select\<close> among those then possible (\<open>ctxDone\<close>: the wait is over).\<close>

definition routeSlot :: "string \<Rightarrow> nat list \<Rightarrow> (edge_sys \<Rightarrow> edge_sys) \<Rightarrow> bool \<Rightarrow> nat \<Rightarrow> edge_sys \<Rightarrow> (bool \<times> edge_sys) option" where
  "routeSlot p order others ctxDone choice st =
     (let (ok, st1) = acquire_route p st
      in if ok then Some (True, st1)
         else
           (let (ok, st2) = slotFromKept p order (add_waiter 1 p st1)
            in if ok then Some (True, add_waiter (-1) p st2)
               else
                 (let st3 = others st2; outs = acquire (es_route_sem st3 p) ctxDone
                  in if choice < length outs then
                       (let (ok, s) = outs ! choice
                        in Some (ok, add_waiter (-1) p (st3\<lparr>es_route_sem := (es_route_sem st3)(p := s)\<rparr>)))
                     else None)))"

subsection \<open>Taking an agent out of service\<close>

definition on_reg :: "(registry \<Rightarrow> registry) \<Rightarrow> edge_sys \<Rightarrow> edge_sys" where
  "on_reg f st = st\<lparr>es_rs := (es_rs st)\<lparr>reg := f (reg (es_rs st))\<rparr>\<rparr>"

definition on_state :: "(State \<Rightarrow> State) \<Rightarrow> edge_sys \<Rightarrow> edge_sys" where
  "on_state f st = st\<lparr>es_state := f (es_state st)\<rparr>"

definition close_session :: "session \<Rightarrow> edge_sys \<Rightarrow> edge_sys" where
  "close_session s st = st\<lparr>es_rs := (es_rs st)\<lparr>closedS := insert s (closedS (es_rs st))\<rparr>\<rparr>"

text \<open>\<^verbatim>\<open>h3pool.closeAgent\<close>, its idle streams ranged over in the order given.\<close>

definition kept_by_agent :: "session \<Rightarrow> h3_state \<Rightarrow> nat \<Rightarrow> bool" where
  "kept_by_agent s h i \<longleftrightarrow> (case idles h i of None \<Rightarrow> False | Some is \<Rightarrow> ts_agent (is_ts is) = s)"

text \<open>The order in which a \<^verbatim>\<open>range\<close> over the pool comes upon its idle streams: the one wished for, if it
  is one of them.\<close>

definition range_pool :: "nat list \<Rightarrow> h3_state \<Rightarrow> nat list" where
  "range_pool order h = (if ranges_pool order h then order else sorted_list_of_set (pall h))"

definition close_agent_streams :: "session \<Rightarrow> nat list \<Rightarrow> edge_sys \<Rightarrow> edge_sys" where
  "close_agent_streams s order st =
     (let l = range_pool order (es_h3 st)
      in foldl (\<lambda>st i. close_kept i st) (st\<lparr>es_h3 := closeAgent s l (es_h3 st)\<rparr>) (filter (kept_by_agent s (es_h3 st)) l))"

definition edge_retire :: "nat list \<Rightarrow> agentConn \<Rightarrow> edge_sys \<Rightarrow> edge_sys" where
  "edge_retire order c st =
     (if csess c \<in> es_retired st then st
      else
        (let st = st\<lparr>es_retired := insert (csess c) (es_retired st)\<rparr>;
             st = on_reg (take_session (cfp c) (csess c)) st;
             st = close_agent_streams (csess c) order st
         in on_state (session_SetDraining (csess c)) st))"

text \<open>\<^verbatim>\<open>evict\<close>; the close it starts in the background takes effect here at once.\<close>

definition edge_evict :: "agentConn \<Rightarrow> edge_sys \<Rightarrow> edge_sys" where
  "edge_evict c st =
     (let st = on_state (AgentDisconnected (csess c)) (on_reg (take_session (cfp c) (csess c)) st)
      in if csess c \<in> closedS (es_rs st) then st else close_session (csess c) st)"

text \<open>What a dispatch does with the session of an attempt (\<open>conn_action\<close>), and the dead sessions it
  comes upon.\<close>

definition apply_action :: "nat list \<Rightarrow> agentConn \<Rightarrow> conn_action \<Rightarrow> edge_sys \<Rightarrow> edge_sys" where
  "apply_action order c a st = (case a of Retire \<Rightarrow> edge_retire order c st | Evict \<Rightarrow> edge_evict c st | _ \<Rightarrow> st)"

subsection \<open>How the parts move\<close>

text \<open>The registry, the closed sessions and the kept streams change only by the steps of their own
  systems, whatever the composite operation.\<close>

lemma tunnel_stream_frame [simp]:
  "idles (close_stream t h) = idles h" "doomed (close_stream t h) = doomed h" "pall (close_stream t h) = pall h"
  "taken (close_stream t h) = taken h" "conns (close_stream t h) = conns h" "owned (close_stream t h) = owned h"
  "popping (close_stream t h) = popping h"
  by (simp_all add: close_stream_def)

lemma release_route_frame [simp]:
  "es_h3 (release_route p st) = es_h3 st" "es_rs (release_route p st) = es_rs st" "es_state (release_route p st) = es_state st"
  "es_retired (release_route p st) = es_retired st" "es_waiters (release_route p st) = es_waiters st"
  "es_route_sem (release_route p st) p = release_slot (es_route_sem st p)" "es_sem (release_route p st) = es_sem st"
  by (simp_all add: release_route_def)

lemma close_tunnelStream_frame [simp]:
  "es_h3 (close_tunnelStream ts st) = close_stream (ts_id ts) (es_h3 st)" "es_rs (close_tunnelStream ts st) = es_rs st"
  "es_retired (close_tunnelStream ts st) = es_retired st" "es_waiters (close_tunnelStream ts st) = es_waiters st"
  "es_sem (close_tunnelStream ts st) = es_sem st"
  by (simp_all add: close_tunnelStream_def close_stream_def)

lemma close_kept_frame [simp]:
  "es_rs (close_kept i st) = es_rs st" "es_retired (close_kept i st) = es_retired st"
  "es_waiters (close_kept i st) = es_waiters st" "es_sem (close_kept i st) = es_sem st"
  by (simp_all add: close_kept_def Let_def split: option.splits)

lemma close_kept_h3: "i \<in> dom (idles (es_h3 st)) \<Longrightarrow> es_h3 (close_kept i st) = closeIdle i (es_h3 st)"
  by (auto simp: close_kept_def closeIdle_def sid_def Let_def)

lemma pool_stream_open:
  assumes "h3_inv h" and "i \<in> pall h"
  shows "i \<in> dom (idles h)" and "sid h i \<notin> streamsClosed h" and "i \<notin> taken h" and "finite (pall h)"
  using assms by (auto simp: h3_inv_def h3_core_def lists_ok_def streams_ok_h3_def held_def)

lemma evict_kept_steps:
  assumes inv: "h3_inv (es_h3 st)" and k: "kept_on p st i"
  shows "h3_step\<^sup>*\<^sup>* (es_h3 st) (es_h3 (evict_kept p i st))"
    and "pall (es_h3 (evict_kept p i st)) = pall (es_h3 st) - {i}"
    and "es_route_sem (evict_kept p i st) p = release_slot (es_route_sem st p)"
    and "es_waiters (evict_kept p i st) = es_waiters st"
proof -
  let ?h = "es_h3 st"
  have ip: "i \<in> pall ?h" using k by (simp add: kept_on_def)
  note op = pool_stream_open [OF inv ip]
  from k op(1) obtain x where x: "idles ?h i = Some x" "ts_rs (is_ts x) = p" by (auto simp: kept_on_def split: option.splits)
  obtain others where o': "set others = pall ?h - {i}" "distinct others"
    using finite_distinct_list [of "pall ?h - {i}"] op(4) by auto
  let ?h1 = "snd (evictRoute p [i] ?h)"
  have h1: "?h1 = (h3_removeLocked i ?h)\<lparr>doomed := insert i (doomed ?h)\<rparr>" by (simp add: evictRoute_def x)
  have "?h1 = snd (evictRoute p (i # others) ?h)" by (simp add: evictRoute_def x)
  moreover have "ranges_pool (i # others) ?h" using o' ip by auto
  ultimately have s1: "h3_step ?h ?h1" by (metis h3_step.evict)
  have id1: "idles ?h1 = idles ?h" by (simp add: h1 removeLocked_frame)
  have ek: "es_h3 (evict_kept p i st) = closeIdle i ?h1"
    unfolding evict_kept_def using close_kept_h3 [of i "st\<lparr>es_h3 := ?h1\<rparr>"] op(1) id1 by simp
  have "h3_step ?h1 (closeIdle i ?h1)" by (rule h3_step.close) (simp add: h1)
  with s1 ek show "h3_step\<^sup>*\<^sup>* ?h (es_h3 (evict_kept p i st))" by simp
  show "pall (es_h3 (evict_kept p i st)) = pall ?h - {i}"
    unfolding ek using op(3) x by (simp add: closeIdle_def h1 h3_removeLocked_def Let_def)
  have "ts_id (is_ts x) \<notin> streamsClosed ?h1" using op(2) x by (simp add: h1 removeLocked_frame sid_def)
  then show "es_route_sem (evict_kept p i st) p = release_slot (es_route_sem st p)"
    by (simp add: evict_kept_def close_kept_def id1 x Let_def close_tunnelStream_def release_route_def)
  show "es_waiters (evict_kept p i st) = es_waiters st" by (simp add: evict_kept_def)
qed

text \<open>A semaphore with a token taken: giving it back and taking it again.\<close>

lemma release_acquire:
  assumes "sem_ok s" and "s = Some ch" and "0 < used ch"
  shows "tryAcquire (release_slot s) = (True, s)"
  using assms by (auto simp: release_slot_def sem_defs)

text \<open>A TCP connection that finds its route full while an HTTP/3 connection keeps a stream on that
  route gets its slot: exactly one kept stream is taken out and closed, its slot goes over to the
  connection, so the number of slots in use is unchanged, and no waiter stays counted.\<close>

theorem full_route_takes_kept_slot:
  assumes inv: "h3_inv (es_h3 st)" and ok: "sem_ok (es_route_sem st p)"
    and full: "fst (tryAcquire (es_route_sem st p)) = False"
    and ord: "set order = pall (es_h3 st)" "\<exists>i \<in> set order. kept_on p st i"
  shows "\<exists>st' i. tcpRouteSlot p order st = (True, st') \<and> kept_on p st i \<and> pall (es_h3 st') = pall (es_h3 st) - {i} \<and>
    es_route_sem st' p = es_route_sem st p \<and> es_waiters st' = es_waiters st \<and> h3_step\<^sup>*\<^sup>* (es_h3 st) (es_h3 st')"
proof -
  from full obtain ch where ch: "es_route_sem st p = Some ch" "0 < used ch" "tryAcquire (es_route_sem st p) = (False, es_route_sem st p)"
    using ok by (auto simp: sem_defs split: option.splits if_splits)
  have a1: "acquire_route p st = (False, st)"
    by (simp add: acquire_route_def ch(3))
  let ?w = "add_waiter 1 p st"
  have w: "es_h3 ?w = es_h3 st" "es_route_sem ?w = es_route_sem st" by (simp_all add: add_waiter_def)
  have kw: "kept_on p ?w = kept_on p st" by (simp add: kept_on_def fun_eq_iff w)
  have "\<exists>i st2. kept_on p st i \<and> slotFromKept p os ?w = (True, st2) \<and> pall (es_h3 st2) = pall (es_h3 st) - {i} \<and>
      es_route_sem st2 p = es_route_sem st p \<and> es_waiters st2 = es_waiters ?w \<and> h3_step\<^sup>*\<^sup>* (es_h3 st) (es_h3 st2)"
    if "\<exists>i \<in> set os. kept_on p st i" for os
    using that
  proof (induction os)
    case (Cons i os)
    show ?case
    proof (cases "kept_on p st i")
      case True
      note ev = evict_kept_steps [of ?w p i, unfolded w kw, OF inv True]
      have "acquire_route p (evict_kept p i ?w) = (True, (evict_kept p i ?w)\<lparr>es_route_sem := (es_route_sem (evict_kept p i ?w))(p := es_route_sem st p)\<rparr>)"
        unfolding acquire_route_def ev(3) using release_acquire [OF ok ch(1,2)] by simp
      then show ?thesis using True ev kw by (intro exI [of _ i]) auto
    next
      case False
      then show ?thesis using Cons by (auto simp: kw)
    qed
  qed simp
  from this [OF ord(2)] obtain i st2 where r: "kept_on p st i" "slotFromKept p order ?w = (True, st2)" "pall (es_h3 st2) = pall (es_h3 st) - {i}"
    "es_route_sem st2 p = es_route_sem st p" "es_waiters st2 = es_waiters ?w" "h3_step\<^sup>*\<^sup>* (es_h3 st) (es_h3 st2)" by blast
  have "es_waiters (add_waiter (-1) p st2) = es_waiters st" using r(5) by (simp add: add_waiter_def fun_eq_iff)
  with r show ?thesis
    by (intro exI [of _ "add_waiter (-1) p st2"] exI [of _ i]) (simp add: tcpRouteSlot_def a1 add_waiter_def)
qed

definition sample_edge_sys :: edge_sys where
  "sample_edge_sys = \<lparr>es_rs = \<lparr>reg = newRegistry, closedS = {}, usedS = {}\<rparr>, es_state = NewState ''edge'' 0, es_retired = {},
     es_h3 = sample_kept, es_sem = None, es_route_sem = (\<lambda>_. Some \<lparr>cap = 1, used = 1\<rparr>), es_waiters = (\<lambda>_. 0),
     es_rr = (\<lambda>_. 0), es_altSvc = ''''\<rparr>"

theorem full_route_takes_kept_slot_witness:
  "\<exists>st'. tcpRouteSlot ''r'' [3] sample_edge_sys = (True, st') \<and> pall (es_h3 st') = {} \<and>
     es_route_sem st' ''r'' = Some \<lparr>cap = 1, used = 1\<rparr>"
proof -
  have p: "pall sample_kept = {3}" "idles sample_kept 3 = Some \<lparr>is_ts = \<lparr>ts_id = 7, ts_agent = 1, ts_rs = ''r'', ts_host = ''h''\<rparr>, is_cs = 5\<rparr>"
    by (simp_all add: sample_kept_def sample_opened_def h3_put_def put_refuses_def newH3Pool_def newConn_def maxKeptPerConn_def Let_def)
  have inv: "h3_inv (es_h3 sample_edge_sys)"
    using h3_pool.reach_inv [OF reach_sample_kept] by (simp add: sample_edge_sys_def)
  have k: "kept_on ''r'' sample_edge_sys 3" by (simp add: kept_on_def sample_edge_sys_def p)
  have s: "es_route_sem sample_edge_sys ''r'' = Some \<lparr>cap = 1, used = 1\<rparr>" "pall (es_h3 sample_edge_sys) = {3}"
    by (simp_all add: sample_edge_sys_def p)
  have "\<exists>st' i. tcpRouteSlot ''r'' [3] sample_edge_sys = (True, st') \<and> kept_on ''r'' sample_edge_sys i \<and>
      pall (es_h3 st') = pall (es_h3 sample_edge_sys) - {i} \<and> es_route_sem st' ''r'' = es_route_sem sample_edge_sys ''r'' \<and>
      es_waiters st' = es_waiters sample_edge_sys \<and> h3_step\<^sup>*\<^sup>* (es_h3 sample_edge_sys) (es_h3 st')"
    by (rule full_route_takes_kept_slot) (use inv k s in \<open>auto simp: sem_defs\<close>)
  then show ?thesis using s by (auto simp: kept_on_def)
qed

end
