(* ===== verification/Edge_Agents.thy ===== *)
theory Edge_Agents
  imports Edge_State
begin

text \<open>
  How the edge takes agents into service and out of it: \<^verbatim>\<open>serveAgent\<close>, \<^verbatim>\<open>retireGoingAway\<close>,
  \<^verbatim>\<open>duplicateAfterProbe\<close>, \<^verbatim>\<open>refuseDuplicate\<close> (internal/edge/edge.go), and the listener
  they share (\<^verbatim>\<open>acceptLoop\<close>, \<^verbatim>\<open>listenIngress\<close>, \<^verbatim>\<open>ingressTLSConfig\<close>, \<^verbatim>\<open>takeAgent\<close>).

  A handler runs beside every other goroutine of the edge: between two of its own atomic steps the
  function \<open>others\<close> (numbered by the place) changes the state in any way the other goroutines can.
  What the network does is in \<open>serve_env\<close>.
\<close>

subsection \<open>Handshakes and sessions\<close>

record serve_env =
  sv_tls :: bool  \<comment> \<open>the connection is a TLS connection\<close>
  sv_handshake :: "io_error option"
  sv_fp :: fingerprint
  sv_addr :: string
  sv_proto :: string
  sv_session :: "session option"  \<comment> \<open>None: no yamux session could be made\<close>
  sv_ping :: "io_error option"
  sv_now :: instant
  sv_probe :: "agentConn \<Rightarrow> open_error option"  \<comment> \<open>the opens of retireGoingAway\<close>
  sv_order :: "h3_state \<Rightarrow> nat list"  \<comment> \<open>the order of ranging over the kept streams\<close>

datatype serve_outcome =
    NotTLS | HandshakeIncomplete | HandshakeRefused | NotAllowed | NoYamux | EdgeClosing | CappedConnecting
  | DuplicateEarly | ProbeOnly | NotReady | GoneLate | CappedLate | DuplicateLate | Serving

definition handshakeTimeout :: duration where "handshakeTimeout = 10 * second"
definition probeWait :: duration where "probeWait = second"

definition edge_track :: "fingerprint \<Rightarrow> session \<Rightarrow> edge_sys \<Rightarrow> trackResult \<times> edge_sys" where
  "edge_track fp s st =
     (let (res, r) = track fp s (reg (es_rs st))
      in (res, st\<lparr>es_rs := (es_rs st)\<lparr>reg := r, usedS := insert s (usedS (es_rs st))\<rparr>\<rparr>))"

definition edge_hasLiveExclusive :: "fingerprint \<Rightarrow> edge_sys \<Rightarrow> bool \<times> edge_sys" where
  "edge_hasLiveExclusive fp st =
     (let (b, r) = hasLiveExclusive (is_closed (es_rs st)) fp (reg (es_rs st)) in (b, on_reg (\<lambda>_. r) st))"

definition edge_register :: "agentConn \<Rightarrow> edge_sys \<Rightarrow> registration \<times> edge_sys" where
  "edge_register c st =
     (let ((res, _), r) = registerConn (is_closed (es_rs st)) (cfp c) c (reg (es_rs st)) in (res, on_reg (\<lambda>_. r) st))"

definition probe_one :: "serve_env \<Rightarrow> (nat \<Rightarrow> edge_sys \<Rightarrow> edge_sys) \<Rightarrow> edge_sys \<Rightarrow> agentConn \<Rightarrow> edge_sys" where
  "probe_one env others st0 c =
     (let st = others 10 st0
      in if \<not> cv2 c then st
         else if sv_probe env c = Some ErrRemoteGoAway then edge_retire (sv_order env (es_h3 st)) c st
         else st)"

definition retireGoingAway :: "serve_env \<Rightarrow> (nat \<Rightarrow> edge_sys \<Rightarrow> edge_sys) \<Rightarrow> fingerprint \<Rightarrow> edge_sys \<Rightarrow> edge_sys" where
  "retireGoingAway env others fp st =
     (let (live, _) = candidates (is_closed (es_rs st)) [fp] (reg (es_rs st))
      in foldl (probe_one env others) st live)"

definition duplicateAfterProbe :: "serve_env \<Rightarrow> (nat \<Rightarrow> edge_sys \<Rightarrow> edge_sys) \<Rightarrow> fingerprint \<Rightarrow> edge_sys \<Rightarrow> bool \<times> edge_sys" where
  "duplicateAfterProbe env others fp st =
     (let st = retireGoingAway env others fp st in edge_hasLiveExclusive fp (others 11 st))"

definition refuseDuplicate :: "session \<Rightarrow> edge_sys \<Rightarrow> edge_sys" where
  "refuseDuplicate s st = close_session s (on_state HandshakeDuplicate st)"

text \<open>The deferred \<^verbatim>\<open>e.reg.drop(session)\<close>, when the handler returns.\<close>

definition serve_return :: "(nat \<Rightarrow> edge_sys \<Rightarrow> edge_sys) \<Rightarrow> session \<Rightarrow> edge_sys \<Rightarrow> edge_sys" where
  "serve_return others s st = on_reg (drop_session s) (others 9 st)"

text \<open>The registration of \<^verbatim>\<open>serveAgent\<close> with its one retry after a probe.\<close>

definition register_retry :: "serve_env \<Rightarrow> (nat \<Rightarrow> edge_sys \<Rightarrow> edge_sys) \<Rightarrow> agentConn \<Rightarrow> bool \<Rightarrow> edge_sys \<Rightarrow> registration \<times> edge_sys" where
  "register_retry env others c probed st =
     (let (res, st) = edge_register c st
      in if res = refusedDuplicate \<and> \<not> probed then
           (let (dup, st) = duplicateAfterProbe env others (cfp c) (others 5 st)
            in if \<not> dup then edge_register c (others 6 st) else (res, st))
         else (res, st))"

text \<open>From the answered ping on.\<close>

definition serve_ready :: "serve_env \<Rightarrow> (nat \<Rightarrow> edge_sys \<Rightarrow> edge_sys) \<Rightarrow> session \<Rightarrow> bool \<Rightarrow> edge_sys \<Rightarrow> serve_outcome \<times> edge_sys" where
  "serve_ready env others s probed st =
     (let c = \<lparr>cfp = sv_fp env, csess = s, cv2 = (sv_proto env = ALPNv2)\<rparr>;
          st = on_state (AddAgent s) (on_state (NewAgentSession s (sv_fp env) (sv_addr env) (sv_now env)) st);
          (res, st) = register_retry env others c probed (others 4 st);
          st = (if res \<noteq> registered then on_state (AgentDisconnected s) st else st)
      in case res of
           registered \<Rightarrow> (Serving, on_state HandshakeOK st)
         | refusedGone \<Rightarrow> (GoneLate, serve_return others s (close_session s st))
         | refusedCap \<Rightarrow> (CappedLate, serve_return others s (close_session s (on_state HandshakeCapped st)))
         | refusedDuplicate \<Rightarrow> (DuplicateLate, serve_return others s (refuseDuplicate s st)))"

text \<open>From the tracked session on.\<close>

definition serve_tracked :: "serve_env \<Rightarrow> (nat \<Rightarrow> edge_sys \<Rightarrow> edge_sys) \<Rightarrow> session \<Rightarrow> edge_sys \<Rightarrow> serve_outcome \<times> edge_sys" where
  "serve_tracked env others s st =
     (let fp = sv_fp env;
          (probed, st) = edge_hasLiveExclusive fp (others 1 st);
          (dup, st) = (if probed then duplicateAfterProbe env others fp (others 2 st) else (False, st))
      in if dup then (DuplicateEarly, serve_return others s (refuseDuplicate s st))
         else
           (let st = others 3 st
            in case sv_ping env of
                 Some err \<Rightarrow>
                   (if err = ErrSessionShutdown \<or> s \<in> closedS (es_rs st)
                    then (ProbeOnly, serve_return others s (close_session s st))
                    else (NotReady, serve_return others s (close_session s (on_state HandshakeFail st))))
               | None \<Rightarrow> serve_ready env others s probed st))"

text \<open>\<^verbatim>\<open>serveAgent\<close> until the agent is in service or refused.\<close>

definition serveAgent :: "serve_env \<Rightarrow> (nat \<Rightarrow> edge_sys \<Rightarrow> edge_sys) \<Rightarrow> edge \<Rightarrow> edge_sys \<Rightarrow> serve_outcome \<times> edge_sys" where
  "serveAgent env others e st =
     (if \<not> sv_tls env then (NotTLS, st)
      else (case sv_handshake env of
          Some err \<Rightarrow>
            if IsTeardown err then (HandshakeIncomplete, st) else (HandshakeRefused, on_state HandshakeRejected st)
        | None \<Rightarrow>
            if e_allowed e \<noteq> {} \<and> sv_fp env \<notin> e_allowed e then (NotAllowed, on_state HandshakeFail st)
            else (case sv_session env of
                None \<Rightarrow> (NoYamux, st)
              | Some s \<Rightarrow>
                  (let (res, st) = edge_track (sv_fp env) s (others 0 st)
                   in case res of
                        trackClosing \<Rightarrow> (EdgeClosing, close_session s st)
                      | trackCapped \<Rightarrow> (CappedConnecting, close_session s (on_state HandshakeCapped st))
                      | trackOK \<Rightarrow> serve_tracked env others s st))))"

text \<open>Its end, once the session of an agent in service has closed.\<close>

definition serveAgent_end :: "(nat \<Rightarrow> edge_sys \<Rightarrow> edge_sys) \<Rightarrow> session \<Rightarrow> edge_sys \<Rightarrow> edge_sys" where
  "serveAgent_end others s st = serve_return others s (on_state (AgentDisconnected s) st)"

subsection \<open>The handler moves the registry only by its steps\<close>

lemma frame_ops [simp]:
  "es_rs (on_state f st) = es_rs st" "es_state (on_reg g st) = es_state st" "es_state (close_session s st) = es_state st"
  "reg (es_rs (close_session s st)) = reg (es_rs st)" "reg (es_rs (on_reg g st)) = g (reg (es_rs st))"
  "closedS (es_rs (on_reg g st)) = closedS (es_rs st)" "usedS (es_rs (on_reg g st)) = usedS (es_rs st)"
  "closedS (es_rs (close_session s st)) = insert s (closedS (es_rs st))" "usedS (es_rs (close_session s st)) = usedS (es_rs st)"
  "es_state (on_state f st) = f (es_state st)"
  by (simp_all add: on_state_def on_reg_def close_session_def)

lemma es_rs_on_reg: "es_rs (on_reg g st) = (es_rs st)\<lparr>reg := g (reg (es_rs st))\<rparr>"
  by (simp add: on_reg_def)

lemma es_rs_close_session: "es_rs (close_session s st) = (es_rs st)\<lparr>closedS := insert s (closedS (es_rs st))\<rparr>"
  by (simp add: close_session_def)

text \<open>The moves of the registry that leave the entry of session \<open>s\<close> alone.\<close>

definition keeps :: "session \<Rightarrow> edge_sys \<Rightarrow> edge_sys \<Rightarrow> bool" where
  "keeps s st st' \<longleftrightarrow> reg_step\<^sup>*\<^sup>* (es_rs st) (es_rs st') \<and> all (reg (es_rs st')) s = all (reg (es_rs st)) s"

text \<open>What the other goroutines may do meanwhile: any steps of the registry, except on the entry of
  this handler's own session, which only this handler registers and drops.\<close>

definition others_ok :: "session \<Rightarrow> (nat \<Rightarrow> edge_sys \<Rightarrow> edge_sys) \<Rightarrow> bool" where
  "others_ok s others \<longleftrightarrow> (\<forall>k st. keeps s st (others k st) \<and> (s \<in> usedS (es_rs (others k st)) \<longleftrightarrow> s \<in> usedS (es_rs st)))"

lemma keeps_trans [trans]: "keeps s a b \<Longrightarrow> keeps s b c \<Longrightarrow> keeps s a c"
  by (auto simp: keeps_def)

lemma keeps_refl [simp]: "keeps s a a"
  by (simp add: keeps_def)

lemma keeps_same [simp]: "es_rs b = es_rs a \<Longrightarrow> keeps s a b"
  by (simp add: keeps_def)

lemma keeps_others: "others_ok s others \<Longrightarrow> keeps s st (others k st)"
  by (simp add: others_ok_def)

lemma keeps_then_others: "others_ok s others \<Longrightarrow> keeps s a b \<Longrightarrow> keeps s a (others k b)"
  by (rule keeps_trans [OF _ keeps_others])

lemma all_liveLocked: "all (snd (liveLocked closed fp r)) = all r"
  by (simp add: liveLocked_def Let_def)

lemma all_take: "all (take_session fp s r) = all r"
  by (simp add: take_session_def removeLocked_def Let_def)

lemma all_registerConn:
  "fst (fst (registerConn closed fp c r)) \<noteq> registered \<Longrightarrow> all (snd (registerConn closed fp c r)) = all r"
  using all_liveLocked [of closed fp r] by (auto simp: registerConn_def Let_def case_prod_unfold split: if_splits)

lemma keeps_hasLiveExclusive: "keeps s st (snd (edge_hasLiveExclusive fp st))"
proof -
  have "reg_step (es_rs st) (es_rs (snd (edge_hasLiveExclusive fp st)))"
    using step_ask [of "es_rs st" fp] by (simp add: edge_hasLiveExclusive_def case_prod_unfold es_rs_on_reg Let_def)
  moreover have "all (snd (hasLiveExclusive (is_closed (es_rs st)) fp (reg (es_rs st)))) = all (reg (es_rs st))"
    by (simp add: hasLiveExclusive_def case_prod_unfold all_liveLocked Let_def)
  ultimately show ?thesis by (auto simp: keeps_def edge_hasLiveExclusive_def case_prod_unfold Let_def)
qed

lemma es_rs_foldl_close_kept [simp]: "es_rs (foldl (\<lambda>st i. close_kept i st) st is) = es_rs st"
  by (induction "is" arbitrary: st) simp_all

lemma es_rs_close_agent_streams [simp]: "es_rs (close_agent_streams s order st) = es_rs st"
  by (simp add: close_agent_streams_def Let_def)

lemma es_rs_retire:
  "es_rs (edge_retire order c st) =
     (if csess c \<in> es_retired st then es_rs st else (es_rs st)\<lparr>reg := take_session (cfp c) (csess c) (reg (es_rs st))\<rparr>)"
  by (simp add: edge_retire_def Let_def es_rs_on_reg)

lemma keeps_retire: "keeps s st (edge_retire order c st)"
  using step_take [of "es_rs st" "cfp c" "csess c"] by (auto simp: keeps_def es_rs_retire all_take)

lemma keeps_evict: "keeps s st (edge_evict c st)"
proof -
  let ?st = "on_reg (take_session (cfp c) (csess c)) st"
  have "reg_step (es_rs st) (es_rs ?st)" using step_take [of "es_rs st" "cfp c" "csess c"] by (simp add: es_rs_on_reg)
  moreover have "reg_step (es_rs ?st) (es_rs (close_session (csess c) ?st))"
    using step_close [of "es_rs ?st" "csess c"] by (simp add: es_rs_close_session)
  ultimately show ?thesis by (auto simp: keeps_def edge_evict_def Let_def all_take on_state_def close_session_def)
qed

lemma keeps_probe_one: "others_ok s others \<Longrightarrow> keeps s st (probe_one env others st c)"
  by (auto simp: probe_one_def Let_def intro: keeps_others keeps_trans [OF keeps_others keeps_retire])

lemma keeps_retireGoingAway:
  assumes "others_ok s others"
  shows "keeps s st (retireGoingAway env others fp st)"
proof -
  have "keeps s st (foldl (probe_one env others) st cs)" for cs
    by (induction cs arbitrary: st) (auto intro: keeps_trans [OF keeps_probe_one [OF assms]])
  then show ?thesis by (simp add: retireGoingAway_def case_prod_unfold Let_def)
qed

lemma keeps_duplicateAfterProbe: "others_ok s others \<Longrightarrow> keeps s st (snd (duplicateAfterProbe env others fp st))"
  unfolding duplicateAfterProbe_def Let_def
  by (rule keeps_trans [OF keeps_then_others [OF _ keeps_retireGoingAway] keeps_hasLiveExclusive])

text \<open>A session stays closed.\<close>

lemma reg_step_closed: "reg_step a b \<Longrightarrow> s \<in> closedS a \<Longrightarrow> s \<in> closedS b"
  by (induction rule: reg_step.induct) auto

lemma reg_steps_closed: "reg_step\<^sup>*\<^sup>* a b \<Longrightarrow> s \<in> closedS a \<Longrightarrow> s \<in> closedS b"
  by (induction rule: rtranclp_induct) (auto dest: reg_step_closed)

lemma serve_return_steps:
  assumes "others_ok s others" and "s \<in> closedS (es_rs st)"
  shows "reg_step\<^sup>*\<^sup>* (es_rs st) (es_rs (serve_return others s st))"
proof -
  have o': "reg_step\<^sup>*\<^sup>* (es_rs st) (es_rs (others 9 st))" using keeps_others [OF assms(1)] by (simp add: keeps_def)
  have "s \<in> closedS (es_rs (others 9 st))" by (rule reg_steps_closed [OF o' assms(2)])
  from step_drop [OF this] have "reg_step (es_rs (others 9 st)) (es_rs (serve_return others s st))"
    by (simp add: serve_return_def es_rs_on_reg)
  with o' show ?thesis by simp
qed

lemma close_return_steps:
  assumes "others_ok s others"
  shows "reg_step\<^sup>*\<^sup>* (es_rs st) (es_rs (serve_return others s (close_session s st)))"
proof -
  have "reg_step (es_rs st) (es_rs (close_session s st))"
    using step_close [of "es_rs st" s] by (simp add: es_rs_close_session)
  moreover have "s \<in> closedS (es_rs (close_session s st))" by simp
  ultimately show ?thesis using serve_return_steps [OF assms] by (meson converse_rtranclp_into_rtranclp)
qed

text \<open>Registering the handler's own session, while it is tracked and has not joined.\<close>

abbreviation waiting_as :: "session \<Rightarrow> fingerprint \<Rightarrow> edge_sys \<Rightarrow> bool" where
  "waiting_as s fp st \<equiv> all (reg (es_rs st)) s = Some \<lparr>tfp = fp, tjoined = False\<rparr>"

lemma waiting_keeps: "waiting_as s fp st \<Longrightarrow> keeps s st st' \<Longrightarrow> waiting_as s fp st'"
  by (simp add: keeps_def)

lemma register_steps:
  assumes "waiting_as (csess c) (cfp c) st"
  shows "reg_step\<^sup>*\<^sup>* (es_rs st) (es_rs (snd (edge_register c st)))"
    and "fst (edge_register c st) \<noteq> registered \<Longrightarrow> keeps (csess c) st (snd (edge_register c st))"
proof -
  let ?r = "snd (registerConn (is_closed (es_rs st)) (cfp c) c (reg (es_rs st)))"
  have eq: "snd (edge_register c st) = on_reg (\<lambda>_. ?r) st"
    "fst (edge_register c st) = fst (fst (registerConn (is_closed (es_rs st)) (cfp c) c (reg (es_rs st))))"
    by (simp_all add: edge_register_def case_prod_unfold Let_def)
  have step: "reg_step (es_rs st) (es_rs (snd (edge_register c st)))"
    unfolding eq es_rs_on_reg using assms by (rule step_register)
  then show "reg_step\<^sup>*\<^sup>* (es_rs st) (es_rs (snd (edge_register c st)))" by simp
  assume "fst (edge_register c st) \<noteq> registered"
  with all_registerConn [of "is_closed (es_rs st)" "cfp c" c "reg (es_rs st)"] eq
  have "all (reg (es_rs (snd (edge_register c st)))) = all (reg (es_rs st))" by simp
  with step show "keeps (csess c) st (snd (edge_register c st))" by (auto simp: keeps_def)
qed

lemma register_retry_steps:
  assumes ok: "others_ok (csess c) others" and w: "waiting_as (csess c) (cfp c) st"
  shows "reg_step\<^sup>*\<^sup>* (es_rs st) (es_rs (snd (register_retry env others c probed st)))"
proof (cases "fst (edge_register c st) = refusedDuplicate \<and> \<not> probed")
  case False
  then show ?thesis using register_steps(1) [OF w] by (auto simp: register_retry_def case_prod_unfold Let_def)
next
  case True
  let ?s1 = "snd (edge_register c st)"
  have k1: "keeps (csess c) st ?s1" using True by (intro register_steps(2) [OF w]) simp
  let ?d = "duplicateAfterProbe env others (cfp c) (others 5 ?s1)"
  have k2: "keeps (csess c) st (snd ?d)"
    by (rule keeps_trans [OF keeps_then_others [OF ok k1] keeps_duplicateAfterProbe [OF ok]])
  show ?thesis
  proof (cases "fst ?d")
    case dup: True
    then show ?thesis using True k2 by (simp add: register_retry_def case_prod_unfold Let_def keeps_def)
  next
    case dup: False
    have k3: "keeps (csess c) st (others 6 (snd ?d))" by (rule keeps_then_others [OF ok k2])
    have "reg_step\<^sup>*\<^sup>* (es_rs (others 6 (snd ?d))) (es_rs (snd (edge_register c (others 6 (snd ?d)))))"
      by (rule register_steps(1) [OF waiting_keeps [OF w k3]])
    with k3 True dup show ?thesis by (auto simp: register_retry_def case_prod_unfold Let_def keeps_def)
  qed
qed

lemma serve_ready_steps:
  assumes ok: "others_ok s others" and w: "waiting_as s (sv_fp env) st"
  shows "reg_step\<^sup>*\<^sup>* (es_rs st) (es_rs (snd (serve_ready env others s probed st)))"
proof -
  let ?c = "\<lparr>cfp = sv_fp env, csess = s, cv2 = (sv_proto env = ALPNv2)\<rparr>"
  let ?st1 = "on_state (AddAgent s) (on_state (NewAgentSession s (sv_fp env) (sv_addr env) (sv_now env)) st)"
  have k: "keeps s st (others 4 ?st1)" by (rule keeps_then_others [OF ok]) simp
  define p where "p = register_retry env others ?c probed (others 4 ?st1)"
  have "reg_step\<^sup>*\<^sup>* (es_rs (others 4 ?st1)) (es_rs (snd p))"
    unfolding p_def by (rule register_retry_steps) (use ok waiting_keeps [OF w k] in simp_all)
  with k have p: "reg_step\<^sup>*\<^sup>* (es_rs st) (es_rs (snd p))" by (auto simp: keeps_def)
  have fin: "reg_step\<^sup>*\<^sup>* (es_rs st) (es_rs (serve_return others s (close_session s (on_state f (on_state g (snd p))))))" for f g
    using p close_return_steps [OF ok, of "on_state f (on_state g (snd p))"] by auto
  have fin1: "reg_step\<^sup>*\<^sup>* (es_rs st) (es_rs (serve_return others s (close_session s (on_state g (snd p)))))" for g
    using p close_return_steps [OF ok, of "on_state g (snd p)"] by auto
  show ?thesis
    using p fin fin1 unfolding serve_ready_def Let_def p_def [symmetric]
    by (auto simp: case_prod_unfold refuseDuplicate_def split: registration.splits)
qed

lemma serve_tracked_steps:
  assumes ok: "others_ok s others" and w: "waiting_as s (sv_fp env) st"
  shows "reg_step\<^sup>*\<^sup>* (es_rs st) (es_rs (snd (serve_tracked env others s st)))"
proof -
  define l where "l = edge_hasLiveExclusive (sv_fp env) (others 1 st)"
  define d where "d = (if fst l then duplicateAfterProbe env others (sv_fp env) (others 2 (snd l)) else (False, snd l))"
  have k1: "keeps s st (snd l)" unfolding l_def by (rule keeps_trans [OF keeps_others [OF ok] keeps_hasLiveExclusive])
  have "keeps s (others 2 (snd l)) (snd (duplicateAfterProbe env others (sv_fp env) (others 2 (snd l))))"
    by (rule keeps_duplicateAfterProbe [OF ok])
  with k1 have k2: "keeps s st (snd d)" by (auto simp: d_def intro: keeps_trans keeps_then_others [OF ok])
  have k3: "keeps s st (others 3 (snd d))" by (rule keeps_then_others [OF ok k2])
  have fin: "reg_step\<^sup>*\<^sup>* (es_rs st) (es_rs (serve_return others s (close_session s st')))" if "keeps s st st'" for st'
    using that close_return_steps [OF ok, of st'] by (auto simp: keeps_def)
  have rdy: "reg_step\<^sup>*\<^sup>* (es_rs st) (es_rs (snd (serve_ready env others s b (others 3 (snd d)))))" for b
    using serve_ready_steps [OF ok waiting_keeps [OF w k3], of b] k3 by (auto simp: keeps_def)
  have "keeps s st (on_state f (snd d))" "keeps s st (on_state f (others 3 (snd d)))" for f
    using k2 k3 by (auto intro: keeps_trans)
  then show ?thesis
    using fin k3 rdy unfolding serve_tracked_def Let_def l_def [symmetric] case_prod_unfold d_def [symmetric]
    by (auto simp: refuseDuplicate_def split: option.splits)
qed


text \<open>What the outcomes count: completed, failed, rejected, duplicate, capped.\<close>

definition counts_as :: "serve_outcome \<Rightarrow> int list" where
  "counts_as o' = (case o' of
      Serving \<Rightarrow> [1, 0, 0, 0, 0]
    | HandshakeRefused \<Rightarrow> [0, 0, 1, 0, 0]
    | NotAllowed \<Rightarrow> [0, 1, 0, 0, 0] | NotReady \<Rightarrow> [0, 1, 0, 0, 0]
    | DuplicateEarly \<Rightarrow> [0, 0, 0, 1, 0] | DuplicateLate \<Rightarrow> [0, 0, 0, 1, 0]
    | CappedConnecting \<Rightarrow> [0, 0, 0, 0, 1] | CappedLate \<Rightarrow> [0, 0, 0, 0, 1]
    | _ \<Rightarrow> [0, 0, 0, 0, 0])"

definition handshakes :: "State \<Rightarrow> int list" where
  "handshakes s = [handshakeOK s, handshakeFail s, handshakeRejected s, handshakeDup s, handshakeCapped s]"

definition add_counts :: "int list \<Rightarrow> int list \<Rightarrow> int list" where
  "add_counts xs ys = map2 (+) xs ys"

lemma handshakes_ops [simp]:
  "handshakes (StreamClosed p s) = handshakes s" "handshakes (session_StreamClosed a s) = handshakes s"
  "handshakes (session_SetDraining a s) = handshakes s" "handshakes (AddAgent a s) = handshakes s"
  "handshakes (NewAgentSession a fp addr now s) = handshakes s" "handshakes (AgentDisconnected a s) = handshakes s"
  by (auto simp: handshakes_def StreamClosed_def on_route_def session_StreamClosed_def session_SetDraining_def on_session_def
      AddAgent_def NewAgentSession_def AgentDisconnected_def Let_def split: option.splits)

lemma handshakes_close_kept [simp]: "handshakes (es_state (close_kept i st)) = handshakes (es_state st)"
  by (simp add: close_kept_def close_tunnelStream_def Let_def split: option.splits)

lemma handshakes_retire [simp]: "handshakes (es_state (edge_retire order c st)) = handshakes (es_state st)"
proof -
  have "handshakes (es_state (foldl (\<lambda>st i. close_kept i st) st xs)) = handshakes (es_state st)" for xs st
    by (induction xs arbitrary: st) simp_all
  then show ?thesis by (simp add: edge_retire_def close_agent_streams_def Let_def)
qed

text \<open>Nothing else runs.\<close>

abbreviation alone :: "nat \<Rightarrow> edge_sys \<Rightarrow> edge_sys" where
  "alone \<equiv> \<lambda>_ st. st"

lemma handshakes_probe [simp]: "handshakes (es_state (retireGoingAway env alone fp st)) = handshakes (es_state st)"
proof -
  have "handshakes (es_state (foldl (probe_one env alone) st cs)) = handshakes (es_state st)" for cs
    by (induction cs arbitrary: st) (simp_all add: probe_one_def Let_def)
  then show ?thesis by (simp add: retireGoingAway_def Let_def case_prod_unfold)
qed

lemma handshakes_registry [simp]:
  "handshakes (es_state (snd (edge_hasLiveExclusive fp st))) = handshakes (es_state st)"
  "handshakes (es_state (snd (edge_register c st))) = handshakes (es_state st)"
  "handshakes (es_state (snd (edge_track fp s st))) = handshakes (es_state st)"
  "handshakes (es_state (snd (duplicateAfterProbe env alone fp st))) = handshakes (es_state st)"
  "handshakes (es_state (snd (register_retry env alone c b st))) = handshakes (es_state st)"
  "handshakes (es_state (serve_return alone s st)) = handshakes (es_state st)"
  by (simp_all add: edge_hasLiveExclusive_def edge_register_def edge_track_def duplicateAfterProbe_def register_retry_def
      serve_return_def Let_def case_prod_unfold)

lemma handshakes_count:
  "handshakes (HandshakeOK s) = add_counts (handshakes s) [1, 0, 0, 0, 0]" "handshakes (HandshakeFail s) = add_counts (handshakes s) [0, 1, 0, 0, 0]"
  "handshakes (HandshakeRejected s) = add_counts (handshakes s) [0, 0, 1, 0, 0]" "handshakes (HandshakeDuplicate s) = add_counts (handshakes s) [0, 0, 0, 1, 0]"
  "handshakes (HandshakeCapped s) = add_counts (handshakes s) [0, 0, 0, 0, 1]"
  by (simp_all add: add_counts_def handshakes_def HandshakeOK_def HandshakeFail_def HandshakeRejected_def HandshakeDuplicate_def HandshakeCapped_def)

lemma handshakes_none: "add_counts (handshakes s) [0, 0, 0, 0, 0] = handshakes s"
  by (simp add: add_counts_def handshakes_def)

lemma serve_ready_counts:
  "handshakes (es_state (snd (serve_ready env alone s b st))) =
     add_counts (handshakes (es_state st)) (counts_as (fst (serve_ready env alone s b st)))"
  unfolding serve_ready_def Let_def case_prod_unfold
  by (simp add: counts_as_def handshakes_count handshakes_none refuseDuplicate_def split: registration.splits)

lemma serve_tracked_counts:
  "handshakes (es_state (snd (serve_tracked env alone s st))) =
     add_counts (handshakes (es_state st)) (counts_as (fst (serve_tracked env alone s st)))"
  unfolding serve_tracked_def Let_def case_prod_unfold
  by (simp add: serve_ready_counts counts_as_def handshakes_count handshakes_none refuseDuplicate_def split: option.splits)

lemma serveAgent_counts:
  "handshakes (es_state (snd (serveAgent env alone e st))) =
     add_counts (handshakes (es_state st)) (counts_as (fst (serveAgent env alone e st)))"
  unfolding serveAgent_def Let_def case_prod_unfold
  by (simp add: serve_tracked_counts counts_as_def handshakes_count handshakes_none split: option.splits trackResult.splits)

lemma registerConn_joins_pool:
  assumes "fst (fst (registerConn closed fp c r)) = registered"
  shows "c \<in> set (pool (snd (registerConn closed fp c r)) fp) \<and> \<not> closed (csess c)"
  using assms
  by (auto simp: registerConn_def Let_def case_prod_unfold pool_def unpendLocked_def split: if_splits option.splits)

lemma register_retry_registered:
  "fst (register_retry env others c b st) = registered \<Longrightarrow>
   c \<in> set (pool (reg (es_rs (snd (register_retry env others c b st)))) (cfp c)) \<and>
   csess c \<notin> closedS (es_rs (snd (register_retry env others c b st)))"
  using registerConn_joins_pool
  by (fastforce simp: register_retry_def edge_register_def Let_def case_prod_unfold split: if_splits)

lemma serve_tracked_serving:
  assumes "serve_tracked env others s st = (Serving, st')"
  shows "sv_ping env = None \<and> \<lparr>cfp = sv_fp env, csess = s, cv2 = (sv_proto env = ALPNv2)\<rparr> \<in> set (pool (reg (es_rs st')) (sv_fp env)) \<and>
    s \<notin> closedS (es_rs st')"
proof -
  from assms obtain b st0 where p: "sv_ping env = None" and r: "serve_ready env others s b st0 = (Serving, st')"
    unfolding serve_tracked_def Let_def case_prod_unfold by (auto split: if_splits option.splits)
  let ?c = "\<lparr>cfp = sv_fp env, csess = s, cv2 = (sv_proto env = ALPNv2)\<rparr>"
  define q where "q = register_retry env others ?c b (others 4 (on_state (AddAgent s)
    (on_state (NewAgentSession s (sv_fp env) (sv_addr env) (sv_now env)) st0)))"
  from r have "fst q = registered" "st' = on_state HandshakeOK (snd q)"
    unfolding serve_ready_def Let_def case_prod_unfold q_def [symmetric] by (auto split: registration.splits)
  with register_retry_registered [of env others ?c b] p show ?thesis by (simp add: q_def)
qed


definition sample_serve :: serve_env where
  "sample_serve = \<lparr>sv_tls = True, sv_handshake = None, sv_fp = ''ab'', sv_addr = ''1.2.3.4:5'', sv_proto = ALPNv2, sv_session = Some 1,
     sv_ping = None, sv_now = 0, sv_probe = (\<lambda>_. None), sv_order = (\<lambda>_. [])\<rparr>"

definition sample_edge_value :: edge where
  "sample_edge_value = \<lparr>e_cfg = sample_edge, e_allowed = {''ab''}, e_routes = empty_Matcher\<rparr>"

lemma sample_serving: "fst (serveAgent sample_serve alone sample_edge_value sample_edge_sys) = Serving"
  by (simp add: serveAgent_def sample_serve_def sample_edge_value_def edge_track_def track_def maxSharedSessions_def count_of_def
      sample_edge_sys_def newRegistry_def serve_tracked_def edge_hasLiveExclusive_def hasLiveExclusive_def liveLocked_def
      duplicateLocked_def pool_def on_reg_def serve_ready_def register_retry_def edge_register_def registerConn_def on_state_def Let_def)



end
