(* ===== verification/Stream_Pipe.thy ===== *)
theory Stream_Pipe
  imports Tunnel "HOL-Library.Sublist"
begin

text \<open>
  Package \<^verbatim>\<open>internal/proxy\<close>: copying both ways between a stream and a connection
  (proxy.go), a connection with bytes read ahead and one with a rolling deadline (conn.go). A
  direction is given by the reads of its source and the results of the writes to its
  destination, in the order they happen; \<^verbatim>\<open>io.Copy\<close> is written out.
\<close>

subsection \<open>One direction\<close>

text \<open>\<^verbatim>\<open>progressWriter.Write\<close>: what the write of the wrapped writer returned is returned, and
  reported when it is positive.\<close>

definition progress_Write :: "nat \<times> io_error option \<Rightarrow> (nat \<times> io_error option) \<times> int list" where
  "progress_Write res = (res, if 0 < fst res then [int (fst res)] else [])"

datatype copy_error = CopyIO io_error | ErrShortWrite | ErrInvalidWrite

text \<open>The end of a direction: bytes written as \<^verbatim>\<open>io.Copy\<close> counts them, its error, the reports made,
  and the bytes themselves that reached the destination.\<close>

record copied =
  cp_n :: int
  cp_err :: "copy_error option"
  cp_reports :: "int list"
  cp_bytes :: bytes

text \<open>
  \<^verbatim>\<open>io.Copy(progressWriter{w, report}, r)\<close>. Each read returns at most the buffer; the loop
  ends at the first error. \<open>None\<close> when the listed reads and writes do not end it: it is still
  copying.
\<close>

fun copy_loop :: "copied \<Rightarrow> (bytes \<times> io_error option) list \<Rightarrow> (nat \<times> io_error option) list \<Rightarrow> copied option" where
  "copy_loop acc [] ws = None"
| "copy_loop acc ((buf, er) # rs) ws =
     (let rest = (\<lambda>acc ws. case er of
            Some e \<Rightarrow> Some (if e = EOF then acc else acc\<lparr>cp_err := Some (CopyIO e)\<rparr>)
          | None \<Rightarrow> copy_loop acc rs ws)
      in if buf = [] then rest acc ws
         else (case ws of
             [] \<Rightarrow> None
           | w # ws \<Rightarrow>
               (let ((nw, ew), rep) = progress_Write w;
                    bad = length buf < nw;
                    ew = (if bad \<and> ew = None then Some ErrInvalidWrite else map_option CopyIO ew);
                    nw' = (if bad then 0 else nw);
                    acc = acc\<lparr>cp_n := cp_n acc + int nw', cp_reports := cp_reports acc @ rep,
                              cp_bytes := cp_bytes acc @ take nw buf\<rparr>
                in if ew \<noteq> None then Some (acc\<lparr>cp_err := ew\<rparr>)
                   else if nw' \<noteq> length buf then Some (acc\<lparr>cp_err := Some ErrShortWrite\<rparr>)
                   else rest acc ws)))"

definition Copy :: "(bytes \<times> io_error option) list \<Rightarrow> (nat \<times> io_error option) list \<Rightarrow> copied option" where
  "Copy rs ws = copy_loop \<lparr>cp_n = 0, cp_err = None, cp_reports = [], cp_bytes = []\<rparr> rs ws"

text \<open>A destination that follows the contract of \<^verbatim>\<open>io.Writer\<close>: it never claims more than it was given,
  and a short write has an error.\<close>

fun writer_ok :: "(bytes \<times> io_error option) list \<Rightarrow> (nat \<times> io_error option) list \<Rightarrow> bool" where
  "writer_ok [] ws = True"
| "writer_ok ((buf, er) # rs) ws =
     (if buf = [] then writer_ok rs ws
      else (case ws of
          [] \<Rightarrow> True
        | (nw, ew) # ws \<Rightarrow> nw \<le> length buf \<and> (nw < length buf \<longrightarrow> ew \<noteq> None) \<and> writer_ok rs ws))"

subsection \<open>Both directions\<close>

text \<open>\<^verbatim>\<open>Pipe\<close>'s error: the first of the two (in the order the directions ended) that is not the
  normal end of a stream.\<close>

definition benign_end :: "copy_error \<Rightarrow> bool" where
  "benign_end e \<longleftrightarrow> e \<in> {CopyIO EOF, CopyIO ErrNetClosed, CopyIO (ErrOther ''io: read/write on closed pipe'')}"

fun pipe_err :: "copy_error option list \<Rightarrow> copy_error option" where
  "pipe_err [] = None"
| "pipe_err (None # es) = pipe_err es"
| "pipe_err (Some e # es) = (if benign_end e then pipe_err es else Some e)"

text \<open>\<^verbatim>\<open>PipeProgress\<close>, with both reports set; \<open>a_first\<close> says that the direction from a to b ends first.\<close>

definition PipeProgress :: "bool \<Rightarrow> (bytes \<times> io_error option) list \<times> (nat \<times> io_error option) list \<Rightarrow>
    (bytes \<times> io_error option) list \<times> (nat \<times> io_error option) list \<Rightarrow>
    ((int \<times> int \<times> copy_error option) \<times> copied \<times> copied) option" where
  "PipeProgress a_first ab ba = (case (Copy (fst ab) (snd ab), Copy (fst ba) (snd ba)) of
      (Some x, Some y) \<Rightarrow>
        Some ((cp_n x, cp_n y, pipe_err (if a_first then [cp_err x, cp_err y] else [cp_err y, cp_err x])), x, y)
    | _ \<Rightarrow> None)"

subsection \<open>Connections (conn.go)\<close>

text \<open>\<^verbatim>\<open>WithPrefix\<close>: an \<^verbatim>\<open>io.MultiReader\<close> of the bytes read ahead and the connection. Its \<^verbatim>\<open>Read\<close> of
  up to \<open>n\<close> bytes; \<open>rd\<close> is the connection's own \<^verbatim>\<open>Read\<close>.\<close>

record PrefixConn =
  pc_prefix :: bytes

definition WithPrefix :: "bytes \<Rightarrow> PrefixConn" where
  "WithPrefix p = \<lparr>pc_prefix = p\<rparr>"

definition prefix_Read :: "(nat \<Rightarrow> bytes \<times> io_error option) \<Rightarrow> PrefixConn \<Rightarrow> nat \<Rightarrow>
    (bytes \<times> io_error option) \<times> PrefixConn" where
  "prefix_Read rd p n =
     (if pc_prefix p = [] then (rd n, p)
      else ((take n (pc_prefix p), None), \<lparr>pc_prefix = drop n (pc_prefix p)\<rparr>))"

text \<open>\<^verbatim>\<open>IdleConn.bump\<close> before each read and write: the deadline then in force.\<close>

definition bump :: "duration \<Rightarrow> instant \<Rightarrow> instant option \<Rightarrow> instant option" where
  "bump idle now deadline = (if 0 < idle then Some (now + idle) else deadline)"

subsection \<open>What is copied\<close>

definition copied_ok :: "copied \<Rightarrow> bool" where
  "copied_ok c \<longleftrightarrow> cp_n c = sum_list (cp_reports c) \<and> cp_n c = int (length (cp_bytes c))"

lemma copy_loop_ok:
  assumes "writer_ok rs ws" and "copied_ok acc" and "copy_loop acc rs ws = Some c"
  shows "copied_ok c \<and> (\<exists>p. cp_bytes c = cp_bytes acc @ p \<and> prefix p (concat (map fst rs)))"
  using assms
proof (induction rs arbitrary: acc ws)
  case Nil
  then show ?case by simp
next
  case (Cons r rs)
  obtain buf er where r: "r = (buf, er)" by (cases r)
  note 2 = Cons.IH Cons.prems [unfolded r]
  show ?case
  proof (cases "buf = []")
    case True
    show ?thesis
    proof (cases er)
      case None
      with True 2(4) have "copy_loop acc rs ws = Some c" by simp
      moreover from True 2(2) have "writer_ok rs ws" by simp
      ultimately show ?thesis using 2(1) [of ws acc] 2(3) True by (simp add: r)
    next
      case (Some e)
      with True 2(3,4) show ?thesis by (auto simp: r copied_ok_def split: if_splits)
    qed
  next
    case False
    with 2(4) obtain nw ew ws' where ws: "ws = (nw, ew) # ws'"
      by (auto simp: Let_def split: list.splits prod.splits)
    with 2(2) False have le: "nw \<le> length buf" "nw < length buf \<longrightarrow> ew \<noteq> None" "writer_ok rs ws'" by auto
    define acc' where "acc' = acc\<lparr>cp_n := cp_n acc + int nw, cp_reports := cp_reports acc @ (if 0 < nw then [int nw] else []),
      cp_bytes := cp_bytes acc @ take nw buf\<rparr>"
    have ok: "copied_ok acc'" using 2(3) le by (simp add: copied_ok_def acc'_def)
    have stop: ?thesis if "c = acc' \<or> (\<exists>e. c = acc'\<lparr>cp_err := e\<rparr>)"
      using that ok by (auto simp: r copied_ok_def acc'_def take_is_prefix intro: prefix_prefix)
    show ?thesis
    proof (cases "ew = None \<and> er = None")
      case True
      then have loop: "copy_loop acc' rs ws' = Some c" and all: "take nw buf = buf"
        using 2(4) le False by (auto simp: ws acc'_def progress_Write_def Let_def split: if_splits)
      have "copied_ok c \<and> (\<exists>p. cp_bytes c = cp_bytes acc' @ p \<and> prefix p (concat (map fst rs)))"
        by (rule 2(1) [OF le(3) ok loop])
      then show ?thesis using all by (auto simp: r acc'_def)
    next
      case False
      then show ?thesis using stop 2(4) le \<open>buf \<noteq> []\<close>
        by (auto simp: ws acc'_def progress_Write_def Let_def split: if_splits option.splits)
    qed
  qed
qed

lemma copy_loop_complete:
  assumes "copy_loop acc rs ws = Some c" and "cp_err acc = None" and "cp_err c = None"
  shows "\<exists>k < length rs. snd (rs ! k) = Some EOF \<and> cp_bytes c = cp_bytes acc @ concat (map fst (take (Suc k) rs))"
  using assms
proof (induction rs arbitrary: acc ws)
  case Nil
  then show ?case by simp
next
  case (Cons r rs)
  obtain buf er where r: "r = (buf, er)" by (cases r)
  have now: ?case if "er = Some EOF" "cp_bytes c = cp_bytes acc @ buf"
    using that by (intro exI [of _ 0]) (simp add: r)
  have later: ?case if IH: "copy_loop acc' rs ws' = Some c" "cp_err acc' = None" "cp_bytes acc' = cp_bytes acc @ buf" for acc' ws'
  proof -
    from Cons.IH [OF IH(1,2) Cons.prems(3)] obtain k where "k < length rs" "snd (rs ! k) = Some EOF"
      "cp_bytes c = cp_bytes acc' @ concat (map fst (take (Suc k) rs))" by blast
    then show ?thesis using IH(3) by (intro exI [of _ "Suc k"]) (simp add: r)
  qed
  show ?case
  proof (cases "buf = []")
    case True
    show ?thesis
    proof (cases er)
      case None
      with True Cons.prems show ?thesis by (intro later [of acc ws]) (simp_all add: r)
    next
      case (Some e)
      with True Cons.prems show ?thesis by (intro now) (auto simp: r split: if_splits)
    qed
  next
    case False
    with Cons.prems(1) obtain nw ew ws' where ws: "ws = (nw, ew) # ws'"
      by (auto simp: r Let_def split: list.splits prod.splits)
    define acc' where "acc' = acc\<lparr>cp_n := cp_n acc + int (length buf), cp_reports := cp_reports acc @ [int (length buf)],
      cp_bytes := cp_bytes acc @ buf\<rparr>"
    have nw: "nw = length buf" "ew = None"
      using Cons.prems False by (auto simp: r ws progress_Write_def Let_def split: if_splits)
    show ?thesis
    proof (cases er)
      case None
      with Cons.prems nw False have "copy_loop acc' rs ws' = Some c"
        by (simp add: r ws acc'_def progress_Write_def)
      then show ?thesis using Cons.prems(2) by (intro later [of acc' ws']) (simp_all add: acc'_def)
    next
      case (Some e)
      with Cons.prems nw False show ?thesis
        by (auto simp: r ws progress_Write_def split: if_splits intro: now)
    qed
  qed
qed

lemma Copy_ok:
  assumes "writer_ok rs ws" and "Copy rs ws = Some c"
  shows "copied_ok c" and "prefix (cp_bytes c) (concat (map fst rs))"
  using copy_loop_ok [OF assms(1) _ assms(2) [unfolded Copy_def]] by (auto simp: copied_ok_def)

lemma Copy_complete:
  assumes "Copy rs ws = Some c" and "cp_err c = None"
  shows "\<exists>k < length rs. snd (rs ! k) = Some EOF \<and> cp_bytes c = concat (map fst (take (Suc k) rs))"
  using copy_loop_complete [OF assms(1) [unfolded Copy_def] _ assms(2)] by auto

lemma pipe_err_None: "pipe_err es = None \<longleftrightarrow> (\<forall>e. Some e \<in> set es \<longrightarrow> benign_end e)"
  by (induction es rule: pipe_err.induct) auto

text \<open>\<^verbatim>\<open>PipeProgress\<close> between a stream and a connection whose writes follow the contract of
  \<^verbatim>\<open>io.Writer\<close>: in each direction the total it returns is the sum of what it reported while it
  ran and the number of bytes delivered, and the bytes delivered are the first bytes read, in
  order and unchanged; a direction that ended without an error delivered every byte up to the
  end of its source.\<close>

theorem pipe_faithful:
  assumes "writer_ok (fst ab) (snd ab)" and "writer_ok (fst ba) (snd ba)"
    and "PipeProgress a_first ab ba = Some ((aToB, bToA, err), x, y)"
  shows "aToB = sum_list (cp_reports x) \<and> aToB = int (length (cp_bytes x)) \<and>
    bToA = sum_list (cp_reports y) \<and> bToA = int (length (cp_bytes y)) \<and>
    prefix (cp_bytes x) (concat (map fst (fst ab))) \<and> prefix (cp_bytes y) (concat (map fst (fst ba))) \<and>
    (cp_err x = None \<longrightarrow> (\<exists>k < length (fst ab). snd (fst ab ! k) = Some EOF \<and>
       cp_bytes x = concat (map fst (take (Suc k) (fst ab))))) \<and>
    (err \<noteq> None \<longrightarrow> err \<in> {cp_err x, cp_err y})"
proof -
  from assms(3) have x: "Copy (fst ab) (snd ab) = Some x" and y: "Copy (fst ba) (snd ba) = Some y"
    and n: "aToB = cp_n x" "bToA = cp_n y"
    and e: "err = pipe_err (if a_first then [cp_err x, cp_err y] else [cp_err y, cp_err x])"
    by (auto simp: PipeProgress_def split: option.splits)
  have "err \<noteq> None \<longrightarrow> err \<in> {cp_err x, cp_err y}"
    unfolding e by (cases "cp_err x"; cases "cp_err y") auto
  with Copy_ok [OF assms(1) x] Copy_ok [OF assms(2) y] Copy_complete [OF x] n show ?thesis
    by (simp add: copied_ok_def)
qed

theorem pipe_faithful_witness:
  "PipeProgress True ([(''GET'', None), ('' /'', None), ('''', Some EOF)], [(3, None), (2, None)])
     ([(''HTTP'', None)], [(2, Some ErrNetClosed)]) =
     Some ((5, 2, None), \<lparr>cp_n = 5, cp_err = None, cp_reports = [3, 2], cp_bytes = ''GET /''\<rparr>,
       \<lparr>cp_n = 2, cp_err = Some (CopyIO ErrNetClosed), cp_reports = [2], cp_bytes = ''HT''\<rparr>) \<and>
   (5::int) = int (length ''GET /'')"
proof -
  have p: "PipeProgress True ([(''GET'', None), ('' /'', None), ('''', Some EOF)], [(3, None), (2, None)])
     ([(''HTTP'', None)], [(2, Some ErrNetClosed)]) =
     Some ((5, 2, None), \<lparr>cp_n = 5, cp_err = None, cp_reports = [3, 2], cp_bytes = ''GET /''\<rparr>,
       \<lparr>cp_n = 2, cp_err = Some (CopyIO ErrNetClosed), cp_reports = [2], cp_bytes = ''HT''\<rparr>)"
    by (simp add: PipeProgress_def Copy_def progress_Write_def benign_end_def)
  show ?thesis using p pipe_faithful [OF _ _ p] by simp
qed

text \<open>A connection with read-ahead bytes: however it is read, the bytes come out first, in order,
  and then the connection's.\<close>

fun prefix_reads :: "(nat \<Rightarrow> bytes \<times> io_error option) \<Rightarrow> PrefixConn \<Rightarrow> nat list \<Rightarrow> bytes list" where
  "prefix_reads rd p [] = []"
| "prefix_reads rd p (n # ns) =
     (let ((b, e), p') = prefix_Read rd p n in b # prefix_reads rd p' ns)"

lemma prefix_reads_first:
  "length (fst (rd 0)) = 0 \<Longrightarrow> sum_list ns \<le> length p \<Longrightarrow> concat (prefix_reads rd (WithPrefix p) ns) = take (sum_list ns) p"
proof (induction ns arbitrary: p)
  case Nil
  then show ?case by simp
next
  case (Cons n ns)
  show ?case
  proof (cases "p = []")
    case True
    with Cons.prems have "n = 0" "sum_list ns = 0" by simp_all
    then show ?thesis using True Cons.IH [of "[]"] Cons.prems
      by (cases "rd 0") (simp add: prefix_Read_def WithPrefix_def)
  next
    case False
    then show ?thesis using Cons.IH [of "drop n p"] Cons.prems
      by (simp add: prefix_Read_def WithPrefix_def take_add)
  qed
qed

end
