(* ===== verification/H3_Request.thy ===== *)
theory H3_Request
  imports Stream_Pipe Edge_Ingress_Head Errpage "HOL-Library.Char_ord" "HOL-Library.List_Lexorder"
begin

text \<open>
  The request side of \<^verbatim>\<open>internal/edge/http3.go\<close> and \<^verbatim>\<open>http3ws.go\<close>: an HTTP/3 request rendered as
  the HTTP/1.1 request the agents speak (\<^verbatim>\<open>http1Lines\<close>, \<^verbatim>\<open>framed\<close>, \<^verbatim>\<open>trailerNames\<close>,
  \<^verbatim>\<open>webSocketHead\<close>), its body looked at, held and sent (\<^verbatim>\<open>peekBody\<close>, \<^verbatim>\<open>holdBody\<close>,
  \<^verbatim>\<open>sendBody\<close>), and whether it may be sent twice (\<^verbatim>\<open>idempotent\<close>). A header is the list of
  the map's entries, in some order. The validity tests of \<^verbatim>\<open>golang.org/x/net/http/httpguts\<close> are
  arguments, collected in \<open>httpguts\<close>; \<open>guts_ok\<close> is what their documentation promises. The last part
  reads what is sent back with a strict HTTP/1.1 reader.
\<close>

subsection \<open>Headers and requests\<close>

type_synonym header = "(string \<times> string list) list"

text \<open>A token character (\<^verbatim>\<open>validHeaderFieldByte\<close> of net/textproto).\<close>

definition tchar :: "char \<Rightarrow> bool" where
  "tchar c \<longleftrightarrow> (let n = of_char c :: nat in
     48 \<le> n \<and> n \<le> 57 \<or> 65 \<le> n \<and> n \<le> 90 \<or> 97 \<le> n \<and> n \<le> 122 \<or> n \<in> {33, 35, 36, 37, 38, 39, 42, 43, 45, 46, 94, 95, 96, 124, 126})"

definition upper :: "char \<Rightarrow> char" where
  "upper c = (let n = of_char c :: nat in if 97 \<le> n \<and> n \<le> 122 then char_of (n - 32) else c)"

fun canon_from :: "bool \<Rightarrow> string \<Rightarrow> string" where
  "canon_from up [] = []"
| "canon_from up (c # s) = (if up then upper c else lower c) # canon_from (c = CHR ''-'') s"

definition CanonicalHeaderKey :: "string \<Rightarrow> string" where
  "CanonicalHeaderKey s = (if list_all tchar s then canon_from True s else s)"

text \<open>\<^verbatim>\<open>h[k]\<close>: nil for an absent key.\<close>

definition header_at :: "header \<Rightarrow> string \<Rightarrow> string list" where
  "header_at h k = (case map_of h k of None \<Rightarrow> [] | Some vs \<Rightarrow> vs)"

definition Header_Values :: "header \<Rightarrow> string \<Rightarrow> string list" where
  "Header_Values h k = header_at h (CanonicalHeaderKey k)"

definition Header_Get :: "header \<Rightarrow> string \<Rightarrow> string" where
  "Header_Get h k = (case Header_Values h k of [] \<Rightarrow> [] | v # _ \<Rightarrow> v)"

definition Header_Del :: "string \<Rightarrow> header \<Rightarrow> header" where
  "Header_Del k h = filter (\<lambda>e. fst e \<noteq> CanonicalHeaderKey k) h"

record http_request =
  Method :: string
  RequestURI :: string
  URL_RequestURI :: string  \<comment> \<open>what \<^verbatim>\<open>r.URL.RequestURI()\<close> returns\<close>
  rq_Host :: string
  Header :: header
  ContentLength :: int
  Trailer :: header
  Proto :: string

record httpguts =
  ValidHostHeader :: "string \<Rightarrow> bool"
  ValidHeaderFieldName :: "string \<Rightarrow> bool"
  ValidHeaderFieldValue :: "string \<Rightarrow> bool"
  ValidTrailerHeader :: "string \<Rightarrow> bool"

text \<open>Field names are tokens; field values and hosts hold no line break.\<close>

definition guts_ok :: "httpguts \<Rightarrow> bool" where
  "guts_ok g \<longleftrightarrow>
     (\<forall>s. ValidHeaderFieldName g s \<longrightarrow> s \<noteq> [] \<and> list_all tchar s) \<and>
     (\<forall>s. ValidHeaderFieldValue g s \<longrightarrow> CR \<notin> set s \<and> LF \<notin> set s) \<and>
     (\<forall>s. ValidHostHeader g s \<longrightarrow> CR \<notin> set s \<and> LF \<notin> set s)"

subsection \<open>The request head (http1Lines, framed)\<close>

definition hopHeaders :: "string list" where
  "hopHeaders = [''Connection'', ''Keep-Alive'', ''Proxy-Connection'', ''Transfer-Encoding'', ''Upgrade'', ''Te'', ''Trailer'']"

datatype request_error =
    InvalidAuthority string
  | InvalidRequestLine
  | InvalidHeaderName string
  | InvalidHeaderValue string

definition request_target :: "http_request \<Rightarrow> string" where
  "request_target r = (if RequestURI r = [] then URL_RequestURI r else RequestURI r)"

definition field_line :: "string \<Rightarrow> string \<Rightarrow> bytes" where
  "field_line n v = n @ '': '' @ v @ CRLF"

definition skipped_key :: "string \<Rightarrow> bool" where
  "skipped_key ck \<longleftrightarrow> ck = ''Host'' \<or> ck = ''Content-Length'' \<or> ck \<in> set hopHeaders"

definition join_with :: "string \<Rightarrow> string list \<Rightarrow> string" where
  "join_with sep xs = (case xs of [] \<Rightarrow> [] | x # xs \<Rightarrow> x @ concat (map (\<lambda>y. sep @ y) xs))"

definition field_values :: "string \<Rightarrow> string list \<Rightarrow> string list" where
  "field_values ck vs = (if ck = ''Cookie'' \<and> 1 < length vs then [join_with ''; '' vs] else vs)"

fun value_lines :: "httpguts \<Rightarrow> string \<Rightarrow> string \<Rightarrow> string list \<Rightarrow> bytes \<Rightarrow> request_error + bytes" where
  "value_lines g k ck [] b = Inr b"
| "value_lines g k ck (v # vs) b =
     (if \<not> ValidHeaderFieldValue g v then Inl (InvalidHeaderValue k)
      else value_lines g k ck vs (b @ field_line ck v))"

fun header_lines :: "httpguts \<Rightarrow> header \<Rightarrow> string list \<Rightarrow> bytes \<Rightarrow> request_error + bytes" where
  "header_lines g h [] b = Inr b"
| "header_lines g h (k # ks) b =
     (let ck = CanonicalHeaderKey k
      in if skipped_key ck then header_lines g h ks b
         else if \<not> ValidHeaderFieldName g k then Inl (InvalidHeaderName k)
         else (case value_lines g k ck (field_values ck (header_at h k)) b of
             Inl e \<Rightarrow> Inl e
           | Inr b \<Rightarrow> header_lines g h ks b))"

definition http1Lines :: "httpguts \<Rightarrow> http_request \<Rightarrow> request_error + bytes" where
  "http1Lines g r =
     (let target = request_target r
      in if \<not> ValidHostHeader g (rq_Host r) \<or> rq_Host r = [] then Inl (InvalidAuthority (rq_Host r))
         else if \<not> ValidHeaderFieldName g (Method r) \<or> target = [] \<or> (\<exists>c \<in> set target. c \<in> {SP, CR, LF, TAB})
         then Inl InvalidRequestLine
         else header_lines g (Header r) (sort (map fst (Header r)))
                (Method r @ '' '' @ target @ '' HTTP/1.1'' @ CRLF @ ''Host: '' @ rq_Host r @ CRLF))"

definition methodHasBody :: "string \<Rightarrow> bool" where
  "methodHasBody m \<longleftrightarrow> m \<in> {''POST'', ''PUT'', ''PATCH''}"

definition trailerNames :: "httpguts \<Rightarrow> header \<Rightarrow> string list" where
  "trailerNames g t = sort (filter (\<lambda>k. ValidHeaderFieldName g k \<and> ValidTrailerHeader g k) (map fst t))"

definition framed :: "bytes \<Rightarrow> http_request \<Rightarrow> string list \<Rightarrow> bytes" where
  "framed lines r trailers = lines @
     (if trailers \<noteq> [] then ''Trailer: '' @ join_with '', '' trailers @ CRLF @ ''Transfer-Encoding: chunked'' @ CRLF
      else if 0 < ContentLength r then ''Content-Length: '' @ show_nat (nat (ContentLength r)) @ CRLF
      else if ContentLength r < 0 then ''Transfer-Encoding: chunked'' @ CRLF
      else if methodHasBody (Method r) then ''Content-Length: 0'' @ CRLF
      else []) @ CRLF"

subsection \<open>WebSockets, expectations, idempotency\<close>

definition expectsContinue :: "http_request \<Rightarrow> bool" where
  "expectsContinue r \<longleftrightarrow> EqualFold (Header_Get (Header r) ''Expect'') ''100-continue''"

definition idempotent :: "http_request \<Rightarrow> bool" where
  "idempotent r \<longleftrightarrow> Method r \<in> {''GET'', ''HEAD'', ''OPTIONS'', ''TRACE'', ''PUT'', ''DELETE''} \<or>
     Header_Get (Header r) ''Idempotency-Key'' \<noteq> [] \<or> Header_Get (Header r) ''X-Idempotency-Key'' \<noteq> []"

definition isWebSocketConnect :: "http_request \<Rightarrow> bool" where
  "isWebSocketConnect r \<longleftrightarrow> Method r = ''CONNECT'' \<and> EqualFold (Proto r) ''websocket''"

definition webSocketHead :: "httpguts \<Rightarrow> http_request \<Rightarrow> string \<Rightarrow> request_error + bytes" where
  "webSocketHead g r key =
     (let up = r\<lparr>Method := ''GET'', Header := Header_Del ''Sec-Websocket-Key'' (Header r)\<rparr>
      in case http1Lines g up of
          Inl e \<Rightarrow> Inl e
        | Inr lines \<Rightarrow> Inr (lines @ ''Upgrade: websocket'' @ CRLF @ ''Connection: Upgrade, close'' @ CRLF @
            ''Sec-WebSocket-Key: '' @ key @ CRLF @
            (if Header_Get (Header up) ''Sec-Websocket-Version'' = [] then ''Sec-WebSocket-Version: 13'' @ CRLF else []) @ CRLF))"

subsection \<open>The request body\<close>

type_synonym body_reads = "(bytes \<times> io_error option) list"

text \<open>\<^verbatim>\<open>peekBody\<close>: the first read, of up to 512 bytes, and whether it had returned when the wait ended.\<close>

record peekedBody =
  pb_done :: bool
  pb_buf :: bytes
  pb_err :: "io_error option"
  pb_taken :: bool

definition peekBody :: "bytes \<times> io_error option \<Rightarrow> bool \<Rightarrow> peekedBody" where
  "peekBody rd inTime = \<lparr>pb_done = inTime, pb_buf = fst rd, pb_err = snd rd, pb_taken = False\<rparr>"

definition pb_length :: "peekedBody \<Rightarrow> int" where
  "pb_length p = (if pb_done p \<and> pb_err p = Some EOF then int (length (pb_buf p)) else -1)"

text \<open>\<^verbatim>\<open>peekedBody.Read\<close> of up to \<open>n\<close> bytes, once the first read has returned; \<open>rd\<close> is what the
  body's own next \<^verbatim>\<open>Read\<close> returns, and the last component says whether it was called.\<close>

definition pb_Read :: "bytes \<times> io_error option \<Rightarrow> nat \<Rightarrow> peekedBody \<Rightarrow> (bytes \<times> io_error option) \<times> peekedBody \<times> bool" where
  "pb_Read rd n p =
     (if pb_taken p then (rd, p, True)
      else if pb_buf p \<noteq> [] then ((take n (pb_buf p), None), p\<lparr>pb_buf := drop n (pb_buf p)\<rparr>, False)
      else (case pb_err p of
          Some e \<Rightarrow> (([], Some e), p\<lparr>pb_taken := True\<rparr>, False)
        | None \<Rightarrow> (rd, p\<lparr>pb_taken := True\<rparr>, True)))"

text \<open>\<^verbatim>\<open>io.ReadFull\<close> over the reads of a body; \<open>None\<close> when they do not end it. What a read would return
  beyond the buffer stays in the body.\<close>

fun read_full :: "nat \<Rightarrow> bytes \<Rightarrow> body_reads \<Rightarrow> (io_error + bytes) option" where
  "read_full n acc reads =
     (if n \<le> length acc then Some (Inr (take n acc))
      else (case reads of
          [] \<Rightarrow> None
        | (b, e) # reads \<Rightarrow>
            (let acc = acc @ b
             in case e of
                 None \<Rightarrow> read_full n acc reads
               | Some e \<Rightarrow> Some (if n \<le> length acc then Inr (take n acc)
                                 else if e = EOF \<and> acc \<noteq> [] then Inl ErrUnexpectedEOF else Inl e))))"

declare read_full.simps [simp del]

definition maxHeldBody :: int where
  "maxHeldBody = 64 * 1024"

text \<open>\<^verbatim>\<open>holdBody\<close>: the body held, \<open>Inr None\<close> when it is not; \<open>bounded\<close> says that the read deadline could
  be set.\<close>

definition holdBody :: "bool \<Rightarrow> body_reads \<Rightarrow> http_request \<Rightarrow> string list \<Rightarrow> (io_error + bytes option) option" where
  "holdBody bounded reads r trailers =
     (if trailers \<noteq> [] \<or> expectsContinue r \<or> ContentLength r < 0 \<or> maxHeldBody < ContentLength r then Some (Inr None)
      else if ContentLength r = 0 then Some (Inr (Some []))
      else if \<not> bounded then Some (Inr None)
      else map_option (map_sum id Some) (read_full (nat (ContentLength r)) [] reads))"

text \<open>\<^verbatim>\<open>readErrs\<close>: what the reads done so far leave in it.\<close>

record readErrs =
  re_n :: int
  re_failed :: bool

definition readErrs_Read :: "readErrs \<Rightarrow> bytes \<times> io_error option \<Rightarrow> readErrs" where
  "readErrs_Read e rd = \<lparr>re_n = re_n e + int (length (fst rd)),
     re_failed = (re_failed e \<or> snd rd \<notin> {None, Some EOF})\<rparr>"

definition readErrs_after :: "body_reads \<Rightarrow> readErrs" where
  "readErrs_after reads = foldl readErrs_Read \<lparr>re_n = 0, re_failed = False\<rparr> reads"

text \<open>The result of sending a body: the error, the bytes the stream took, and the reads of the body done.\<close>

record sent_body =
  sd_err :: "copy_error option"
  sd_bytes :: bytes
  sd_reads :: body_reads

fun show_hex :: "nat \<Rightarrow> string" where
  "show_hex n = (if n < 16 then [hexdigit n] else show_hex (n div 16) @ [hexdigit (n mod 16)])"

declare show_hex.simps [simp del]

definition chunk :: "bytes \<Rightarrow> bytes" where
  "chunk b = show_hex (length b) @ CRLF @ b @ CRLF"

text \<open>\<^verbatim>\<open>bufio.Writer.Flush\<close> of \<open>p\<close> in one write: its error. A chunk of at most 32 KiB fits the buffer.\<close>

definition flush_err :: "bytes \<Rightarrow> nat \<times> io_error option \<Rightarrow> copy_error option" where
  "flush_err p w = (case snd w of Some e \<Rightarrow> Some (CopyIO e) | None \<Rightarrow> if fst w < length p then Some ErrShortWrite else None)"

definition add_sent :: "bytes \<Rightarrow> bytes \<times> io_error option \<Rightarrow> sent_body \<Rightarrow> sent_body" where
  "add_sent out rd s = s\<lparr>sd_bytes := out @ sd_bytes s, sd_reads := rd # sd_reads s\<rparr>"

text \<open>The loop of \<^verbatim>\<open>sendBody\<close> over the chunks, with the writes left.\<close>

fun send_chunks :: "body_reads \<Rightarrow> (nat \<times> io_error option) list \<Rightarrow> (sent_body \<times> (nat \<times> io_error option) list) option" where
  "send_chunks [] ws = None"
| "send_chunks ((b, e) # rs) ws =
     (let rest = (\<lambda>out ws. case e of
            Some e \<Rightarrow> Some (\<lparr>sd_err = (if e = EOF then None else Some (CopyIO e)), sd_bytes = out, sd_reads = [(b, Some e)]\<rparr>, ws)
          | None \<Rightarrow> map_option (map_prod (add_sent out (b, e)) id) (send_chunks rs ws))
      in if b = [] then rest [] ws
         else (case ws of
             [] \<Rightarrow> None
           | w # ws \<Rightarrow>
               (if flush_err (chunk b) w \<noteq> None
                then Some (\<lparr>sd_err = flush_err (chunk b) w, sd_bytes = take (fst w) (chunk b), sd_reads = [(b, e)]\<rparr>, ws)
                else rest (take (fst w) (chunk b)) ws)))"

definition trailer_block :: "httpguts \<Rightarrow> header \<Rightarrow> bytes" where
  "trailer_block g t = concat (map (\<lambda>k. concat (map (\<lambda>v. field_line k v) (filter (ValidHeaderFieldValue g) (header_at t k))))
     (trailerNames g t)) @ CRLF"

text \<open>After the last read: the empty chunk, flushed, then the trailers in one write, which has an error
  when it was short (the contract of \<^verbatim>\<open>io.Writer\<close>).\<close>

definition send_end :: "bytes \<Rightarrow> sent_body \<Rightarrow> (nat \<times> io_error option) list \<Rightarrow> sent_body option" where
  "send_end tb s ws = (case ws of
      [] \<Rightarrow> None
    | w # ws \<Rightarrow>
        (let last_chunk = ''0'' @ CRLF; s1 = s\<lparr>sd_bytes := sd_bytes s @ take (fst w) last_chunk\<rparr>
         in if flush_err last_chunk w \<noteq> None then Some (s1\<lparr>sd_err := flush_err last_chunk w\<rparr>)
            else (case ws of
                [] \<Rightarrow> None
              | w # _ \<Rightarrow> Some (s1\<lparr>sd_bytes := sd_bytes s1 @ (if snd w = None then tb else take (fst w) tb),
                                   sd_err := map_option CopyIO (snd w)\<rparr>))))"

text \<open>\<^verbatim>\<open>io.LimitReader\<close> over the reads of the body, and the reads \<^verbatim>\<open>io.Copy\<close> does of them.\<close>

fun limit_reads :: "nat \<Rightarrow> body_reads \<Rightarrow> body_reads" where
  "limit_reads n [] = (if n = 0 then [([], Some EOF)] else [])"
| "limit_reads n ((b, e) # rs) =
     (if n = 0 then [([], Some EOF)]
      else if length b \<le> n then (b, e) # limit_reads (n - length b) rs
      else [(take n b, None), ([], Some EOF)])"

fun copied_reads :: "body_reads \<Rightarrow> (nat \<times> io_error option) list \<Rightarrow> body_reads" where
  "copied_reads [] ws = []"
| "copied_reads ((b, e) # rs) ws = (b, e) #
     (if b = [] then (if e = None then copied_reads rs ws else [])
      else (case ws of
          [] \<Rightarrow> []
        | (n, we) # ws \<Rightarrow> if we \<noteq> None \<or> n \<noteq> length b \<or> e \<noteq> None then [] else copied_reads rs ws))"

text \<open>\<^verbatim>\<open>sendBody\<close>; \<open>late\<close> is \<^verbatim>\<open>r.Trailer\<close> once the body has ended.\<close>

definition sendBody :: "httpguts \<Rightarrow> header \<Rightarrow> body_reads \<Rightarrow> (nat \<times> io_error option) list \<Rightarrow> http_request \<Rightarrow> string list \<Rightarrow>
    sent_body option" where
  "sendBody g late reads ws r trailers =
     (if trailers \<noteq> [] \<or> ContentLength r < 0 then
        (case send_chunks reads ws of
           None \<Rightarrow> None
         | Some (s, ws) \<Rightarrow> if sd_err s \<noteq> None then Some s else send_end (trailer_block g late) s ws)
      else if 0 < ContentLength r then
        (let n = nat (ContentLength r)
         in case Copy (limit_reads n reads) ws of
             None \<Rightarrow> None
           | Some c \<Rightarrow> Some \<lparr>sd_err = (if cp_n c = ContentLength r then None else if cp_err c = None then Some (CopyIO EOF) else cp_err c),
               sd_bytes = cp_bytes c, sd_reads = copied_reads (limit_reads n reads) ws\<rparr>)
      else Some \<lparr>sd_err = None, sd_bytes = [], sd_reads = []\<rparr>)"

subsection \<open>A strict HTTP/1.1 reader\<close>

text \<open>
  What a service that follows RFC 9112 to the letter makes of the bytes on its connection: lines up
  to the empty one, fields split at their first colon, exactly one Host, and one way only to tell
  where the body ends. Anything doubtful is refused (\<open>None\<close>): two framing fields, a length that is
  not a number, a chunk not followed by its line end.
\<close>

function http1_lines :: "bytes \<Rightarrow> (bytes list \<times> bytes) option" where
  "http1_lines s = (case Index s CRLF of
      None \<Rightarrow> None
    | Some i \<Rightarrow> if i = 0 then Some ([], drop 2 s) else map_option (map_prod ((#) (take i s)) id) (http1_lines (drop (i + 2) s)))"
  by auto
termination
  by (relation "measure length") (auto dest!: Index_less [rotated])

declare http1_lines.simps [simp del]

definition trim_ows :: "string \<Rightarrow> string" where
  "trim_ows s = rev (dropWhile (\<lambda>c. c \<in> {SP, TAB}) (rev (dropWhile (\<lambda>c. c \<in> {SP, TAB}) s)))"

definition http1_field :: "bytes \<Rightarrow> (string \<times> string) option" where
  "http1_field l = (case IndexByte l CHR '':'' of
      None \<Rightarrow> None
    | Some i \<Rightarrow> if i = 0 then None else Some (take i l, trim_ows (drop (i + 1) l)))"

fun all_fields :: "bytes list \<Rightarrow> (string \<times> string) list option" where
  "all_fields [] = Some []"
| "all_fields (l # ls) = (case (http1_field l, all_fields ls) of (Some f, Some fs) \<Rightarrow> Some (f # fs) | _ \<Rightarrow> None)"

definition values_of :: "string \<Rightarrow> (string \<times> string) list \<Rightarrow> string list" where
  "values_of n fs = map snd (filter (\<lambda>f. EqualFold (fst f) n) fs)"

fun numeral_in :: "nat \<Rightarrow> (char \<Rightarrow> nat option) \<Rightarrow> nat \<Rightarrow> string \<Rightarrow> nat option" where
  "numeral_in base dig acc [] = Some acc"
| "numeral_in base dig acc (c # s) = (case dig c of None \<Rightarrow> None | Some d \<Rightarrow> numeral_in base dig (acc * base + d) s)"

datatype framing = NoBody | Sized nat | Chunked

definition body_framing :: "(string \<times> string) list \<Rightarrow> framing option" where
  "body_framing fs = (case (values_of ''transfer-encoding'' fs, values_of ''content-length'' fs) of
      ([], []) \<Rightarrow> Some NoBody
    | ([], [v]) \<Rightarrow> (if v = [] then None else map_option Sized (numeral_in 10 digit 0 v))
    | ([v], []) \<Rightarrow> (if v = ''chunked'' then Some Chunked else None)
    | _ \<Rightarrow> None)"

function http1_chunks :: "bytes \<Rightarrow> (bytes \<times> bytes) option" where
  "http1_chunks s = (case Index s CRLF of
      None \<Rightarrow> None
    | Some i \<Rightarrow> if i = 0 then None else (case numeral_in 16 hexval 0 (take i s) of
        None \<Rightarrow> None
      | Some n \<Rightarrow> if n = 0 then Some ([], drop (i + 2) s)
          else (let t = drop (i + 2) s
                in if length t < n + 2 \<or> take 2 (drop n t) \<noteq> CRLF then None
                   else map_option (map_prod ((@) (take n t)) id) (http1_chunks (drop (n + 2) t)))))"
  by auto
termination
  by (relation "measure length") (auto dest!: Index_less [rotated])

declare http1_chunks.simps [simp del]

record http1_message =
  m_line :: string
  m_fields :: "(string \<times> string) list"
  m_body :: bytes
  m_trailers :: "(string \<times> string) list"

definition read_trailers :: "bytes \<Rightarrow> ((string \<times> string) list \<times> bytes) option" where
  "read_trailers s = (case http1_lines s of
      None \<Rightarrow> None
    | Some (ls, rest) \<Rightarrow> map_option (\<lambda>fs. (fs, rest)) (all_fields ls))"

definition read_body :: "framing \<Rightarrow> bytes \<Rightarrow> (bytes \<times> (string \<times> string) list \<times> bytes) option" where
  "read_body f s = (case f of
      NoBody \<Rightarrow> Some ([], [], s)
    | Sized n \<Rightarrow> if length s < n then None else Some (take n s, [], drop n s)
    | Chunked \<Rightarrow> (case http1_chunks s of
        None \<Rightarrow> None
      | Some (b, s) \<Rightarrow> map_option (\<lambda>(ts, rest). (b, ts, rest)) (read_trailers s)))"

definition http1_read :: "bytes \<Rightarrow> (http1_message \<times> bytes) option" where
  "http1_read s = (case http1_lines s of
      Some (l # ls, rest) \<Rightarrow> (case all_fields ls of
          None \<Rightarrow> None
        | Some fs \<Rightarrow> if length (values_of ''host'' fs) \<noteq> 1 then None
            else (case body_framing fs of
                None \<Rightarrow> None
              | Some f \<Rightarrow> map_option (\<lambda>(b, ts, rest). (\<lparr>m_line = l, m_fields = fs, m_body = b, m_trailers = ts\<rparr>, rest))
                  (read_body f rest)))
    | _ \<Rightarrow> None)"

subsection \<open>Canonical names\<close>

lemma of_char_upper:
  "(of_char (upper c) :: nat) = (let n = of_char c in if 97 \<le> n \<and> n \<le> 122 then n - 32 else n)"
  by (auto simp: upper_def Let_def)

lemma tchar_upper [simp]: "tchar (upper c) = tchar c"
proof (cases "97 \<le> (of_char c :: nat) \<and> (of_char c :: nat) \<le> 122")
  case True
  then have "65 \<le> (of_char (upper c) :: nat) \<and> (of_char (upper c) :: nat) \<le> 90" by (auto simp: of_char_upper Let_def)
  with True show ?thesis by (simp add: tchar_def Let_def)
next
  case False
  then have "upper c = c" by (auto simp: upper_def Let_def)
  then show ?thesis by simp
qed

lemma tchar_lower [simp]: "tchar (lower c) = tchar c"
proof (cases "65 \<le> (of_char c :: nat) \<and> (of_char c :: nat) \<le> 90")
  case True
  then have "tchar (lower c)" "tchar c" unfolding tchar_def Let_def of_char_lower by simp_all
  then show ?thesis by simp
next
  case False
  then have "lower c = c" by (auto simp: lower_def Let_def)
  then show ?thesis by simp
qed

lemma lower_upper [simp]: "lower (upper c) = lower c"
proof -
  have "(of_char (lower (upper c)) :: nat) = of_char (lower c)"
    unfolding of_char_lower of_char_upper Let_def by auto
  then show ?thesis by simp
qed

lemma upper_lower [simp]: "upper (lower c) = upper c"
proof -
  have "(of_char (upper (lower c)) :: nat) = of_char (upper c)"
    unfolding of_char_lower of_char_upper Let_def by auto
  then show ?thesis by simp
qed

lemma lower_dash [simp]: "lower c = CHR ''-'' \<longleftrightarrow> c = CHR ''-''"
  by (rule lower_eq_iff_non_letter) auto

lemma canon_from_lower: "canon_from u (ToLower s) = canon_from u s"
  by (induction s arbitrary: u) (auto simp: ToLower_def)

lemma lower_canon_from: "ToLower (canon_from u s) = ToLower s"
  by (induction s arbitrary: u) (auto simp: ToLower_def)

lemma tchar_canon_from: "list_all tchar (canon_from u s) = list_all tchar s"
  by (induction s arbitrary: u) auto

lemma tchar_ToLower: "list_all tchar (ToLower s) = list_all tchar s"
  by (simp add: ToLower_def list_all_iff)

lemma Canonical_tchar:
  assumes "list_all tchar k"
  shows "list_all tchar (CanonicalHeaderKey k)" and "ToLower (CanonicalHeaderKey k) = ToLower k"
    and "CanonicalHeaderKey k = [] \<longleftrightarrow> k = []"
  using assms by (cases k; simp add: CanonicalHeaderKey_def tchar_canon_from lower_canon_from)+

lemma Canonical_fold:
  assumes "list_all tchar k" and "EqualFold k n" shows "CanonicalHeaderKey k = CanonicalHeaderKey n"
proof -
  have eq: "ToLower k = ToLower n" using assms(2) by (simp add: EqualFold_def)
  with assms(1) have "list_all tchar n" by (metis tchar_ToLower)
  with assms(1) show ?thesis using canon_from_lower [of True k] canon_from_lower [of True n] eq
    by (simp add: CanonicalHeaderKey_def)
qed

lemma tchar_delimiters:
  assumes "list_all tchar s" shows "CHR '':'' \<notin> set s" "CR \<notin> set s" "LF \<notin> set s" "SP \<notin> set s"
  using assms by (auto simp: list_all_iff tchar_def Let_def)

subsection \<open>Reading lines, fields and numbers\<close>

lemma Index_line: "CR \<notin> set l \<Longrightarrow> Index (l @ CRLF @ s) CRLF = Some (length l)"
  by (induction l) (auto simp: Cons_eq_append_conv)

lemma http1_lines_line:
  assumes "CR \<notin> set l" and "l \<noteq> []"
  shows "http1_lines (l @ CRLF @ s) = map_option (map_prod ((#) l) id) (http1_lines s)"
  using assms Index_line [OF assms(1), of s] by (subst http1_lines.simps) simp

lemma http1_lines_end: "http1_lines (CRLF @ s) = Some ([], s)"
  by (subst http1_lines.simps) simp

definition lines_of :: "bytes list \<Rightarrow> bytes" where
  "lines_of ls = concat (map (\<lambda>l. l @ CRLF) ls)"

lemma lines_of_simps [simp]:
  "lines_of [] = []" "lines_of (l # ls) = l @ CRLF @ lines_of ls" "lines_of (ls @ ls') = lines_of ls @ lines_of ls'"
  by (simp_all add: lines_of_def)

lemma http1_lines_all:
  "list_all (\<lambda>l. l \<noteq> [] \<and> CR \<notin> set l) ls \<Longrightarrow> http1_lines (lines_of ls @ CRLF @ s) = Some (ls, s)"
proof (induction ls)
  case Nil
  then show ?case using http1_lines_end [of s] by simp
next
  case (Cons l ls)
  then have "http1_lines (l @ CRLF @ (lines_of ls @ CRLF @ s)) = Some (l # ls, s)"
    by (subst http1_lines_line) simp_all
  then show ?case by simp
qed

definition field_text :: "string \<times> string \<Rightarrow> bytes" where
  "field_text f = fst f @ '': '' @ snd f"

lemma field_line_text: "field_line n v = lines_of [field_text (n, v)]"
  by (simp add: field_line_def field_text_def)

lemma trim_ows_space [simp]: "trim_ows (SP # s) = trim_ows s"
  by (simp add: trim_ows_def)

lemma IndexByte_first: "c \<notin> set s \<Longrightarrow> IndexByte (s @ c # t) c = Some (length s)"
  by (induction s) auto

definition good_field :: "string \<times> string \<Rightarrow> bool" where
  "good_field f \<longleftrightarrow> fst f \<noteq> [] \<and> list_all tchar (fst f) \<and> CR \<notin> set (snd f)"

lemma http1_field_text: "good_field f \<Longrightarrow> http1_field (field_text f) = Some (fst f, trim_ows (snd f))"
  using IndexByte_first [of "CHR '':''" "fst f" "SP # snd f"] tchar_delimiters(1) [of "fst f"]
  by (auto simp: http1_field_def field_text_def good_field_def)

lemma all_fields_text:
  "list_all good_field fs \<Longrightarrow> all_fields (map field_text fs) = Some (map (map_prod id trim_ows) fs)"
  by (induction fs) (auto simp: http1_field_text map_prod_def split_beta)

lemma good_field_line: "good_field f \<Longrightarrow> field_text f \<noteq> [] \<and> CR \<notin> set (field_text f)"
  using tchar_delimiters(2) [of "fst f"] by (auto simp: good_field_def field_text_def)

lemma good_field_lines: "list_all good_field fs \<Longrightarrow> list_all (\<lambda>l. l \<noteq> [] \<and> CR \<notin> set l) (map field_text fs)"
  by (auto simp: list_all_iff dest: good_field_line)

lemma numeral_in_snoc:
  "numeral_in base dig acc (s @ [c]) = (case numeral_in base dig acc s of
      None \<Rightarrow> None | Some m \<Rightarrow> map_option (\<lambda>d. m * base + d) (dig c))"
  by (induction s arbitrary: acc) (auto split: option.splits)

lemma digit_of: "n < 10 \<Longrightarrow> digit (char_of (48 + n)) = Some n"
  by (simp add: digit_def)

lemma numeral_show_nat: "numeral_in 10 digit 0 (show_nat n) = Some n"
proof (induction n rule: show_nat.induct)
  case (1 n)
  then show ?case by (subst show_nat.simps) (auto simp: numeral_in_snoc digit_of simp del: of_char_of)
qed

lemma numeral_show_hex: "numeral_in 16 hexval 0 (show_hex n) = Some n"
proof (induction n rule: show_hex.induct)
  case (1 n)
  then show ?case by (subst show_hex.simps) (auto simp: numeral_in_snoc hexval_hexdigit)
qed

lemma trim_ows_id: "SP \<notin> set s \<Longrightarrow> TAB \<notin> set s \<Longrightarrow> trim_ows s = s"
proof -
  assume *: "SP \<notin> set s" "TAB \<notin> set s"
  have "dropWhile (\<lambda>c. c \<in> {SP, TAB}) t = t" if "set t = set s" for t using that * by (cases t) auto
  then show ?thesis by (simp add: trim_ows_def)
qed

lemma show_nat_text: "show_nat n \<noteq> []" "CR \<notin> set (show_nat n)" "trim_ows (show_nat n) = show_nat n"
proof -
  show "show_nat n \<noteq> []" by (subst show_nat.simps) simp
  show "CR \<notin> set (show_nat n)" using show_nat_digits [of CR n] by auto
  show "trim_ows (show_nat n) = show_nat n"
    using show_nat_digits [of SP n] show_nat_digits [of TAB n] by (intro trim_ows_id) auto
qed

lemma hexdigit_not_CR: "n < 16 \<Longrightarrow> hexdigit n \<noteq> CR"
  using hexval_hexdigit [of n] by (auto simp: hexval_def)

lemma show_hex_text: "show_hex n \<noteq> [] \<and> CR \<notin> set (show_hex n)"
proof (induction n rule: show_hex.induct)
  case (1 n)
  then show ?case using hexdigit_not_CR [of n] hexdigit_not_CR [of "n mod 16"]
    by (subst (1 2) show_hex.simps) auto
qed

subsection \<open>What the head says\<close>

definition crossing :: "header \<Rightarrow> string list \<Rightarrow> (string \<times> string) list" where
  "crossing h ks = concat (map (\<lambda>k. if skipped_key (CanonicalHeaderKey k) then []
     else map (Pair (CanonicalHeaderKey k)) (field_values (CanonicalHeaderKey k) (header_at h k))) ks)"

lemma value_lines_Inr:
  assumes "guts_ok g"
  shows "value_lines g k ck vs b = Inr b' \<Longrightarrow> b' = b @ lines_of (map field_text (map (Pair ck) vs)) \<and> (\<forall>v \<in> set vs. CR \<notin> set v)"
proof (induction vs arbitrary: b)
  case (Cons v vs)
  then have v: "ValidHeaderFieldValue g v" and rest: "value_lines g k ck vs (b @ field_line ck v) = Inr b'"
    by (auto split: if_splits)
  from v assms have "CR \<notin> set v" by (simp add: guts_ok_def)
  with Cons.IH [OF rest] show ?case by (simp add: field_line_text)
qed simp

definition crossing_ok :: "string \<times> string \<Rightarrow> bool" where
  "crossing_ok f \<longleftrightarrow> good_field f \<and> CanonicalHeaderKey (fst f) = fst f \<and> \<not> skipped_key (fst f)"

lemma Canonical_idem: "list_all tchar k \<Longrightarrow> CanonicalHeaderKey (CanonicalHeaderKey k) = CanonicalHeaderKey k"
  by (metis Canonical_tchar(2) Canonical_fold EqualFold_def)

lemma header_lines_Inr:
  assumes g: "guts_ok g"
  shows "header_lines g h ks b = Inr b' \<Longrightarrow>
    b' = b @ lines_of (map field_text (crossing h ks)) \<and> list_all crossing_ok (crossing h ks)"
proof (induction ks arbitrary: b)
  case Nil
  then show ?case by (simp add: crossing_def)
next
  case (Cons k ks)
  show ?case
  proof (cases "skipped_key (CanonicalHeaderKey k)")
    case True
    with Cons show ?thesis by (simp add: crossing_def)
  next
    case False
    let ?ck = "CanonicalHeaderKey k" and ?vs = "field_values (CanonicalHeaderKey k) (header_at h k)"
    from False Cons.prems obtain b1 where n: "ValidHeaderFieldName g k" and v: "value_lines g k ?ck ?vs b = Inr b1"
      and rest: "header_lines g h ks b1 = Inr b'" by (auto simp: Let_def split: if_splits sum.splits)
    from n g have k: "list_all tchar k" "k \<noteq> []" by (auto simp: guts_ok_def)
    note vs = value_lines_Inr [OF g v]
    have "list_all crossing_ok (map (Pair ?ck) ?vs)"
      using vs False Canonical_tchar [OF k(1)] Canonical_idem [OF k(1)] k(2)
      by (auto simp: list_all_iff crossing_ok_def good_field_def)
    with Cons.IH [OF rest] vs False show ?thesis by (simp add: crossing_def)
  qed
qed

lemma crossing_good: "list_all crossing_ok fs \<Longrightarrow> list_all good_field fs"
  by (auto simp: list_all_iff crossing_ok_def)

lemma values_of_crossing:
  assumes "list_all crossing_ok fs" and "skipped_key (CanonicalHeaderKey n)"
  shows "values_of n (map (map_prod id trim_ows) fs) = []"
proof -
  have "\<not> EqualFold (fst f) n" if "f \<in> set fs" for f
    using assms that Canonical_fold [of "fst f" n] by (auto simp: list_all_iff crossing_ok_def good_field_def)
  then show ?thesis by (auto simp: values_of_def filter_empty_conv)
qed

definition framing_fields :: "http_request \<Rightarrow> string list \<Rightarrow> (string \<times> string) list" where
  "framing_fields r trailers =
     (if trailers \<noteq> [] then [(''Trailer'', join_with '', '' trailers), (''Transfer-Encoding'', ''chunked'')]
      else if 0 < ContentLength r then [(''Content-Length'', show_nat (nat (ContentLength r)))]
      else if ContentLength r < 0 then [(''Transfer-Encoding'', ''chunked'')]
      else if methodHasBody (Method r) then [(''Content-Length'', ''0'')] else [])"

lemma framed_fields: "framed lines r trailers = lines @ lines_of (map field_text (framing_fields r trailers)) @ CRLF"
  by (simp add: framed_def framing_fields_def field_text_def)

definition request_fields :: "http_request \<Rightarrow> (string \<times> string) list" where
  "request_fields r = (''Host'', rq_Host r) # crossing (Header r) (sort (map fst (Header r)))"

definition request_line :: "http_request \<Rightarrow> string" where
  "request_line r = Method r @ '' '' @ request_target r @ '' HTTP/1.1''"

lemma tchar_literals:
  "list_all tchar ''Host''" "list_all tchar ''Trailer''" "list_all tchar ''Transfer-Encoding''" "list_all tchar ''Content-Length''"
  "list_all tchar ''Upgrade''" "list_all tchar ''Connection''" "list_all tchar ''Sec-WebSocket-Key''" "list_all tchar ''Sec-WebSocket-Version''"
  by (simp_all add: tchar_def)

lemma skipped_literals:
  "skipped_key (CanonicalHeaderKey ''host'')" "skipped_key (CanonicalHeaderKey ''transfer-encoding'')"
  "skipped_key (CanonicalHeaderKey ''content-length'')"
  by code_simp+

lemma http1Lines_Inr:
  assumes g: "guts_ok g" and r: "http1Lines g r = Inr lines"
  shows "lines = lines_of (request_line r # map field_text (request_fields r))"
    and "list_all good_field (request_fields r)" and "CR \<notin> set (request_line r)" and "request_line r \<noteq> []"
    and "list_all crossing_ok (crossing (Header r) (sort (map fst (Header r))))"
proof -
  from r have h: "ValidHostHeader g (rq_Host r)" "ValidHeaderFieldName g (Method r)" "CR \<notin> set (request_target r)"
    and ls: "header_lines g (Header r) (sort (map fst (Header r)))
      (Method r @ '' '' @ request_target r @ '' HTTP/1.1'' @ CRLF @ ''Host: '' @ rq_Host r @ CRLF) = Inr lines"
    by (auto simp: http1Lines_def Let_def split: if_splits)
  note hl = header_lines_Inr [OF g ls]
  then show "list_all crossing_ok (crossing (Header r) (sort (map fst (Header r))))" by simp
  from hl show "lines = lines_of (request_line r # map field_text (request_fields r))"
    by (simp add: request_line_def request_fields_def field_text_def)
  from g h have m: "list_all tchar (Method r)" "Method r \<noteq> []" "CR \<notin> set (rq_Host r)" by (auto simp: guts_ok_def)
  with hl show "list_all good_field (request_fields r)"
    by (simp add: request_fields_def crossing_good good_field_def tchar_def)
  from m h(3) tchar_delimiters(2) [OF m(1)] show "CR \<notin> set (request_line r)" "request_line r \<noteq> []"
    by (auto simp: request_line_def)
qed

subsection \<open>What the body says\<close>

lemma http1_chunks_chunk:
  assumes "b \<noteq> []" shows "http1_chunks (chunk b @ t) = map_option (map_prod ((@) b) id) (http1_chunks t)"
proof -
  let ?h = "show_hex (length b)" and ?t = "b @ CRLF @ t"
  have i: "Index (?h @ CRLF @ ?t) CRLF = Some (length ?h)" using show_hex_text Index_line by blast
  have "http1_chunks (?h @ CRLF @ ?t) = map_option (map_prod ((@) b) id) (http1_chunks t)"
    by (subst http1_chunks.simps) (simp only: i, simp add: assms show_hex_text numeral_show_hex Let_def)
  then show ?thesis by (simp add: chunk_def)
qed

lemma http1_chunks_end: "http1_chunks (''0'' @ CRLF @ t) = Some ([], t)"
proof -
  have "Index (''0'' @ CRLF @ t) CRLF = Some 1" using Index_line [of "''0''" t] by simp
  then show ?thesis by (subst http1_chunks.simps) (simp add: hexval_def)
qed

lemma flush_err_None: "flush_err p w = None \<Longrightarrow> take (fst w) p = p"
  by (auto simp: flush_err_def split: option.splits if_splits)

lemma send_chunks_ok:
  "send_chunks rs ws = Some (s, ws') \<Longrightarrow> sd_err s = None \<Longrightarrow>
   http1_chunks (sd_bytes s @ ''0'' @ CRLF @ t) = Some (concat (map fst (sd_reads s)), t) \<and> prefix (sd_reads s) rs"
proof (induction rs ws arbitrary: s rule: send_chunks.induct)
  case (2 b e rs ws)
  show ?case
  proof (cases "b = []")
    case True
    with 2 show ?thesis using http1_chunks_end [of t]
      by (cases e) (auto simp: add_sent_def map_option_case split: option.splits if_splits)
  next
    case False
    with "2.prems"(1) obtain w ws1 where ws: "ws = w # ws1" by (cases ws) auto
    from ws False "2.prems" have f: "flush_err (chunk b) w = None" by (auto split: if_splits)
    note c = flush_err_None [OF f]
    show ?thesis
    proof (cases e)
      case None
      with "2.prems" False ws f c obtain s1 where s1: "send_chunks rs ws1 = Some (s1, ws')" "s = add_sent (chunk b) (b, e) s1"
        by auto
      from "2.IH" [OF None, of ws1 s1] s1 "2.prems"(2)
      have "http1_chunks (sd_bytes s1 @ ''0'' @ CRLF @ t) = Some (concat (map fst (sd_reads s1)), t)" "prefix (sd_reads s1) rs"
        by (auto simp: add_sent_def)
      with s1(2) show ?thesis using http1_chunks_chunk [OF False, of "sd_bytes s1 @ ''0'' @ CRLF @ t"] by (simp add: add_sent_def)
    next
      case (Some e')
      with "2.prems" False ws f c have "s = \<lparr>sd_err = None, sd_bytes = chunk b, sd_reads = [(b, Some e')]\<rparr>"
        by (auto split: if_splits)
      with Some show ?thesis using http1_chunks_chunk [OF False, of "''0'' @ CRLF @ t"] http1_chunks_end [of t] by simp
    qed
  qed
qed simp

definition sent_trailers :: "httpguts \<Rightarrow> header \<Rightarrow> (string \<times> string) list" where
  "sent_trailers g t = concat (map (\<lambda>k. map (Pair k) (filter (ValidHeaderFieldValue g) (header_at t k))) (trailerNames g t))"

lemma lines_of_concat: "lines_of (concat xss) = concat (map lines_of xss)"
  by (induction xss) simp_all

lemma trailer_block_lines: "trailer_block g t = lines_of (map field_text (sent_trailers g t)) @ CRLF"
proof -
  have "concat (map (\<lambda>v. field_line k v) vs) = lines_of (map field_text (map (Pair k) vs))" for k vs
    by (induction vs) (simp_all add: field_line_text)
  then show ?thesis by (simp add: trailer_block_def sent_trailers_def map_concat lines_of_concat comp_def)
qed

lemma sent_trailers_good: "guts_ok g \<Longrightarrow> list_all good_field (sent_trailers g t)"
  by (auto simp: list_all_iff sent_trailers_def trailerNames_def good_field_def guts_ok_def)

lemma read_trailers_block:
  assumes "guts_ok g"
  shows "read_trailers (trailer_block g t @ rest) = Some (map (map_prod id trim_ows) (sent_trailers g t), rest)"
  using http1_lines_all [OF good_field_lines [OF sent_trailers_good [OF assms]], of t rest]
    all_fields_text [OF sent_trailers_good [OF assms], of t]
  by (simp add: read_trailers_def trailer_block_lines)

lemma send_end_ok:
  assumes "send_end tb s ws = Some s'" and "sd_err s' = None"
  shows "sd_bytes s' = sd_bytes s @ ''0'' @ CRLF @ tb" and "sd_reads s' = sd_reads s"
proof -
  from assms(1) obtain w ws' where ws: "ws = w # ws'" by (auto simp: send_end_def split: list.splits)
  with assms have "flush_err (''0'' @ CRLF) w = None" by (auto simp: send_end_def Let_def split: if_splits)
  from assms this flush_err_None [OF this] ws
  show "sd_bytes s' = sd_bytes s @ ''0'' @ CRLF @ tb" and "sd_reads s' = sd_reads s"
    by (auto simp: send_end_def Let_def split: list.splits if_splits)
qed

lemma prefix_limit_reads: "prefix (concat (map fst (limit_reads n rs))) (concat (map fst rs))"
  by (induction n rs rule: limit_reads.induct) (auto simp: take_is_prefix prefix_append)

lemma length_limit_reads: "length (concat (map fst (limit_reads n rs))) \<le> n"
  by (induction n rs rule: limit_reads.induct) auto

definition chunked_request :: "http_request \<Rightarrow> string list \<Rightarrow> bool" where
  "chunked_request r trailers \<longleftrightarrow> trailers \<noteq> [] \<or> ContentLength r < 0"

lemma sendBody_chunked:
  assumes g: "guts_ok g" and c: "chunked_request r trailers"
    and s: "sendBody g late reads ws r trailers = Some s" "sd_err s = None"
  shows "read_body Chunked (sd_bytes s @ rest) =
      Some (concat (map fst (sd_reads s)), map (map_prod id trim_ows) (sent_trailers g late), rest)"
    and "prefix (concat (map fst (sd_reads s))) (concat (map fst reads))"
proof -
  from c s obtain s0 ws' where s0: "send_chunks reads ws = Some (s0, ws')" "sd_err s0 = None"
    "send_end (trailer_block g late) s0 ws' = Some s"
    by (auto simp: sendBody_def chunked_request_def split: option.splits if_splits)
  note e = send_end_ok [OF s0(3) s(2)]
  show "read_body Chunked (sd_bytes s @ rest) =
      Some (concat (map fst (sd_reads s)), map (map_prod id trim_ows) (sent_trailers g late), rest)"
    using send_chunks_ok [OF s0(1,2), of "trailer_block g late @ rest"] read_trailers_block [OF g, of late rest] e
    by (simp add: read_body_def)
  from send_chunks_ok [OF s0(1,2), of "[]"] obtain zs where "reads = sd_reads s0 @ zs" by (auto simp: prefix_def)
  then show "prefix (concat (map fst (sd_reads s))) (concat (map fst reads))" unfolding e(2) by simp
qed

lemma sendBody_sized:
  assumes c: "\<not> chunked_request r trailers" and s: "sendBody g late reads ws r trailers = Some s" "sd_err s = None"
    and w: "writer_ok (limit_reads (nat (ContentLength r)) reads) ws"
  shows "length (sd_bytes s) = nat (ContentLength r) \<and> prefix (sd_bytes s) (concat (map fst reads))"
proof (cases "0 < ContentLength r")
  case True
  with c s obtain cp where cp: "Copy (limit_reads (nat (ContentLength r)) reads) ws = Some cp" "cp_n cp = ContentLength r"
    "sd_bytes s = cp_bytes cp"
    by (auto simp: sendBody_def chunked_request_def Let_def split: option.splits if_splits)
  from Copy_ok [OF w cp(1)] cp(2,3) prefix_limit_reads [of "nat (ContentLength r)" reads] show ?thesis
    by (auto simp: copied_ok_def intro: prefix_order.trans)
next
  case False
  with c s have "sd_bytes s = []" "ContentLength r = 0"
    by (auto simp: sendBody_def chunked_request_def split: if_splits)
  then show ?thesis by simp
qed

lemma trailers_text:
  assumes "guts_ok g" shows "CR \<notin> set (join_with '', '' (trailerNames g t))"
proof -
  have "\<forall>k \<in> set (trailerNames g t). CR \<notin> set k"
    using assms tchar_delimiters(2) by (auto simp: trailerNames_def guts_ok_def)
  then show ?thesis by (cases "trailerNames g t") (auto simp: join_with_def)
qed

lemma framing_good: "guts_ok g \<Longrightarrow> list_all good_field (framing_fields r (trailerNames g t))"
  using trailers_text [of g t] show_nat_text(2) [of "nat (ContentLength r)"]
  by (simp add: framing_fields_def good_field_def tchar_def)

lemma values_of_append [simp]: "values_of n (xs @ ys) = values_of n xs @ values_of n ys"
  by (simp add: values_of_def)

text \<open>Exactly one Host, and exactly one way to find the end of the body.\<close>

lemma framing_decides:
  assumes "list_all crossing_ok fs"
  shows "values_of ''host'' (map (map_prod id trim_ows) ((''Host'', h) # fs @ framing_fields r trailers)) = [trim_ows h]"
    and "body_framing (map (map_prod id trim_ows) ((''Host'', h) # fs @ framing_fields r trailers)) =
      Some (if chunked_request r trailers then Chunked else if 0 < ContentLength r \<or> methodHasBody (Method r) then Sized (nat (ContentLength r)) else NoBody)"
proof -
  note none = values_of_crossing [OF assms skipped_literals(1)] values_of_crossing [OF assms skipped_literals(2)]
    values_of_crossing [OF assms skipped_literals(3)]
  have lits: "EqualFold ''Host'' ''host''" "\<not> EqualFold ''Host'' ''transfer-encoding''" "\<not> EqualFold ''Host'' ''content-length''"
    "EqualFold ''Transfer-Encoding'' ''transfer-encoding''" "\<not> EqualFold ''Transfer-Encoding'' ''content-length''" "\<not> EqualFold ''Transfer-Encoding'' ''host''"
    "EqualFold ''Content-Length'' ''content-length''" "\<not> EqualFold ''Content-Length'' ''transfer-encoding''" "\<not> EqualFold ''Content-Length'' ''host''"
    "\<not> EqualFold ''Trailer'' ''content-length''" "\<not> EqualFold ''Trailer'' ''transfer-encoding''" "\<not> EqualFold ''Trailer'' ''host''"
    by code_simp+
  have t: "trim_ows ''chunked'' = ''chunked''" "trim_ows ''0'' = ''0''" "digit CHR ''0'' = Some 0" by code_simp+
  show "values_of ''host'' (map (map_prod id trim_ows) ((''Host'', h) # fs @ framing_fields r trailers)) = [trim_ows h]"
    using none(1) by (simp add: values_of_def framing_fields_def lits)
  show "body_framing (map (map_prod id trim_ows) ((''Host'', h) # fs @ framing_fields r trailers)) =
      Some (if chunked_request r trailers then Chunked else if 0 < ContentLength r \<or> methodHasBody (Method r) then Sized (nat (ContentLength r)) else NoBody)"
    using none(2,3) show_nat_text [of "nat (ContentLength r)"]
    by (simp add: body_framing_def values_of_def framing_fields_def lits t chunked_request_def numeral_show_nat)
qed

definition sent_message :: "httpguts \<Rightarrow> http_request \<Rightarrow> header \<Rightarrow> bytes \<Rightarrow> http1_message" where
  "sent_message g r late body =
     (let trailers = trailerNames g (Trailer r)
      in \<lparr>m_line = request_line r, m_fields = map (map_prod id trim_ows) (request_fields r @ framing_fields r trailers),
          m_body = body, m_trailers = (if chunked_request r trailers then map (map_prod id trim_ows) (sent_trailers g late) else [])\<rparr>)"


text \<open>The grammar of RFC 9110 as the validity tests have it, and a chunked request with a trailer.\<close>

definition host_char :: "char \<Rightarrow> bool" where
  "host_char c \<longleftrightarrow> tchar c \<or> c \<in> set '':[]%@,;()=/?!$&''"

definition value_char :: "char \<Rightarrow> bool" where
  "value_char c \<longleftrightarrow> c = TAB \<or> 32 \<le> (of_char c :: nat) \<and> (of_char c :: nat) \<noteq> 127"

definition rfc_guts :: httpguts where
  "rfc_guts = \<lparr>ValidHostHeader = list_all host_char, ValidHeaderFieldName = (\<lambda>s. s \<noteq> [] \<and> list_all tchar s),
     ValidHeaderFieldValue = list_all value_char,
     ValidTrailerHeader = (\<lambda>s. CanonicalHeaderKey s \<notin> {''Content-Length'', ''Transfer-Encoding'', ''Trailer'', ''Host''})\<rparr>"

lemma rfc_guts_ok: "guts_ok rfc_guts"
proof -
  have "\<not> host_char CR" "\<not> host_char LF" "\<not> value_char CR" "\<not> value_char LF" by code_simp+
  then show ?thesis by (auto simp: guts_ok_def rfc_guts_def list_all_iff)
qed

definition sample_post :: http_request where
  "sample_post = \<lparr>Method = ''POST'', RequestURI = ''/a'', URL_RequestURI = ''/a'', rq_Host = ''b'',
     Header = [(''X-B'', [''2'']), (''Te'', [''x'']), (''Cookie'', [''p'', ''q''])], ContentLength = -1,
     Trailer = [(''Sum'', [])], Proto = ''HTTP/3.0''\<rparr>"


end
