(* ===== verification/H3_Response.thy ===== *)
theory H3_Response
  imports H3_Request
begin

text \<open>
  The response side of \<^verbatim>\<open>internal/edge/http3.go\<close>: the limit on a backend's response head
  (\<^verbatim>\<open>headLimit\<close>), the loop over interim responses (\<^verbatim>\<open>readResponse\<close>), the end-to-end headers
  (\<^verbatim>\<open>copyResponseHeader\<close>), the copy to the client (\<^verbatim>\<open>copyResponse\<close>) and the classes of errors. What
  \<^verbatim>\<open>http.ReadResponse\<close> returns for each head on the stream is an argument. The client's
  \<^verbatim>\<open>http.ResponseWriter\<close> is the record of what was set and sent on it.
\<close>

subsection \<open>The limit on a response head\<close>

record headLimit =
  hl_left :: int
  hl_freed :: bool

definition headLimitBytes :: int where
  "headLimitBytes = int maxHeaderBytes + 32 * 1024"

definition newHeadLimit :: headLimit where
  "newHeadLimit = \<lparr>hl_left = headLimitBytes, hl_freed = False\<rparr>"

datatype limit_error = ErrHeadTooLarge | LimitIO io_error

text \<open>\<open>rd\<close> is the \<^verbatim>\<open>Read\<close> of the stream for a buffer of a given length.\<close>

definition hl_Read :: "(nat \<Rightarrow> bytes \<times> io_error option) \<Rightarrow> nat \<Rightarrow> headLimit \<Rightarrow> (bytes \<times> limit_error option) \<times> headLimit" where
  "hl_Read rd n h =
     (if hl_freed h then ((fst (rd n), map_option LimitIO (snd (rd n))), h)
      else if hl_left h \<le> 0 then (([], Some ErrHeadTooLarge), h)
      else (let m = (if hl_left h < int n then nat (hl_left h) else n); (b, e) = rd m
            in ((b, map_option LimitIO e), h\<lparr>hl_left := hl_left h - int (length b)\<rparr>)))"

definition hl_done :: "headLimit \<Rightarrow> headLimit" where
  "hl_done h = h\<lparr>hl_freed := True\<rparr>"

definition hl_reset :: "headLimit \<Rightarrow> headLimit" where
  "hl_reset h = h\<lparr>hl_left := headLimitBytes\<rparr>"

text \<open>The reads of one head, each for a buffer and with what the stream does: the bytes passed on, and
  the limit after them.\<close>

fun hl_reads :: "((nat \<Rightarrow> bytes \<times> io_error option) \<times> nat) list \<Rightarrow> headLimit \<Rightarrow> (bytes \<times> limit_error option) list \<times> headLimit" where
  "hl_reads [] h = ([], h)"
| "hl_reads ((rd, n) # rs) h = (let (r, h') = hl_Read rd n h; (out, h'') = hl_reads rs h' in (r # out, h''))"

text \<open>The contract of \<^verbatim>\<open>io.Reader\<close>: no more bytes than the buffer takes.\<close>

definition reader_ok :: "(nat \<Rightarrow> bytes \<times> io_error option) \<Rightarrow> bool" where
  "reader_ok rd \<longleftrightarrow> (\<forall>n. length (fst (rd n)) \<le> n)"

subsection \<open>Responses\<close>

record http_response =
  StatusCode :: int
  rp_Header :: header
  rp_ContentLength :: int
  rp_Close :: bool
  rp_Trailer :: header  \<comment> \<open>once the body has ended\<close>

datatype response_error =
    RespIO io_error  \<comment> \<open>an error of the tunnel stream\<close>
  | RespTooLarge
  | RespMalformed string
  | InvalidStatus int
  | UnexpectedSwitch

definition isTunnelGone :: "response_error \<Rightarrow> bool" where
  "isTunnelGone err \<longleftrightarrow> (case err of RespIO e \<Rightarrow> e = EOF \<or> e = ErrUnexpectedEOF \<or> IsTeardown e | _ \<Rightarrow> False)"

definition isTimeout :: "response_error \<Rightarrow> bool" where
  "isTimeout err \<longleftrightarrow> err = RespIO ErrDeadlineExceeded"

text \<open>\<^verbatim>\<open>readResponse\<close>: the interim responses passed on, and the final one or the error. \<open>None\<close> while a head
  is still awaited.\<close>

fun readResponse :: "bool \<Rightarrow> (response_error + http_response) list \<Rightarrow>
    ((int \<times> header) list \<times> (response_error + http_response)) option" where
  "readResponse upgrade [] = None"
| "readResponse upgrade (Inl e # rs) = Some ([], Inl e)"
| "readResponse upgrade (Inr resp # rs) =
     (if StatusCode resp < 100 then Some ([], Inl (InvalidStatus (StatusCode resp)))
      else if StatusCode resp = 101 \<and> upgrade then Some ([], Inr resp)
      else if StatusCode resp = 101 then Some ([], Inl UnexpectedSwitch)
      else if StatusCode resp < 200 then map_option (map_prod ((#) (StatusCode resp, rp_Header resp)) id) (readResponse upgrade rs)
      else Some ([], Inr resp))"

definition readFinalResponse :: "(response_error + http_response) list \<Rightarrow> ((int \<times> header) list \<times> (response_error + http_response)) option" where
  "readFinalResponse rs = readResponse False rs"

definition readUpgradeResponse :: "(response_error + http_response) list \<Rightarrow> (response_error + http_response) option" where
  "readUpgradeResponse rs = map_option snd (readResponse True rs)"

subsection \<open>Headers to the client\<close>

definition header_set :: "string \<Rightarrow> string list \<Rightarrow> header \<Rightarrow> header" where
  "header_set k vs h = (if k \<in> fst ` set h then map (\<lambda>e. if fst e = k then (k, vs) else e) h else h @ [(k, vs)])"

definition connection_drops :: "header \<Rightarrow> string list" where
  "connection_drops src = concat (map (\<lambda>v. map (\<lambda>t. CanonicalHeaderKey (TrimSpace t)) (Split v '','')) (Header_Values src ''Connection''))"

definition copyResponseHeader :: "header \<Rightarrow> header \<Rightarrow> header" where
  "copyResponseHeader dst src =
     foldl (\<lambda>dst e. if fst e \<in> set (connection_drops src) \<or> fst e \<in> set hopHeaders then dst
                   else header_set (fst e) (header_at dst (fst e) @ snd e) dst) dst src"

record response_writer =
  rw_header :: header
  rw_heads :: "(int \<times> header) list"  \<comment> \<open>the heads sent, in order\<close>
  rw_body :: bytes

definition WriteHeader :: "int \<Rightarrow> response_writer \<Rightarrow> response_writer" where
  "WriteHeader code w = w\<lparr>rw_heads := rw_heads w @ [(code, rw_header w)]\<rparr>"

text \<open>An interim response to the client.\<close>

definition send_interim :: "response_writer \<Rightarrow> int \<times> header \<Rightarrow> response_writer" where
  "send_interim w i =
     (let w = WriteHeader (fst i) (w\<lparr>rw_header := copyResponseHeader (rw_header w) (snd i)\<rparr>)
      in w\<lparr>rw_header := foldl (\<lambda>h e. Header_Del (fst e) h) (rw_header w) (snd i)\<rparr>)"

text \<open>\<^verbatim>\<open>copyResponse\<close>: its error and the bytes the client's stream took; \<open>None\<close> while it goes on.\<close>

fun copyResponse :: "body_reads \<Rightarrow> (nat \<times> io_error option) list \<Rightarrow> (io_error option \<times> bytes) option" where
  "copyResponse [] ws = None"
| "copyResponse ((b, e) # rs) ws =
     (let rest = (\<lambda>out ws. case e of
            Some e \<Rightarrow> Some (if e = EOF then None else Some e, out)
          | None \<Rightarrow> map_option (map_prod id ((@) out)) (copyResponse rs ws))
      in if b = [] then rest [] ws
         else (case ws of
             [] \<Rightarrow> None
           | (n, we) # ws \<Rightarrow> (case we of Some e \<Rightarrow> Some (Some e, take n b) | None \<Rightarrow> rest b ws)))"

text \<open>\<^verbatim>\<open>countingConn.Write\<close>: the total and the report of one write.\<close>

definition counting_Write :: "nat \<times> io_error option \<Rightarrow> int \<Rightarrow> int \<times> int" where
  "counting_Write w inTotal = (inTotal + int (fst w), int (fst w))"

definition counting_Read :: "bytes \<times> io_error option \<Rightarrow> int \<Rightarrow> int \<times> int" where
  "counting_Read r outTotal = (outTotal + int (length (fst r)), int (length (fst r)))"

subsection \<open>Facts\<close>

lemma hl_Read_limit:
  assumes "reader_ok rd" and "\<not> hl_freed h" and "0 \<le> hl_left h" and "hl_Read rd n h = ((b, e), h')"
  shows "\<not> hl_freed h' \<and> hl_left h' = hl_left h - int (length b) \<and> 0 \<le> hl_left h'"
proof -
  have "length (fst (rd m)) \<le> m" for m using assms(1) by (simp add: reader_ok_def)
  from this [of n] this [of "nat (hl_left h)"] show ?thesis
    using assms(2-4) by (auto simp: hl_Read_def Let_def split_beta split: if_splits)
qed

lemma hl_reads_limit:
  assumes "\<forall>r \<in> set rs. reader_ok (fst r)" and "\<not> hl_freed h" and "0 \<le> hl_left h" and "hl_reads rs h = (out, h')"
  shows "\<not> hl_freed h' \<and> hl_left h' = hl_left h - int (length (concat (map fst out))) \<and> 0 \<le> hl_left h'"
  using assms
proof (induction rs arbitrary: h out)
  case (Cons r rs)
  obtain rd n where r: "r = (rd, n)" by (cases r)
  obtain b e h1 where h1: "hl_Read rd n h = ((b, e), h1)" by (metis prod.exhaust)
  obtain out1 h2 where h2: "hl_reads rs h1 = (out1, h2)" by fastforce
  from Cons.prems(4) r h1 h2 have o: "out = (b, e) # out1" "h' = h2" by simp_all
  from Cons.prems(1) r have "reader_ok rd" by simp
  note l = hl_Read_limit [OF this Cons.prems(2,3) h1]
  from Cons.IH [of h1 out1] h2 Cons.prems(1) l o show ?case by simp
qed simp

text \<open>A backend cannot make the edge hold an endless response head. Whatever it sends and however
  large the buffers, all reads of one head together pass on at most \<open>headLimitBytes\<close>; once that
  much has come every further read fails, and after \<^verbatim>\<open>reset\<close> the next head has the whole limit.\<close>

theorem response_head_bounded:
  assumes "\<forall>r \<in> set rs. reader_ok (fst r)" and "hl_reads rs newHeadLimit = (out, h)"
  shows "int (length (concat (map fst out))) \<le> headLimitBytes \<and>
    (int (length (concat (map fst out))) = headLimitBytes \<longrightarrow> hl_Read rd n h = (([], Some ErrHeadTooLarge), h)) \<and>
    hl_reset h = newHeadLimit"
  using hl_reads_limit [OF assms(1) _ _ assms(2)] by (auto simp: newHeadLimit_def headLimitBytes_def hl_reset_def hl_Read_def)

theorem response_head_bounded_witness:
  "\<exists>h. hl_reads [(\<lambda>n. (take n ''HTTP/1.1'', None), 4096)] newHeadLimit = ([(''HTTP/1.1'', None)], h) \<and> hl_reset h = newHeadLimit"
proof -
  let ?rd = "\<lambda>n. (take n ''HTTP/1.1'', None :: io_error option)"
  have ok: "\<forall>r \<in> set [(?rd, 4096 :: nat)]. reader_ok (fst r)" by (simp add: reader_ok_def)
  have "\<exists>h. hl_reads [(?rd, 4096)] newHeadLimit = ([(''HTTP/1.1'', None)], h)"
    by (simp add: hl_Read_def newHeadLimit_def headLimitBytes_def maxHeaderBytes_def)
  then obtain h where h: "hl_reads [(?rd, 4096)] newHeadLimit = ([(''HTTP/1.1'', None)], h)" by blast
  from response_head_bounded [OF ok h] h show ?thesis by blast
qed

lemma header_at_set [simp]: "header_at (header_set k vs h) k' = (if k' = k then vs else header_at h k')"
proof -
  have "map_of (map (\<lambda>e. if fst e = k then (k, vs) else e) h) k' = (if k' = k \<and> k \<in> fst ` set h then Some vs else map_of h k')"
  proof (induction h)
    case (Cons e h)
    then show ?case by (cases e; cases "k' = k"; cases "fst e = k") auto
  qed simp
  moreover have "map_of h k = None" if "k \<notin> fst ` set h" using that by (simp add: map_of_eq_None_iff)
  ultimately show ?thesis
    by (cases "k \<in> fst ` set h") (simp_all add: header_at_def header_set_def map_add_def split: option.splits)
qed

lemma header_at_absent: "k \<notin> fst ` set h \<Longrightarrow> header_at h k = []"
  by (simp add: header_at_def map_of_eq_None_iff [THEN iffD2])

text \<open>Only end-to-end headers cross. A field of the backend's response reaches the client with
  exactly its values, after those already set, unless it belongs to the HTTP/1.1 connection or
  the response's \<^verbatim>\<open>Connection\<close> field names it; such a field adds nothing, in whatever order
  the map is ranged over.\<close>

theorem response_headers_end_to_end:
  assumes "distinct (map fst src)"
  shows "header_at (copyResponseHeader dst src) k =
    header_at dst k @ (if k \<in> set hopHeaders \<or> k \<in> set (connection_drops src) then [] else header_at src k)"
proof -
  define drops where "drops = set (connection_drops src)"
  have "header_at (foldl (\<lambda>dst e. if fst e \<in> drops \<or> fst e \<in> set hopHeaders then dst
      else header_set (fst e) (header_at dst (fst e) @ snd e) dst) dst l) k =
    header_at dst k @ (if k \<in> set hopHeaders \<or> k \<in> drops then [] else header_at l k)" if "distinct (map fst l)" for l
    using that
  proof (induction l arbitrary: dst)
    case (Cons e l)
    then have "fst e \<notin> fst ` set l" by simp
    with header_at_absent have no: "header_at l (fst e) = []" by blast
    have at: "header_at (e # l) k = (if k = fst e then snd e else header_at l k)" by (cases e) (simp add: header_at_def)
    show ?case using Cons no at by (auto simp: Cons.IH)
  qed (simp add: header_at_def)
  from this [OF assms] show ?thesis by (simp add: copyResponseHeader_def drops_def)
qed

theorem response_headers_end_to_end_witness:
  "header_at (copyResponseHeader [] [(''Connection'', [''x-a, close'']), (''X-A'', [''1'']), (''Etag'', [''e''])]) ''X-A'' = [] \<and>
   header_at (copyResponseHeader [] [(''Connection'', [''x-a, close'']), (''X-A'', [''1'']), (''Etag'', [''e''])]) ''Etag'' = [''e'']"
proof -
  let ?s = "[(''Connection'', [''x-a, close'']), (''X-A'', [''1'']), (''Etag'', [''e''])]"
  have d: "distinct (map fst ?s)" by simp
  have c: "''X-A'' \<in> set (connection_drops ?s)" "''Etag'' \<notin> set (connection_drops ?s)" "''Etag'' \<notin> set hopHeaders" by code_simp+
  then show ?thesis
    using response_headers_end_to_end [OF d, of "[]" "''X-A''"] response_headers_end_to_end [OF d, of "[]" "''Etag''"]
    by (simp add: header_at_def)
qed

text \<open>A final response is final, and no protocol is switched that the request did not ask for.\<close>

lemma readResponse_final:
  "readResponse upgrade rs = Some (interim, Inr resp) \<Longrightarrow>
   (200 \<le> StatusCode resp \<or> upgrade \<and> StatusCode resp = 101) \<and> Inr resp \<in> set rs \<and>
   list_all (\<lambda>i. 100 \<le> fst i \<and> fst i < 200 \<and> fst i \<noteq> 101) interim"
proof (induction upgrade rs arbitrary: interim rule: readResponse.induct)
  case (3 upgrade resp' rs)
  then show ?case by (auto split: if_splits)
qed simp_all

lemma copyResponse_ok:
  "copyResponse rs ws = Some (err, out) \<Longrightarrow> prefix out (concat (map fst rs)) \<and>
   (err = None \<longrightarrow> (\<exists>k < length rs. snd (rs ! k) = Some EOF \<and> out = concat (map fst (take (Suc k) rs))))"
proof (induction rs ws arbitrary: err out rule: copyResponse.induct)
  case (2 b e rs ws)
  have step: "prefix (b @ out') (concat (map fst ((b, None) # rs))) \<and>
      (err = None \<longrightarrow> (\<exists>k < length ((b, None) # rs). snd (((b, None) # rs) ! k) = Some EOF \<and> b @ out' = concat (map fst (take (Suc k) ((b, None) # rs)))))"
    if "e = None" "copyResponse rs ws' = Some (err, out')" for out' ws'
    using "2.IH" [OF that] by (auto intro: exI [of _ "Suc _"])
  show ?case
  proof (cases e)
    case None
    with "2.prems" step show ?thesis
      by (fastforce simp: take_is_prefix prefix_append split: if_splits list.splits prod.splits option.splits)
  next
    case (Some e')
    with "2.prems" show ?thesis
      by (auto simp: take_is_prefix prefix_append split: if_splits list.splits prod.splits option.splits intro!: exI [of _ 0])
  qed
qed simp

end
