(* ===== verification/Alt_Svc.thy ===== *)
theory Alt_Svc
  imports Edge_Ingress_Head
begin

text \<open>
  \<^verbatim>\<open>internal/edge/altsvc.go\<close>: the Alt-Svc header the edge adds to the first final response
  head on a TCP connection. The tunnel stream below is the list of its reads to come, each with
  the bytes it returns and its error.
\<close>

subsection \<open>Response heads\<close>

text \<open>\<^verbatim>\<open>headEnd\<close>: \<open>None\<close> for -1. \<open>headEnd_from\<close> is its loop, at the line feed \<open>i\<close>.\<close>

definition hasBareLF :: "bytes \<Rightarrow> bool" where
  "hasBareLF b \<longleftrightarrow> (\<exists>i \<in> set [0..<length b]. b ! i = LF \<and> (i = 0 \<or> b ! (i - 1) \<noteq> CR))"

function headEnd_from :: "bytes \<Rightarrow> nat \<Rightarrow> (nat \<times> bool) option" where
  "headEnd_from buf i =
     (if length buf \<le> i + 1 then None
      else
        (let nxt = drop (i + 1) buf
         in if nxt ! 0 = LF \<or> 1 < length nxt \<and> nxt ! 0 = CR \<and> nxt ! 1 = LF then
              (let crBefore = (0 < i \<and> buf ! (i - 1) = CR);
                   end = (if crBefore then i - 1 else i)
               in Some (end, crBefore \<and> nxt ! 0 = CR \<and> \<not> hasBareLF (take (i + 1) buf)))
            else (case IndexByte nxt LF of None \<Rightarrow> None | Some j \<Rightarrow> headEnd_from buf (i + 1 + j))))"
  by pat_completeness auto
termination
  by (relation "measure (\<lambda>(buf, i). length buf - i)") (auto simp: IndexByte_Some_iff)

declare headEnd_from.simps [simp del]

definition headEnd :: "bytes \<Rightarrow> (nat \<times> bool) option" where
  "headEnd buf = (case IndexByte buf LF of None \<Rightarrow> None | Some i \<Rightarrow> headEnd_from buf i)"

definition statusCode :: "bytes \<Rightarrow> string option" where
  "statusCode head =
     (let f = Fields (fst (Cut head [LF]))
      in if length f < 2 \<or> \<not> HasPrefix (f ! 0) ''HTTP/1.'' \<or> length (f ! 1) \<noteq> 3 then None else Some (f ! 1))"

definition isInterim :: "bytes \<Rightarrow> bool" where
  "isInterim head \<longleftrightarrow> (case statusCode head of
      None \<Rightarrow> False
    | Some code \<Rightarrow> code ! 0 = CHR ''1'' \<and> code \<noteq> ''101'')"

definition folded :: "bytes \<Rightarrow> bool" where
  "folded l \<longleftrightarrow> 0 < length l \<and> (l ! 0 = SP \<or> l ! 0 = TAB)"

definition isAltSvcField :: "bytes \<Rightarrow> bool" where
  "isAltSvcField l \<longleftrightarrow>
     (if folded l then False
      else (let (name, _, ok) = Cut l '':'' in ok \<and> EqualFold (TrimSpace name) ''alt-svc''))"

lemma Cut_shorter: "s \<noteq> [] \<Longrightarrow> sep \<noteq> [] \<Longrightarrow> length (fst (snd (Cut s sep))) < length s"
  by (auto simp: Cut_def split: option.splits)

text \<open>The loop over the header lines: the lines kept, or \<open>None\<close> for a head left alone.\<close>

function alt_fields :: "bool \<Rightarrow> bool \<Rightarrow> bytes \<Rightarrow> bytes list option" where
  "alt_fields replace dropping flds =
     (if flds = [] then Some []
      else
        (let l = fst (Cut flds CRLF); flds' = fst (snd (Cut flds CRLF))
         in if folded l \<and> dropping then alt_fields replace dropping flds'
            else if isAltSvcField l then (if \<not> replace then None else alt_fields replace True flds')
            else map_option (\<lambda>ls. l # ls) (alt_fields replace False flds')))"
  by pat_completeness auto
termination
  by (relation "measure (\<lambda>(_, _, flds). length flds)") (simp_all add: Cut_shorter)

declare alt_fields.simps [simp del]

definition field_lines :: "bytes list \<Rightarrow> bytes" where
  "field_lines ls = concat (map (\<lambda>l. CRLF @ l) ls)"

definition altSvcLine :: "string \<Rightarrow> bytes" where
  "altSvcLine value = CRLF @ ''Alt-Svc: '' @ value"

definition withAltSvc :: "bytes \<Rightarrow> nat \<Rightarrow> string \<Rightarrow> bool \<Rightarrow> bytes" where
  "withAltSvc buf end value replace =
     (let head = take end buf
      in case statusCode head of
           None \<Rightarrow> buf
         | Some code \<Rightarrow>
             if code ! 0 = CHR ''1'' then buf
             else
               (let (status, flds, _) = Cut head CRLF
                in case alt_fields replace False flds of
                     None \<Rightarrow> buf
                   | Some ls \<Rightarrow> status @ field_lines ls @ altSvcLine value @ drop end buf))"

subsection \<open>The connection\<close>

type_synonym conn_reads = "(bytes \<times> io_error option) list"

record altSvcConn =
  av_value :: string
  av_replace :: bool
  av_pending :: bytes
  av_rest :: bytes
  av_done :: bool

definition newAltSvcConn :: "string \<Rightarrow> bool \<Rightarrow> altSvcConn" where
  "newAltSvcConn value replace =
     \<lparr>av_value = value, av_replace = replace, av_pending = [], av_rest = [], av_done = False\<rparr>"

text \<open>What the loop does with a head found in \<open>buf\<close>.\<close>

definition av_head :: "altSvcConn \<Rightarrow> bytes \<Rightarrow> nat \<times> bool \<Rightarrow> altSvcConn" where
  "av_head a buf ec =
     (let (end, crlf) = ec; next' = (if crlf then end + 4 else end + 2)
      in if \<not> crlf \<or> maxHeaderBytes < end then a\<lparr>av_done := True, av_pending := buf\<rparr>
         else if isInterim (take end buf) then a\<lparr>av_pending := take next' buf, av_rest := drop next' buf\<rparr>
         else a\<lparr>av_done := True, av_pending := withAltSvc buf end (av_value a) (av_replace a)\<rparr>)"

text \<open>The loop, over the reads of the stream: the connection with bytes to hand over, or an error
  to return, and the reads left; \<open>None\<close> while it waits for the next read.\<close>

fun av_collect :: "altSvcConn \<Rightarrow> bytes \<Rightarrow> conn_reads \<Rightarrow> (altSvcConn \<times> io_error option \<times> conn_reads) option" where
  "av_collect a buf reads = (case headEnd buf of
      Some ec \<Rightarrow> Some (av_head a buf ec, None, reads)
    | None \<Rightarrow>
        if maxHeaderBytes < length buf then Some (a\<lparr>av_done := True, av_pending := buf\<rparr>, None, reads)
        else (case reads of
            [] \<Rightarrow> None
          | (tmp, err) # reads' \<Rightarrow>
              if err \<noteq> None \<and> tmp = [] then
                Some (a\<lparr>av_done := True, av_pending := buf\<rparr>, if buf = [] then err else None, reads')
              else av_collect a (buf @ tmp) reads'))"

declare av_collect.simps [simp del]

text \<open>\<^verbatim>\<open>Read\<close> into a buffer of \<open>n\<close> bytes. Reads of the stream below it return at most \<open>n\<close>
  bytes; the model's list holds them as they come.\<close>

definition av_Read :: "nat \<Rightarrow> altSvcConn \<Rightarrow> conn_reads \<Rightarrow> ((bytes \<times> io_error option) \<times> altSvcConn \<times> conn_reads) option" where
  "av_Read n a reads =
     (if av_pending a \<noteq> [] then
        Some ((take n (av_pending a), None), a\<lparr>av_pending := drop n (av_pending a)\<rparr>, reads)
      else if av_done a then (case reads of [] \<Rightarrow> None | r # reads' \<Rightarrow> Some (r, a, reads'))
      else (case av_collect (a\<lparr>av_rest := []\<rparr>) (av_rest a) reads of
          None \<Rightarrow> None
        | Some (a', Some err, reads') \<Rightarrow> Some (([], Some err), a', reads')
        | Some (a', None, reads') \<Rightarrow>
            Some ((take n (av_pending a'), None), a'\<lparr>av_pending := drop n (av_pending a')\<rparr>, reads')))"

subsection \<open>What a head becomes\<close>

lemma headEnd_from_crlf:
  assumes "headEnd_from buf i = Some (e, True)" and "i < length buf" and "buf ! i = LF"
  shows "e + 4 \<le> length buf \<and> drop e buf = CRLFCRLF @ drop (e + 4) buf"
  using assms
proof (induction buf i rule: headEnd_from.induct)
  case (1 buf i)
  let ?nxt = "drop (i + 1) buf"
  from 1(2) have len: "i + 1 < length buf" by (subst (asm) headEnd_from.simps) (auto split: if_splits)
  show ?case
  proof (cases "?nxt ! 0 = LF \<or> 1 < length ?nxt \<and> ?nxt ! 0 = CR \<and> ?nxt ! 1 = LF")
    case True
    with 1(2) len have e: "0 < i" "buf ! (i - 1) = CR" "e = i - 1" "?nxt ! 0 = CR"
      by (subst (asm) headEnd_from.simps, auto simp: Let_def split: if_splits)+
    with True have "1 < length ?nxt" "?nxt ! 1 = LF" by auto
    with e len have b: "e + 3 < length buf" "buf ! e = CR" "buf ! (e + 2) = CR" "buf ! (e + 3) = LF"
      by (auto simp: numeral_3_eq_3)
    moreover have "buf ! (e + 1) = LF" using e 1(4) by simp
    moreover have "drop e buf = buf ! e # buf ! (e + 1) # buf ! (e + 2) # buf ! (e + 3) # drop (e + 4) buf"
      using b(1) by (simp add: Cons_nth_drop_Suc numeral_eq_Suc)
    ultimately show ?thesis by (simp add: CRLFCRLF_def)
  next
    case False
    with 1(2) len obtain j where j: "IndexByte ?nxt LF = Some j" "headEnd_from buf (i + 1 + j) = Some (e, True)"
      by (subst (asm) headEnd_from.simps) (auto simp: Let_def split: if_splits option.splits)
    then have "i + 1 + j < length buf" "buf ! (i + 1 + j) = LF" by (auto simp: IndexByte_Some_iff)
    with 1(1) [OF _ refl False j(1) j(2)] len show ?thesis by simp
  qed
qed

lemma headEnd_crlf:
  assumes "headEnd buf = Some (e, True)"
  shows "e + 4 \<le> length buf" "drop e buf = CRLFCRLF @ drop (e + 4) buf"
  using assms headEnd_from_crlf [of buf _ e] by (auto simp: headEnd_def IndexByte_Some_iff split: option.splits)

lemma headEnd_nonempty: "headEnd buf = Some ec \<Longrightarrow> buf \<noteq> []"
  by (auto simp: headEnd_def)

text \<open>The lines kept are lines of the head, none of them starts an Alt-Svc field; with
  \<open>replace\<close> there always is a result.\<close>

lemma alt_fields_kept: "alt_fields replace d flds = Some ls \<Longrightarrow> \<forall>l \<in> set ls. \<not> isAltSvcField l"
proof (induction replace d flds arbitrary: ls rule: alt_fields.induct)
  case (1 replace d flds)
  note step = 1(4) [unfolded alt_fields.simps [of replace d flds] Let_def]
  note IH = 1(1-3) [OF _ refl refl]
  consider "flds = []" | "flds \<noteq> []" "folded (fst (Cut flds CRLF)) \<and> d"
    | "flds \<noteq> []" "\<not> (folded (fst (Cut flds CRLF)) \<and> d)" "isAltSvcField (fst (Cut flds CRLF))"
    | "flds \<noteq> []" "\<not> (folded (fst (Cut flds CRLF)) \<and> d)" "\<not> isAltSvcField (fst (Cut flds CRLF))"
    by blast
  then show ?case
  proof cases
    case 1
    with step show ?thesis by simp
  next
    case 2
    with step have "alt_fields replace d (fst (snd (Cut flds CRLF))) = Some ls"
      by (simp only: if_True if_False simp_thms)
    with IH(1) [OF 2] show ?thesis by blast
  next
    case 3
    with step have "replace" "alt_fields replace True (fst (snd (Cut flds CRLF))) = Some ls"
      by (simp_all only: if_True if_False option.distinct split: if_splits)
    with IH(2) [OF 3] show ?thesis by blast
  next
    case 4
    with step obtain z where "alt_fields replace False (fst (snd (Cut flds CRLF))) = Some z"
      "ls = fst (Cut flds CRLF) # z" by (auto simp only: if_False map_option_eq_Some)
    with IH(3) [OF 4] 4(3) show ?thesis by simp
  qed
qed

lemma alt_fields_replace: "alt_fields True d flds \<noteq> None"
proof (induction True d flds rule: alt_fields.induct)
  case (1 d flds)
  then show ?case by (subst alt_fields.simps) (simp add: Let_def)
qed

text \<open>A head gets one Alt-Svc line, its body none: everything from the end of the head on is the
  same.\<close>

definition final_response :: "bytes \<Rightarrow> bool" where
  "final_response head \<longleftrightarrow> (case statusCode head of None \<Rightarrow> False | Some code \<Rightarrow> code ! 0 \<noteq> CHR ''1'')"

lemma withAltSvc_shape:
  "withAltSvc buf e v r = buf \<or>
   (\<exists>ls. alt_fields r False (fst (snd (Cut (take e buf) CRLF))) = Some ls \<and> (\<forall>l \<in> set ls. \<not> isAltSvcField l) \<and>
      withAltSvc buf e v r = fst (Cut (take e buf) CRLF) @ field_lines ls @ altSvcLine v @ drop e buf)"
  by (auto simp: withAltSvc_def Let_def split: option.splits prod.splits dest: alt_fields_kept)

lemma withAltSvc_replace:
  "final_response (take e buf) \<Longrightarrow>
   \<exists>ls. (\<forall>l \<in> set ls. \<not> isAltSvcField l) \<and>
     withAltSvc buf e v True = fst (Cut (take e buf) CRLF) @ field_lines ls @ altSvcLine v @ drop e buf"
proof -
  assume f: "final_response (take e buf)"
  obtain ls where ls: "alt_fields True False (fst (snd (Cut (take e buf) CRLF))) = Some ls"
    using alt_fields_replace by blast
  with f have "withAltSvc buf e v True =
      fst (Cut (take e buf) CRLF) @ field_lines ls @ altSvcLine v @ drop e buf"
    by (auto simp: withAltSvc_def final_response_def Let_def split: option.splits prod.splits)
  with alt_fields_kept [OF ls] show ?thesis by blast
qed

subsection \<open>No byte is lost\<close>

text \<open>What the client has yet to be given, if nothing more were edited.\<close>

definition av_total :: "altSvcConn \<Rightarrow> conn_reads \<Rightarrow> bytes" where
  "av_total a reads = av_pending a @ av_rest a @ concat (map fst reads)"

definition av_ok :: "altSvcConn \<Rightarrow> bool" where
  "av_ok a \<longleftrightarrow> (av_done a \<longrightarrow> av_rest a = [])"

text \<open>One step leaves the client's bytes alone, or edits the first final head, once.\<close>

definition edited :: "altSvcConn \<Rightarrow> bytes \<Rightarrow> bytes \<Rightarrow> bool" where
  "edited a before after \<longleftrightarrow> (\<exists>buf post e. before = buf @ post \<and> headEnd buf = Some (e, True) \<and>
     \<not> isInterim (take e buf) \<and> after = withAltSvc buf e (av_value a) (av_replace a) @ post)"

definition kept_or_edited :: "altSvcConn \<Rightarrow> altSvcConn \<Rightarrow> bytes \<Rightarrow> bytes \<Rightarrow> bool" where
  "kept_or_edited a a' before after \<longleftrightarrow> after = before \<or> \<not> av_done a \<and> av_done a' \<and> edited a before after"

lemma av_head_total:
  assumes "headEnd buf = Some ec" and "av_pending a = []" and "av_rest a = []" and "\<not> av_done a"
  shows "av_ok (av_head a buf ec)" "kept_or_edited a (av_head a buf ec) (buf @ concat (map fst reads)) (av_total (av_head a buf ec) reads)"
    "av_value (av_head a buf ec) = av_value a \<and> av_replace (av_head a buf ec) = av_replace a"
proof -
  obtain e c where ec: "ec = (e, c)" by (cases ec)
  show "av_ok (av_head a buf ec)" using assms(3,4) by (simp add: av_head_def ec Let_def av_ok_def)
  show "av_value (av_head a buf ec) = av_value a \<and> av_replace (av_head a buf ec) = av_replace a"
    by (simp add: av_head_def ec Let_def)
  show "kept_or_edited a (av_head a buf ec) (buf @ concat (map fst reads)) (av_total (av_head a buf ec) reads)"
  proof (cases "c \<and> \<not> maxHeaderBytes < e \<and> \<not> isInterim (take e buf)")
    case True
    then have "av_head a buf ec = a\<lparr>av_done := True, av_pending := withAltSvc buf e (av_value a) (av_replace a)\<rparr>"
      by (simp add: av_head_def ec Let_def)
    with True assms show ?thesis unfolding kept_or_edited_def edited_def ec by (auto simp: av_total_def)
  next
    case False
    with assms show ?thesis by (auto simp: kept_or_edited_def av_head_def ec Let_def av_total_def)
  qed
qed

lemma av_collect_total:
  assumes "av_collect a buf reads = Some (a', err, reads')" and "av_pending a = []" "av_rest a = []" "\<not> av_done a"
  shows "av_ok a' \<and> kept_or_edited a a' (buf @ concat (map fst reads)) (av_total a' reads') \<and>
    av_value a' = av_value a \<and> av_replace a' = av_replace a \<and> (err \<noteq> None \<longrightarrow> av_pending a' = [])"
  using assms
proof (induction a buf reads rule: av_collect.induct)
  case (1 a buf reads)
  note step = 1(2) [unfolded av_collect.simps [of a buf reads]]
  show ?case
  proof (cases "headEnd buf")
    case (Some ec)
    with step have "a' = av_head a buf ec" "err = None" "reads' = reads" by auto
    with av_head_total [OF Some 1(3-5)] show ?thesis by simp
  next
    case None
    consider "maxHeaderBytes < length buf" | tmp e rs where "\<not> maxHeaderBytes < length buf" "reads = (tmp, e) # rs"
      using step None by (cases reads) (auto split: if_splits)
    then show ?thesis
    proof cases
      case 1
      with step None "1.prems" show ?thesis by (auto simp: kept_or_edited_def av_total_def av_ok_def)
    next
      case (2 tmp e rs)
      show ?thesis
      proof (cases "e \<noteq> None \<and> tmp = []")
        case True
        with step None 2 "1.prems" show ?thesis
          by (auto simp: kept_or_edited_def av_total_def av_ok_def split: if_splits)
      next
        case False
        with step None 2 have rec: "av_collect a (buf @ tmp) rs = Some (a', err, reads')" by auto
        from "1.IH" [OF None 2(1) 2(2) refl False rec "1.prems"(2-4)] 2 show ?thesis by simp
      qed
    qed
  qed
qed

lemma av_Read_total:
  assumes "av_Read n a reads = Some ((out, err), a', reads')" and "av_ok a"
  shows "av_ok a' \<and> kept_or_edited a a' (av_total a reads) (out @ av_total a' reads') \<and>
    av_value a' = av_value a \<and> av_replace a' = av_replace a \<and> (av_done a \<longrightarrow> av_done a')"
proof -
  consider "av_pending a \<noteq> []" | "av_pending a = []" "av_done a" | "av_pending a = []" "\<not> av_done a" by blast
  then show ?thesis
  proof cases
    case 1
    with assms have "out = take n (av_pending a)" "a' = a\<lparr>av_pending := drop n (av_pending a)\<rparr>" "reads' = reads"
      by (auto simp: av_Read_def)
    with assms(2) show ?thesis by (simp add: av_ok_def kept_or_edited_def av_total_def flip: append_assoc)
  next
    case 2
    with assms show ?thesis
      by (auto simp: av_Read_def kept_or_edited_def av_total_def av_ok_def split: list.splits)
  next
    case 3
    let ?a = "a\<lparr>av_rest := []\<rparr>"
    have "\<exists>a1 e1 q. av_collect ?a (av_rest a) reads = Some (a1, e1, reads') \<and> a' = a1\<lparr>av_pending := q\<rparr> \<and>
        out @ q = av_pending a1"
    proof (cases "av_collect ?a (av_rest a) reads")
      case None
      with 3 assms(1) show ?thesis by (simp add: av_Read_def)
    next
      case (Some c)
      obtain a1 e1 rs where c: "c = (a1, e1, rs)" by (cases c)
      show ?thesis
      proof (cases e1)
        case None
        with Some c 3 assms(1) show ?thesis by (simp add: av_Read_def) (metis append_take_drop_id)
      next
        case (Some err1)
        with \<open>av_collect _ _ _ = Some c\<close> c 3 have "av_pending a1 = []"
          using av_collect_total [of ?a "av_rest a" reads a1 e1 rs] by simp
        with Some \<open>av_collect _ _ _ = Some c\<close> c 3 assms(1) show ?thesis
          by (intro exI [of _ a1] exI [of _ e1] exI [of _ "[]"]) (simp add: av_Read_def)
      qed
    qed
    then obtain a1 e1 q where c: "av_collect ?a (av_rest a) reads = Some (a1, e1, reads')"
      and q: "a' = a1\<lparr>av_pending := q\<rparr>" "out @ q = av_pending a1" by blast
    have col: "av_ok a1 \<and> kept_or_edited ?a a1 (av_rest a @ concat (map fst reads)) (av_total a1 reads') \<and>
        av_value a1 = av_value a \<and> av_replace a1 = av_replace a"
      using av_collect_total [OF c] 3 by simp
    have tot: "out @ av_total a' reads' = av_total a1 reads'"
      by (simp add: av_total_def q(1) flip: q(2))
    have "av_done a' = av_done a1" "av_rest a' = av_rest a1" "av_value a' = av_value a1" "av_replace a' = av_replace a1"
      by (simp_all add: q(1))
    moreover have "av_total a reads = av_rest a @ concat (map fst reads)" using 3 by (simp add: av_total_def)
    ultimately show ?thesis using col 3 unfolding tot by (simp add: av_ok_def kept_or_edited_def edited_def)
  qed
qed

subsection \<open>A whole connection\<close>

text \<open>Successive reads, with any buffer sizes: what the client got, and the state after.\<close>

fun av_run :: "nat list \<Rightarrow> altSvcConn \<Rightarrow> conn_reads \<Rightarrow> (bytes \<times> altSvcConn \<times> conn_reads) option" where
  "av_run [] a reads = Some ([], a, reads)"
| "av_run (n # ns) a reads = (case av_Read n a reads of
      None \<Rightarrow> None
    | Some ((out, _), a', reads') \<Rightarrow> map_option (\<lambda>(outs, r). (out @ outs, r)) (av_run ns a' reads'))"

lemma av_run_Cons:
  assumes "av_run (n # ns) a reads = Some (out, a', reads')"
  obtains o1 err a1 reads1 o2 where "av_Read n a reads = Some ((o1, err), a1, reads1)"
    "av_run ns a1 reads1 = Some (o2, a', reads')" "out = o1 @ o2"
  using assms by (auto split: option.splits prod.splits)

lemma av_run_done:
  assumes "av_run ns a reads = Some (out, a', reads')" and "av_ok a" and "av_done a"
  shows "out @ av_total a' reads' = av_total a reads"
  using assms
proof (induction ns arbitrary: a reads out)
  case Nil
  then show ?case by simp
next
  case (Cons n ns)
  from Cons.prems(1) obtain o1 err a1 reads1 o2 where r: "av_Read n a reads = Some ((o1, err), a1, reads1)"
    "av_run ns a1 reads1 = Some (o2, a', reads')" "out = o1 @ o2" by (rule av_run_Cons)
  from av_Read_total [OF r(1) Cons.prems(2)] Cons.prems(3)
  have "av_ok a1" "av_done a1" "o1 @ av_total a1 reads1 = av_total a reads" by (auto simp: kept_or_edited_def)
  with Cons.IH [OF r(2)] r(3) show ?case by simp
qed

lemma av_run_edit:
  assumes "av_run ns a reads = Some (out, a', reads')" and "av_ok a"
  shows "out @ av_total a' reads' = av_total a reads \<or>
    (\<exists>pre buf post e. av_total a reads = pre @ buf @ post \<and> headEnd buf = Some (e, True) \<and>
       \<not> isInterim (take e buf) \<and>
       out @ av_total a' reads' = pre @ withAltSvc buf e (av_value a) (av_replace a) @ post)"
  using assms
proof (induction ns arbitrary: a reads out)
  case Nil
  then show ?case by simp
next
  case (Cons n ns)
  from Cons.prems(1) obtain o1 err a1 reads1 o2 where r: "av_Read n a reads = Some ((o1, err), a1, reads1)"
    "av_run ns a1 reads1 = Some (o2, a', reads')" "out = o1 @ o2" by (rule av_run_Cons)
  note one = av_Read_total [OF r(1) Cons.prems(2)]
  show ?case
  proof (cases "o1 @ av_total a1 reads1 = av_total a reads")
    case True
    from Cons.IH [OF r(2)] one consider "o2 @ av_total a' reads' = av_total a1 reads1"
      | pre buf post e where "av_total a1 reads1 = pre @ buf @ post" "headEnd buf = Some (e, True)"
        "\<not> isInterim (take e buf)" "o2 @ av_total a' reads' = pre @ withAltSvc buf e (av_value a) (av_replace a) @ post"
      by auto
    then show ?thesis
    proof cases
      case 1
      with True r(3) show ?thesis by simp
    next
      case (2 pre buf post e)
      then have "av_total a reads = (o1 @ pre) @ buf @ post"
        "out @ av_total a' reads' = (o1 @ pre) @ withAltSvc buf e (av_value a) (av_replace a) @ post"
        using True r(3) by auto
      with 2(2,3) show ?thesis by blast
    qed
  next
    case False
    with one have dn: "av_done a1" "edited a (av_total a reads) (o1 @ av_total a1 reads1)"
      by (auto simp: kept_or_edited_def)
    from av_run_done [OF r(2)] one dn(1) r(3) have "out @ av_total a' reads' = o1 @ av_total a1 reads1" by simp
    with dn(2) show ?thesis unfolding edited_def by (metis append_Nil)
  qed
qed

subsection \<open>Properties\<close>


definition sample_response :: bytes where
  "sample_response = ''HTTP/1.1 200 OK'' @ CRLFCRLF @ ''x''"

definition sample_annotated :: bytes where
  "sample_annotated = ''HTTP/1.1 200 OK'' @ CRLF @ ''Alt-Svc: h3'' @ CRLFCRLF @ ''x''"

lemma sample_response_head:
  "headEnd [] = None" "headEnd sample_response = Some (15, True)" "isInterim (take 15 sample_response) = False"
  "withAltSvc sample_response 15 ''h3'' False = sample_annotated"
  by code_simp+

lemma sample_response_run:
  "\<exists>a. av_run [64] (newAltSvcConn ''h3'' False) [(sample_response, None)] =
     Some (sample_annotated, a, []) \<and> av_total a [] = []"
proof -
  have small: "\<not> maxHeaderBytes < 15" "\<not> maxHeaderBytes < 0" by (simp_all add: maxHeaderBytes_def)
  have ne: "sample_response \<noteq> []" by (simp add: sample_response_def)
  let ?a = "newAltSvcConn ''h3'' False"
  have "av_collect ?a [] [(sample_response, None)] = av_collect ?a sample_response []"
    by (subst av_collect.simps) (simp only: sample_response_head small option.case list.case prod.case ne append_Nil list.size if_False simp_thms)
  also have "\<dots> = Some (?a\<lparr>av_done := True, av_pending := withAltSvc sample_response 15 ''h3'' False\<rparr>, None, [])"
    by (subst av_collect.simps) (simp only: sample_response_head av_head_def small option.case prod.case Let_def, simp add: newAltSvcConn_def sample_response_head)
  finally have "av_Read 64 ?a [(sample_response, None)] = Some ((sample_annotated, None),
      ?a\<lparr>av_done := True, av_pending := []\<rparr>, [])"
    by (simp add: av_Read_def newAltSvcConn_def sample_response_head(4)) (simp add: sample_annotated_def CRLFCRLF_def)
  then show ?thesis by (simp add: av_total_def newAltSvcConn_def)
qed


text \<open>A final response's head gets the edge's Alt-Svc line and no other when the edge replaces
  the service's own, and a head is otherwise left alone or gets that one line; the status line
  and everything from the end of the head on (the body) are untouched.\<close>

theorem altsvc_single_line:
  "(withAltSvc buf e v r = buf \<or>
    (\<exists>ls. (\<forall>l \<in> set ls. \<not> isAltSvcField l) \<and>
      withAltSvc buf e v r = fst (Cut (take e buf) CRLF) @ field_lines ls @ altSvcLine v @ drop e buf)) \<and>
   (final_response (take e buf) \<longrightarrow>
    (\<exists>ls. (\<forall>l \<in> set ls. \<not> isAltSvcField l) \<and>
      withAltSvc buf e v True = fst (Cut (take e buf) CRLF) @ field_lines ls @ altSvcLine v @ drop e buf))"
  using withAltSvc_shape [of buf e v r] withAltSvc_replace [of e buf v] by blast

theorem altsvc_single_line_witness:
  "\<exists>ls. (\<forall>l \<in> set ls. \<not> isAltSvcField l) \<and>
     withAltSvc sample_response 15 ''h3'' True =
       fst (Cut (take 15 sample_response) CRLF) @ field_lines ls @ altSvcLine ''h3'' @ drop 15 sample_response"
proof -
  have "final_response (take 15 sample_response)" by code_simp
  with altsvc_single_line [of sample_response 15 "''h3''" True] show ?thesis by blast
qed

end
