(* ===== verification/Edge_Ingress.thy ===== *)
theory Edge_Ingress
  imports Edge_State Alt_Svc Stream_Pipe
begin

text \<open>
  The public side of the edge (internal/edge/edge.go): the listener (\<^verbatim>\<open>listenIngress\<close>,
  \<^verbatim>\<open>ingressTLSConfig\<close>, \<^verbatim>\<open>acceptLoop\<close>), telling an agent from a client (\<^verbatim>\<open>takeAgent\<close>), the
  handler of one TCP connection from its first byte to its last (\<^verbatim>\<open>handleIngress\<close>), and the
  order in which the edge stops. The handler's definition runs undisturbed by other connections;
  what the network does and which sessions a dispatch finds are given by \<open>ingress_env\<close>.
\<close>

subsection \<open>Deadlines and listeners\<close>

definition acceptRetryDelay :: duration where "acceptRetryDelay = 100 * millisecond"
definition defaultReadHeaderTimeout :: duration where "defaultReadHeaderTimeout = 10 * second"

definition readHeaderDeadline :: "duration \<Rightarrow> duration" where
  "readHeaderDeadline configured = (if configured \<le> 0 then defaultReadHeaderTimeout else configured)"

text \<open>\<^verbatim>\<open>listenIngress\<close>, given whether the certificate could be loaded and the address bound: what kind
  of listener it makes.\<close>

datatype listener = WireTLSListener string | PlainListener string

datatype listen_error = PublicCertError | BindError | UnknownMode string

definition listenIngress :: "bool \<Rightarrow> bool \<Rightarrow> EdgeConfig \<Rightarrow> listen_error + listener" where
  "listenIngress cert binds cfg =
     (let i = Ingress cfg
      in if Mode i = ''standalone'' then
           (if \<not> cert then Inl PublicCertError
            else if \<not> binds then Inl BindError
            else Inr (WireTLSListener (ing_Listen i)))
         else if Mode i = ''proxied'' then (if binds then Inr (PlainListener (ing_Listen i)) else Inl BindError)
         else Inl (UnknownMode (Mode i)))"

text \<open>\<^verbatim>\<open>GetConfigForClient\<close> of \<^verbatim>\<open>ingressTLSConfig\<close>: whether the tunnel's configuration is used.\<close>

definition ingressTLSConfig :: "EdgeConfig \<Rightarrow> string list \<Rightarrow> wireConn \<Rightarrow> bool \<times> wireConn" where
  "ingressTLSConfig cfg supportedProtos wc =
     (if \<not> ShareIngress (Tunnel_cfg cfg) then (False, wc)
      else if ALPNv2 \<notin> set supportedProtos then (False, wc)
      else (True, wc\<lparr>wtunnel := True\<rparr>))"

text \<open>A handshake on an accepted connection: the protocols of the ClientHello and whether it
  completes, or \<open>None\<close> when no ClientHello arrives. A second handshake changes nothing.\<close>

definition run_handshake :: "EdgeConfig \<Rightarrow> (string list \<times> bool) option \<Rightarrow> net_conn \<Rightarrow> net_conn" where
  "run_handshake cfg hello nc = (case nc of
      TLSConn complete (Some w) \<Rightarrow> (case hello of
          None \<Rightarrow> nc
        | Some (protos, completes) \<Rightarrow>
            TLSConn completes (Some (snd (ingressTLSConfig cfg protos (w\<lparr>sawBytes := True\<rparr>)))))
    | _ \<Rightarrow> nc)"

definition takeAgent :: "EdgeConfig \<Rightarrow> (string list \<times> bool) option \<Rightarrow> net_conn \<Rightarrow> bool \<times> net_conn" where
  "takeAgent cfg hello nc =
     (if \<not> ShareIngress (Tunnel_cfg cfg) then (False, nc)
      else (case nc of
          TLSConn _ (Some _) \<Rightarrow>
            (let nc' = run_handshake cfg hello nc
             in (case nc' of TLSConn _ (Some w) \<Rightarrow> wtunnel w | _ \<Rightarrow> False, nc'))
        | _ \<Rightarrow> (False, nc)))"

text \<open>\<^verbatim>\<open>acceptLoop\<close>, over what \<^verbatim>\<open>Accept\<close> returns each time and whether the context has ended then or
  in the pause: the connections handled, in order, and the pauses made.\<close>

record 'c accepted =
  ac_conn :: "'c option"  \<comment> \<open>None: an error\<close>
  ac_cancelled :: bool  \<comment> \<open>the context has ended when an error is returned\<close>
  ac_cancel_pause :: bool
  ac_stop :: bool  \<comment> \<open>it has ended when the loop looks again\<close>

fun acceptLoop :: "'c accepted list \<Rightarrow> 'c list \<times> nat" where
  "acceptLoop [] = ([], 0)"
| "acceptLoop (a # as) = (case ac_conn a of
      None \<Rightarrow>
        if ac_cancelled a then ([], 0)
        else if ac_cancel_pause a then ([], 1)
        else if ac_stop a then ([], 1)
        else (let (cs, n) = acceptLoop as in (cs, Suc n))
    | Some c \<Rightarrow> if ac_stop a then ([c], 0) else (let (cs, n) = acceptLoop as in (c # cs, n)))"

definition altSvcFor :: "edge \<Rightarrow> routeState \<Rightarrow> edge_sys \<Rightarrow> string" where
  "altSvcFor e rs st =
     (if rs_noHTTP3 rs \<and> h3_Enabled (ing_HTTP3 (Ingress (e_cfg e))) then ''clear'' else es_altSvc st)"

subsection \<open>What a dispatch leaves behind\<close>

text \<open>Each attempt reserves a stream on its session, gives it back when it fails, and may retire or
  evict the session; the result has counted waits and failures on the route.\<close>

definition apply_attempt :: "nat list \<Rightarrow> edge_sys \<Rightarrow> tried_session \<Rightarrow> edge_sys" where
  "apply_attempt order st t =
     (let s = csess (ts_conn t);
          st = on_state (Reserve s) st;
          st = (if tr_released (ts_result t) then on_state (session_StreamClosed s) st else st)
      in apply_action order (ts_conn t) (tr_action (ts_result t)) st)"

definition route_counts :: "string \<Rightarrow> dispatch_result \<Rightarrow> State \<Rightarrow> State" where
  "route_counts p r s =
     (Route_Failure (Some p) ReasonStreamError ^^ dr_streamError r)
       ((Route_Failure (Some p) ReasonNoAgent ^^ dr_noAgent r) ((Route_AgentWait (Some p) ^^ dr_waits r) s))"

definition apply_dispatch :: "nat list \<Rightarrow> agentConn list \<Rightarrow> string \<Rightarrow> dispatch_result \<Rightarrow> edge_sys \<Rightarrow> edge_sys" where
  "apply_dispatch order dead p r st =
     (let st = foldl (\<lambda>st c. edge_evict c st) st dead;
          st = foldl (apply_attempt order) st (dr_trace r);
          st = on_state (route_counts p r) st
      in st\<lparr>es_rr := (es_rr st)(p := dr_rr r)\<rparr>)"

subsection \<open>Bytes\<close>

text \<open>The reads of a connection left after \<open>n\<close> bytes of it were taken.\<close>

fun drop_reads :: "nat \<Rightarrow> conn_reads \<Rightarrow> conn_reads" where
  "drop_reads n [] = []"
| "drop_reads n (r # rs) = (if n = 0 then r # rs else drop_reads (n - length (fst r)) rs)"

text \<open>Bytes read ahead, handed out in pieces.\<close>

fun chunks :: "nat list \<Rightarrow> bytes \<Rightarrow> conn_reads" where
  "chunks [] b = (if b = [] then [] else [(b, None)])"
| "chunks (n # ns) b = (if b = [] then [] else (take (Suc n) b, None) # chunks ns (drop (Suc n) b))"

text \<open>The reads made of an \<^verbatim>\<open>altSvcConn\<close>, up to its first error, and the stream's reads it used.\<close>

fun av_reads :: "nat list \<Rightarrow> altSvcConn \<Rightarrow> conn_reads \<Rightarrow> conn_reads \<times> conn_reads" where
  "av_reads [] a reads = ([], reads)"
| "av_reads (n # ns) a reads = (case av_Read n a reads of
      None \<Rightarrow> ([], reads)
    | Some ((b, err), a', reads') \<Rightarrow>
        if err \<noteq> None then ([(b, err)], reads')
        else (let (rs, left) = av_reads ns a' reads' in ((b, None) # rs, left)))"

text \<open>\<^verbatim>\<open>countingConn.Read\<close> reports each read of the stream.\<close>

definition read_reports :: "conn_reads \<Rightarrow> int list" where
  "read_reports reads = map (\<lambda>r. int (length (fst r))) reads"

subsection \<open>One connection\<close>

record ingress_env =
  in_conn :: net_conn
  in_hello :: "(string list \<times> bool) option"
  in_id :: string
  in_addr :: string
  in_reads :: conn_reads  \<comment> \<open>every read of the client's connection\<close>
  in_order :: "nat list"  \<comment> \<open>the order of ranging over the kept streams\<close>
  in_rounds :: "round list"
  in_dead :: "agentConn list"  \<comment> \<open>the closed sessions the dispatch comes upon\<close>
  in_sizes :: "nat list"  \<comment> \<open>how the head is handed to the copy\<close>
  in_up_writes :: "(nat \<times> io_error option) list"
  in_down :: conn_reads  \<comment> \<open>the reads of the tunnel stream that take place\<close>
  in_down_sizes :: "nat list"
  in_down_writes :: "(nat \<times> io_error option) list"
  in_up_first :: bool

datatype ingress_outcome =
    AgentTaken | MaxConnections | ClosedEarly | BadRequest head_error | NoRouteFor string | RouteFull
  | NotDispatched refusal | Proxied agentConn copied copied

definition release_global :: "edge_sys \<Rightarrow> edge_sys" where
  "release_global st = st\<lparr>es_sem := release_slot (es_sem st)\<rparr>"

text \<open>The bytes of a refusal.\<close>

definition refusal_page :: "refusal \<Rightarrow> string \<Rightarrow> bytes" where
  "refusal_page r connID = (case r of
      noAgent \<Rightarrow> errpage_Write 502 ''Bad Gateway'' ''No agent connected'' connID
    | streamFailed \<Rightarrow> errpage_Write 502 ''Bad Gateway'' ''Tunnel stream failed'' connID)"

text \<open>The tunnel side of the copy: what is read of it, and the stream's reads used for that.\<close>

definition down_reads :: "edge \<Rightarrow> routeState \<Rightarrow> ingress_env \<Rightarrow> edge_sys \<Rightarrow> conn_reads \<times> conn_reads" where
  "down_reads e rs env st =
     (let v = altSvcFor e rs st
      in if v \<noteq> '''' then
           (let (rds, left) = av_reads (in_down_sizes env) (newAltSvcConn v (rs_noHTTP3 rs)) (in_down env)
            in (rds, take (length (in_down env) - length left) (in_down env)))
         else (in_down env, in_down env))"

text \<open>From the agent's stream on: the copy both ways, with its counts.\<close>

definition proxy_stream :: "edge \<Rightarrow> routeState \<Rightarrow> ingress_env \<Rightarrow> bytes \<Rightarrow> agentConn \<Rightarrow> edge_sys \<Rightarrow>
    (ingress_outcome \<times> edge_sys) option" where
  "proxy_stream e rs env head c st =
     (let p = rs_stats rs;
          st = on_state (StreamOpened (Some p)) (on_state (Commit (csess c)) st);
          (sb, s) = State_Bytes p (es_state st);
          preSent = (if cv2 c then [int (length head)] else []);
          src = (if cv2 c then [] else chunks (in_sizes env) head) @ drop_reads (length head) (in_reads env);
          (rds, used) = down_reads e rs env st
      in case PipeProgress (in_up_first env) (src, in_up_writes env) (rds, in_down_writes env) of
           None \<Rightarrow> None
         | Some (_, x, y) \<Rightarrow>
             (let s = add_reports p sb (preSent @ cp_reports x) (read_reports used) s;
                  s = session_StreamClosed (csess c) (StreamClosed (Some p) s)
              in Some (Proxied c x y, st\<lparr>es_state := s\<rparr>)))"

text \<open>From the request's head on.\<close>

definition route_request :: "edge \<Rightarrow> ingress_env \<Rightarrow> bytes \<Rightarrow> string \<Rightarrow> edge_sys \<Rightarrow>
    ((ingress_outcome \<times> bytes) \<times> edge_sys) option" where
  "route_request e env head host st = (case Match (e_routes e) host of
      None \<Rightarrow> Some ((NoRouteFor host, errpage_Write 404 ''Not Found'' ''No route for host'' (in_id env)),
                  on_state (State_Failure ReasonNoRoute) st)
    | Some rs \<Rightarrow>
        (let p = rs_stats rs; (ok, st) = tcpRouteSlot p (in_order env) st
         in if \<not> ok then
              Some ((RouteFull, errpage_Write 503 ''Service Unavailable'' ''Too many connections'' (in_id env)),
                    on_state (Route_Failure (Some p) ReasonRouteMaxConnections) st)
            else (case dispatch (rs_balance rs) \<lparr>ConnID = in_id env, ClientAddr = in_addr env, Host = host,
                         EdgeVersion = Version (e_cfg e)\<rparr> head (AgentWaitDuration (e_cfg e)) (es_rr st p) (in_rounds env) of
                None \<Rightarrow> None
              | Some r \<Rightarrow>
                  (let st = apply_dispatch (in_order env) (in_dead env) p r st
                   in case (dr_refused r, dr_chosen r) of
                        (Some f, _) \<Rightarrow> Some ((NotDispatched f, refusal_page f (in_id env)), release_route p st)
                      | (None, None) \<Rightarrow> None
                      | (None, Some c) \<Rightarrow> map_option (\<lambda>(o', st). ((o', []), release_route p st)) (proxy_stream e rs env head c st)))))"

text \<open>\<^verbatim>\<open>handleIngress\<close>: the outcome, what the edge itself wrote to the client, and the state. \<open>None\<close> while
  the head, an agent or the copy is still awaited.\<close>

definition handleIngress :: "edge \<Rightarrow> ingress_env \<Rightarrow> edge_sys \<Rightarrow> ((ingress_outcome \<times> bytes) \<times> edge_sys) option" where
  "handleIngress e env st =
     (let (ok, sem) = tryAcquire (es_sem st);
          (agent, nc) = takeAgent (e_cfg e) (in_hello env) (in_conn env);
          st = st\<lparr>es_sem := sem\<rparr>
      in if \<not> ok then
           (if agent then Some ((AgentTaken, []), st)
            else Some ((MaxConnections, errpage_Write 503 ''Service Unavailable'' ''Too many connections'' (in_id env)),
                       on_state (State_Failure ReasonMaxConnections) st))
         else if agent then Some ((AgentTaken, []), release_global st)
         else (case readRequestHead maxHeaderBytes [] (in_reads env) of
             None \<Rightarrow> None
           | Some (Inl err) \<Rightarrow>
               (case err of
                  ErrNoRequest io \<Rightarrow>
                    if closedWithoutRequest (run_handshake (e_cfg e) (in_hello env) nc)
                    then Some ((ClosedEarly, []), release_global (if io = ErrDeadlineExceeded then on_state HeaderTimeout st else st))
                    else Some ((BadRequest err, errpage_Write 400 ''Bad Request'' ''Malformed request'' (in_id env)),
                               release_global (on_state (State_Failure ReasonBadRequest) st))
                | _ \<Rightarrow> Some ((BadRequest err, errpage_Write 400 ''Bad Request'' ''Malformed request'' (in_id env)),
                            release_global (on_state (State_Failure ReasonBadRequest) st)))
           | Some (Inr (head, host)) \<Rightarrow>
               map_option (\<lambda>(res, st). (res, release_global st)) (route_request e env head host st)))"

subsection \<open>What the handler leaves alone\<close>

text \<open>The global cap, the unrouted failures and the header timeouts, as the parts of the handler that
  deal with a routed request leave them.\<close>

definition ingress_view :: "edge_sys \<Rightarrow> semaphore \<times> reasonCounts \<times> int" where
  "ingress_view st = (es_sem st, unrouted (es_state st), headerTimeouts (es_state st))"

lemma view_state_ops:
  "unrouted (on_session a g s) = unrouted s" "headerTimeouts (on_session a g s) = headerTimeouts s"
  "headerTimeouts (on_route p g' s) = headerTimeouts s"
  "unrouted (AgentDisconnected a s) = unrouted s" "headerTimeouts (AgentDisconnected a s) = headerTimeouts s"
  "unrouted (Commit a s) = unrouted s" "headerTimeouts (Commit a s) = headerTimeouts s"
  "headerTimeouts (StreamOpened p s) = headerTimeouts s" "headerTimeouts (StreamClosed p s) = headerTimeouts s"
  "headerTimeouts (snd (State_Bytes q s)) = headerTimeouts s"
  by (simp_all add: on_session_def on_route_def AgentDisconnected_def Commit_def StreamOpened_def streamOpened_def
      StreamClosed_def State_Bytes_def Let_def split: option.splits)

lemma view_on_state: "unrouted (f (es_state st)) = unrouted (es_state st) \<Longrightarrow>
    headerTimeouts (f (es_state st)) = headerTimeouts (es_state st) \<Longrightarrow> ingress_view (on_state f st) = ingress_view st"
  by (simp add: ingress_view_def on_state_def)

lemma view_release_route [simp]: "ingress_view (release_route p st) = ingress_view st"
  by (simp add: ingress_view_def)

lemma view_close_kept [simp]: "ingress_view (close_kept i st) = ingress_view st"
  by (simp add: ingress_view_def close_kept_def close_tunnelStream_def Let_def session_StreamClosed_def view_state_ops
      split: option.splits)

lemma view_h3 [simp]: "ingress_view (st\<lparr>es_h3 := h\<rparr>) = ingress_view st" "ingress_view (on_reg g st) = ingress_view st"
  "ingress_view (close_session s st) = ingress_view st" "ingress_view (add_waiter n p st) = ingress_view st"
  "ingress_view (snd (acquire_route p st)) = ingress_view st" "ingress_view (st\<lparr>es_retired := r\<rparr>) = ingress_view st"
  "ingress_view (st\<lparr>es_rr := rr\<rparr>) = ingress_view st"
  by (simp_all add: ingress_view_def on_reg_def close_session_def add_waiter_def acquire_route_def case_prod_unfold Let_def)

lemma view_evict_kept [simp]: "ingress_view (evict_kept p i st) = ingress_view st"
  by (simp add: evict_kept_def)

lemma view_slotFromKept [simp]: "ingress_view (snd (slotFromKept p order st)) = ingress_view st"
proof (induction order arbitrary: st)
  case (Cons i order)
  have "ingress_view (snd (acquire_route p (evict_kept p i st))) = ingress_view st" by simp
  then show ?case using Cons.IH by (auto simp: case_prod_unfold Let_def)
qed simp

lemma view_tcpRouteSlot [simp]: "ingress_view (snd (tcpRouteSlot p order st)) = ingress_view st"
  by (simp add: tcpRouteSlot_def case_prod_unfold Let_def)

lemma view_foldl:
  assumes "\<And>st x. ingress_view (f st x) = ingress_view st"
  shows "ingress_view (foldl f st xs) = ingress_view st"
  by (induction xs arbitrary: st) (simp_all add: assms)

lemma view_retire [simp]: "ingress_view (edge_retire order c st) = ingress_view st"
proof -
  have "ingress_view (close_agent_streams s order st) = ingress_view st" for s st
    unfolding close_agent_streams_def Let_def by (subst view_foldl) simp_all
  then show ?thesis
    by (simp add: edge_retire_def Let_def view_on_state session_SetDraining_def view_state_ops)
qed

lemma view_evict [simp]: "ingress_view (edge_evict c st) = ingress_view st"
  by (simp add: edge_evict_def Let_def view_on_state view_state_ops)

lemma view_apply_attempt [simp]: "ingress_view (apply_attempt order st t) = ingress_view st"
  by (simp add: apply_attempt_def apply_action_def Let_def view_on_state Reserve_def session_StreamClosed_def view_state_ops
      split: conn_action.splits)

lemma route_counts_frame:
  "unrouted (route_counts p r s) = unrouted s" "headerTimeouts (route_counts p r s) = headerTimeouts s"
proof -
  have "unrouted ((f ^^ n) s) = unrouted s \<and> headerTimeouts ((f ^^ n) s) = headerTimeouts s"
    if "\<And>s. unrouted (f s) = unrouted s \<and> headerTimeouts (f s) = headerTimeouts s" for f :: "State \<Rightarrow> State" and n s
    by (induction n) (simp_all add: that)
  note pow = this
  have "unrouted (Route_Failure q x s) = unrouted s \<and> headerTimeouts (Route_Failure q x s) = headerTimeouts s"
    "unrouted (Route_AgentWait q s) = unrouted s \<and> headerTimeouts (Route_AgentWait q s) = headerTimeouts s" for q x s
    by (simp_all add: Route_Failure_def Route_AgentWait_def view_state_ops)
  then show "unrouted (route_counts p r s) = unrouted s" "headerTimeouts (route_counts p r s) = headerTimeouts s"
    by (simp_all add: route_counts_def pow)
qed

lemma view_apply_dispatch [simp]: "ingress_view (apply_dispatch order dead p r st) = ingress_view st"
  by (simp add: apply_dispatch_def Let_def view_foldl view_on_state route_counts_frame)

lemma add_reports_timeouts: "headerTimeouts (add_reports p sb ins outs s) = headerTimeouts s"
proof -
  have "headerTimeouts (foldl (\<lambda>s n. on_route (Some p) (f n) s) s ns) = headerTimeouts s" for f :: "int \<Rightarrow> RouteStats \<Rightarrow> RouteStats" and ns s
    by (induction ns arbitrary: s) (simp_all add: view_state_ops)
  then show ?thesis by (simp add: add_reports_def)
qed

lemma view_proxy_stream: "proxy_stream e rs env head c st = Some (o', st') \<Longrightarrow> ingress_view st' = ingress_view st"
  by (auto simp: proxy_stream_def Let_def case_prod_unfold ingress_view_def on_state_def session_StreamClosed_def view_state_ops
      add_reports_timeouts split: option.splits)

lemma view_route_request:
  assumes "route_request e env head host st = Some ((o', sent), st')"
  shows "ingress_view st' = (es_sem st, case o' of NoRouteFor _ \<Rightarrow> reason_inc ReasonNoRoute (unrouted (es_state st)) | _ \<Rightarrow> unrouted (es_state st),
      headerTimeouts (es_state st)) \<and> o' \<notin> {AgentTaken, MaxConnections, ClosedEarly} \<and> (\<forall>x. o' \<noteq> BadRequest x)"
proof (cases "Match (e_routes e) host")
  case None
  with assms show ?thesis by (auto simp: route_request_def ingress_view_def State_Failure_def on_state_def)
next
  case (Some rs)
  let ?t = "tcpRouteSlot (rs_stats rs) (in_order env) st"
  have v: "ingress_view (snd ?t) = ingress_view st" by simp
  have full: "ingress_view (on_state (Route_Failure (Some (rs_stats rs)) ReasonRouteMaxConnections) (snd ?t)) = ingress_view st"
    using v by (simp add: view_on_state Route_Failure_def view_state_ops)
  have prox: "ingress_view st'' = ingress_view st \<and> (\<exists>x y. o'' = Proxied c x y)"
    if "proxy_stream e rs env head c (apply_dispatch (in_order env) (in_dead env) (rs_stats rs) r (snd ?t)) = Some (o'', st'')" for c r o'' st''
    using view_proxy_stream [OF that] v that by (auto simp: proxy_stream_def Let_def case_prod_unfold split: option.splits)
  have "ingress_view st' = ingress_view st \<and> (o' = RouteFull \<or> (\<exists>f. o' = NotDispatched f) \<or> (\<exists>c x y. o' = Proxied c x y))"
    using assms full unfolding route_request_def Let_def
    by (auto simp: Some case_prod_unfold split: if_splits option.splits dest!: prox)
  then show ?thesis by (auto simp: ingress_view_def)
qed

lemma release_global_view:
  "ingress_view (release_global st) = (release_slot (es_sem st), unrouted (es_state st), headerTimeouts (es_state st))"
  by (simp add: ingress_view_def release_global_def)

lemma tryAcquire_release: "sem_ok s \<Longrightarrow> tryAcquire s = (ok, s') \<Longrightarrow> (if ok then release_slot s' else s') = s"
  by (auto simp: release_slot_def sem_defs split: option.splits if_splits)


subsection \<open>What reaches the agent\<close>

lemma concat_chunks: "concat (map fst (chunks ns b)) = b"
  by (induction ns b rule: chunks.induct) (simp_all add: append_take_drop_id)

lemma drop_reads_concat:
  "concat (map fst (drop_reads (length (concat (map fst (take k rs)))) rs)) = concat (map fst (drop k rs)) \<and>
   concat (map fst rs) = concat (map fst (take k rs)) @ concat (map fst (drop_reads (length (concat (map fst (take k rs)))) rs))"
proof (induction rs arbitrary: k)
  case Nil
  then show ?case by simp
next
  case (Cons r rs)
  show ?case
  proof (cases k)
    case 0
    then show ?thesis by simp
  next
    case (Suc j)
    show ?thesis
    proof (cases "concat (map fst (take k (r # rs))) = []")
      case True
      then have "concat (map fst (r # rs)) = concat (map fst (drop k (r # rs)))"
        by (metis append_Nil append_take_drop_id concat_append map_append)
      with True show ?thesis by (simp del: concat.simps list.map)
    next
      case False
      define n where "n = length (concat (map fst (take k (r # rs))))"
      have "n \<noteq> 0" using False by (simp only: n_def length_0_conv not_False_eq_True)
      moreover have "n - length (fst r) = length (concat (map fst (take j rs)))" by (simp add: n_def Suc)
      ultimately have "drop_reads (length (concat (map fst (take k (r # rs))))) (r # rs) = drop_reads (length (concat (map fst (take j rs)))) rs"
        unfolding n_def [symmetric] by simp
      then show ?thesis using Cons.IH [of j] by (simp add: Suc)
    qed
  qed
qed

text \<open>The request's attempt that got the stream: what it wrote.\<close>

definition handed_over :: "dispatch_result \<Rightarrow> bytes" where
  "handed_over r = tr_wrote (ts_result (last (dr_trace r)))"

abbreviation ingress_preamble :: "edge \<Rightarrow> ingress_env \<Rightarrow> string \<Rightarrow> Preamble" where
  "ingress_preamble e env host \<equiv> \<lparr>ConnID = in_id env, ClientAddr = in_addr env, Host = host, EdgeVersion = Version (e_cfg e)\<rparr>"

abbreviation up_reads :: "ingress_env \<Rightarrow> agentConn \<Rightarrow> bytes \<Rightarrow> conn_reads" where
  "up_reads env c head \<equiv> (if cv2 c then [] else chunks (in_sizes env) head) @ drop_reads (length head) (in_reads env)"

lemma proxy_stream_pipe:
  assumes "proxy_stream e rs env head c st = Some (Proxied c' x y, st')"
  shows "c' = c \<and> (\<exists>down res. PipeProgress (in_up_first env) (up_reads env c head, in_up_writes env) down = Some (res, x, y))"
  using assms by (auto simp: proxy_stream_def Let_def case_prod_unfold split: option.splits) blast+

lemma route_request_Proxied:
  assumes "route_request e env head host st = Some ((Proxied c x y, sent), st')"
  shows "\<exists>rs rr r. Match (e_routes e) host = Some rs \<and> sent = [] \<and>
    dispatch (rs_balance rs) (ingress_preamble e env host) head (AgentWaitDuration (e_cfg e)) rr (in_rounds env) = Some r \<and>
    dr_refused r = None \<and> dr_chosen r = Some c \<and>
    (\<exists>down res. PipeProgress (in_up_first env) (up_reads env c head, in_up_writes env) down = Some (res, x, y))"
proof (cases "Match (e_routes e) host")
  case None
  then show ?thesis using assms by (simp add: route_request_def)
next
  case (Some rs)
  define t where "t = tcpRouteSlot (rs_stats rs) (in_order env) st"
  define d where "d = dispatch (rs_balance rs) (ingress_preamble e env host) head (AgentWaitDuration (e_cfg e))
    (es_rr (snd t) (rs_stats rs)) (in_rounds env)"
  note a = assms [unfolded route_request_def Some option.case Let_def t_def [symmetric] case_prod_unfold d_def [symmetric]]
  from a have "fst t" by (auto split: if_splits)
  with a obtain r where r: "d = Some r" by (auto split: option.splits)
  with a \<open>fst t\<close> have rf: "dr_refused r = None" by (auto split: option.splits)
  with a r \<open>fst t\<close> obtain c0 where c0: "dr_chosen r = Some c0" by (auto split: option.splits)
  with a r rf \<open>fst t\<close> obtain st0 st1 where "proxy_stream e rs env head c0 st0 = Some (Proxied c x y, st1)" "sent = []"
    by auto
  with proxy_stream_pipe [of e rs env head c0 st0 c x y st1] Some r rf c0 show ?thesis unfolding d_def by auto
qed

lemma handleIngress_Proxied:
  assumes "handleIngress e env st = Some ((Proxied c x y, sent), st')"
  shows "\<exists>head host rs rr r. readRequestHead maxHeaderBytes [] (in_reads env) = Some (Inr (head, host)) \<and>
    Match (e_routes e) host = Some rs \<and> sent = [] \<and>
    dispatch (rs_balance rs) (ingress_preamble e env host) head (AgentWaitDuration (e_cfg e)) rr (in_rounds env) = Some r \<and>
    dr_refused r = None \<and> dr_chosen r = Some c \<and>
    (\<exists>down res. PipeProgress (in_up_first env) (up_reads env c head, in_up_writes env) down = Some (res, x, y))"
proof -
  from assms obtain head host st0 st1 where h: "readRequestHead maxHeaderBytes [] (in_reads env) = Some (Inr (head, host))"
    and r: "route_request e env head host st0 = Some ((Proxied c x y, sent), st1)"
    by (auto simp: handleIngress_def Let_def case_prod_unfold split: if_splits option.splits sum.splits head_error.splits)
  show ?thesis by (rule exI [of _ head], rule exI [of _ host]) (use h route_request_Proxied [OF r] in auto)
qed

lemma proxied_stream:
  assumes "handleIngress e env st = Some ((Proxied c x y, sent), st')"
    and h: "readRequestHead maxHeaderBytes [] (in_reads env) = Some (Inr (head, host))"
    and w: "writer_ok (up_reads env c head) (in_up_writes env)"
  shows "\<exists>rs preamble wrote.
    Match (e_routes e) host = Some rs \<and> EncodePreamble (ingress_preamble e env host) = Inr preamble \<and>
    wrote = (if cv2 c then preamble @ head else preamble) \<and> sent = [] \<and>
    prefix (wrote @ cp_bytes x) (preamble @ concat (map fst (in_reads env)))"
proof -
  from handleIngress_Proxied [OF assms(1)] h obtain rs rr r down res where m: "Match (e_routes e) host = Some rs"
    and d: "dispatch (rs_balance rs) (ingress_preamble e env host) head (AgentWaitDuration (e_cfg e)) rr (in_rounds env) = Some r"
      "dr_refused r = None" "dr_chosen r = Some c" "sent = []"
    and pp: "PipeProgress (in_up_first env) (up_reads env c head, in_up_writes env) down = Some (res, x, y)" by auto
  from dispatch_chosen_spec [OF d(1,2)] obtain preamble where p: "EncodePreamble (ingress_preamble e env host) = Inr preamble" by blast
  from pp have c: "Copy (up_reads env c head) (in_up_writes env) = Some x"
    by (auto simp: PipeProgress_def split: option.splits)
  have pre: "prefix (cp_bytes x) (concat (map fst (up_reads env c head)))"
    by (rule Copy_ok(2) [OF w c])
  from readRequestHead_ok [OF h] obtain k where k: "head = concat (map fst (take k (in_reads env)))" by auto
  have all: "concat (map fst (in_reads env)) = head @ concat (map fst (drop_reads (length head) (in_reads env)))"
    using drop_reads_concat [of k "in_reads env"] k by simp
  have "prefix ((if cv2 c then preamble @ head else preamble) @ cp_bytes x) (preamble @ concat (map fst (in_reads env)))"
    using pre unfolding all by (cases "cv2 c") (simp_all add: concat_chunks)
  with m p d show ?thesis by blast
qed

text \<open>What the client sends is what the agent gets. When a connection is proxied, the stream of the
  agent the balancer chose carries the preamble for exactly the request's host, then a beginning
  of the bytes the client sent, in order and unchanged, the request's head among them: on a
  version 2 stream it went with the preamble and the copy starts after it, on a version 1 stream
  the copy starts with it. The edge itself writes nothing to the client.\<close>

theorem ingress_delivers:
  assumes "handleIngress e env st = Some ((Proxied c x y, sent), st')"
    and h: "readRequestHead maxHeaderBytes [] (in_reads env) = Some (Inr (head, host))"
    and w: "writer_ok (up_reads env c head) (in_up_writes env)"
  shows "\<exists>rs preamble wrote.
    Match (e_routes e) host = Some rs \<and> EncodePreamble (ingress_preamble e env host) = Inr preamble \<and>
    wrote = (if cv2 c then preamble @ head else preamble) \<and> sent = [] \<and>
    prefix (wrote @ cp_bytes x) (preamble @ concat (map fst (in_reads env)))"
  using assms by (rule proxied_stream)

subsection \<open>A connection, from start to end\<close>

text \<open>A larger cap accepts every head a smaller one does.\<close>

lemma readRequestHead_mono:
  "readRequestHead m buf reads = Some (Inr r) \<Longrightarrow> m \<le> m' \<Longrightarrow> readRequestHead m' buf reads = Some (Inr r)"
proof (induction m buf reads rule: readRequestHead.induct)
  case (1 m buf)
  then show ?case by simp
next
  case (2 m buf tmp rerr reads)
  then show ?case by (auto simp: Let_def split: if_splits option.splits sum.splits)
qed

definition sample_ingress :: ingress_env where
  "sample_ingress = \<lparr>in_conn = TCPConn, in_hello = None, in_id = ''c1'', in_addr = ''h:1'',
     in_reads = [(''G /'' @ CRLF @ ''Host: b'' @ CRLFCRLF @ ''x'', None), (''yz'', Some EOF)], in_order = [], in_rounds = sample_rounds,
     in_dead = [], in_sizes = [], in_up_writes = [(2, None)], in_down = [(''OK'', Some EOF)], in_down_sizes = [],
     in_down_writes = [(2, None)], in_up_first = True\<rparr>"

definition sample_head :: bytes where
  "sample_head = ''G /'' @ CRLF @ ''Host: b'' @ CRLFCRLF @ ''x''"

lemma sample_ingress_head: "readRequestHead maxHeaderBytes [] (in_reads sample_ingress) = Some (Inr (sample_head, ''b''))"
proof -
  have "readRequestHead 64 [] (in_reads sample_ingress) = Some (Inr (sample_head, ''b''))" by code_simp
  then show ?thesis by (rule readRequestHead_mono) (simp add: maxHeaderBytes_def)
qed

definition sample_server :: edge where
  "sample_server = \<lparr>e_cfg = sample_edge, e_allowed = {''f''}, e_routes = Build (map edge_entry (Routes sample_edge))\<rparr>"

lemma sample_server_match:
  "\<exists>rs. Match (e_routes sample_server) ''b'' = Some rs \<and> rs_balance rs = BalanceLeastConn \<and> rs_noHTTP3 rs = False"
proof -
  have "Match (e_routes sample_server) ''b'' = Some (route_state (Routes sample_edge ! 1))" by code_simp
  then show ?thesis by (simp add: route_state_def sample_edge_def BalanceMode_def ServesHTTP3_def)
qed

lemma sample_ingress_dispatch:
  "\<exists>r. dispatch BalanceLeastConn (ingress_preamble sample_server sample_ingress ''b'') sample_head
     (AgentWaitDuration (e_cfg sample_server)) 0 (in_rounds sample_ingress) = Some r \<and> dr_chosen r = Some conn_a \<and> dr_refused r = None"
proof -
  have l: "length (Marshal \<lparr>ConnID = ''c1'', ClientAddr = ''h:1'', Host = ''b'', EdgeVersion = ''''\<rparr>) \<le> maxPreamble" by code_simp
  then obtain f where "EncodePreamble (ingress_preamble sample_server sample_ingress ''b'') = Inr f"
    by (simp add: EncodePreamble_Inr sample_ingress_def sample_server_def sample_edge_def)
  moreover have "0 < AgentWaitDuration (e_cfg sample_server)"
    by (simp add: sample_server_def sample_edge_def AgentWaitDuration_def DefaultAgentWait_def second_def millisecond_def)
  ultimately show ?thesis
    by (simp add: sample_ingress_def dispatch_def dispatchOnce_def nextTurn_def pick_def pick_pass_def eligible_def
        BalanceLeastConn_def BalanceRoundRobin_def ok_iteration_def ok_env_def tryAgent_def try_ok_def
        all_tried_def fresh_of_def Let_def)
qed

definition sample_open_sys :: edge_sys where
  "sample_open_sys = sample_edge_sys\<lparr>es_route_sem := (\<lambda>_. None)\<rparr>"

lemma altSvc_apply_dispatch: "es_altSvc (apply_dispatch [] [] p r st) = es_altSvc st"
proof -
  have k: "es_altSvc (foldl (\<lambda>st i. close_kept i st) st is') = es_altSvc st" for st is'
    by (induction is' arbitrary: st)
      (simp_all add: close_kept_def close_tunnelStream_def release_route_def Let_def split: option.splits)
  have "es_altSvc (apply_attempt [] st t) = es_altSvc st" for st t
    by (simp add: k apply_attempt_def apply_action_def edge_retire_def edge_evict_def close_agent_streams_def on_state_def on_reg_def
        close_session_def Let_def split: conn_action.splits)
  then have "es_altSvc (foldl (apply_attempt []) st ts) = es_altSvc st" for st ts
    by (induction ts arbitrary: st) simp_all
  then show ?thesis by (simp add: apply_dispatch_def Let_def on_state_def)
qed

lemma sample_proxied:
  "\<exists>x y st'. handleIngress sample_server sample_ingress sample_open_sys = Some ((Proxied conn_a x y, []), st') \<and> cp_bytes x = ''yz''"
proof -
  from sample_server_match obtain rs where rs: "Match (e_routes sample_server) ''b'' = Some rs" "rs_balance rs = BalanceLeastConn"
    "rs_noHTTP3 rs = False" by blast
  from sample_ingress_dispatch obtain r where r: "dispatch BalanceLeastConn (ingress_preamble sample_server sample_ingress ''b'') sample_head
     (AgentWaitDuration (e_cfg sample_server)) 0 (in_rounds sample_ingress) = Some r" "dr_chosen r = Some conn_a" "dr_refused r = None" by blast
  define st0 where "st0 = apply_dispatch [] [] (rs_stats rs) r sample_open_sys"
  have alt: "altSvcFor sample_server rs (on_state f (on_state g st0)) = ''''" for f g
    by (simp add: altSvcFor_def rs st0_def altSvc_apply_dispatch sample_open_sys_def sample_edge_sys_def on_state_def)
  have "drop_reads (length sample_head) (in_reads sample_ingress) = [(''yz'', Some EOF)]" by code_simp
  then have "\<exists>x y res. PipeProgress (in_up_first sample_ingress) (up_reads sample_ingress conn_a sample_head, in_up_writes sample_ingress)
      (in_down sample_ingress, in_down_writes sample_ingress) = Some (res, x, y) \<and> cp_bytes x = ''yz''"
    by (simp add: sample_ingress_def PipeProgress_def Copy_def progress_Write_def)
  then obtain x y st1 where px: "proxy_stream sample_server rs sample_ingress sample_head conn_a st0 = Some (Proxied conn_a x y, st1)"
    "cp_bytes x = ''yz''"
    by (auto simp: proxy_stream_def Let_def case_prod_unfold down_reads_def alt)
  have slot: "tcpRouteSlot (rs_stats rs) (in_order sample_ingress) sample_open_sys = (True, sample_open_sys)"
    by (simp add: tcpRouteSlot_def acquire_route_def sample_open_sys_def sem_defs)
  have "es_rr sample_open_sys (rs_stats rs) = 0" "in_order sample_ingress = []" "in_dead sample_ingress = []"
    by (simp_all add: sample_open_sys_def sample_edge_sys_def sample_ingress_def)
  then have "\<exists>st2. route_request sample_server sample_ingress sample_head ''b'' sample_open_sys = Some ((Proxied conn_a x y, []), st2)"
    using rs r px slot by (simp add: route_request_def st0_def)
  moreover have "tryAcquire (es_sem sample_open_sys) = (True, es_sem sample_open_sys)" "sample_open_sys\<lparr>es_sem := es_sem sample_open_sys\<rparr> = sample_open_sys"
    by (simp_all add: sample_open_sys_def sample_edge_sys_def sem_defs)
  moreover have "takeAgent (e_cfg sample_server) (in_hello sample_ingress) (in_conn sample_ingress) = (False, TCPConn)"
    by (simp add: takeAgent_def sample_server_def sample_edge_def sample_ingress_def)
  ultimately show ?thesis using px(2) by (auto simp: handleIngress_def sample_ingress_head)
qed


theorem ingress_delivers_witness:
  "\<exists>preamble. EncodePreamble (ingress_preamble sample_server sample_ingress ''b'') = Inr preamble \<and>
     prefix ((preamble @ sample_head) @ ''yz'') (preamble @ concat (map fst (in_reads sample_ingress)))"
proof -
  from sample_proxied obtain x y st' where p: "handleIngress sample_server sample_ingress sample_open_sys = Some ((Proxied conn_a x y, []), st')"
    "cp_bytes x = ''yz''" by blast
  have "drop_reads (length sample_head) (in_reads sample_ingress) = [(''yz'', Some EOF)]" by code_simp
  then have "writer_ok (up_reads sample_ingress conn_a sample_head) (in_up_writes sample_ingress)" by (simp add: sample_ingress_def)
  from ingress_delivers [OF p(1) sample_ingress_head this] p(2) show ?thesis by auto
qed

subsection \<open>Starting and stopping\<close>

datatype run_action = ListenTunnel | ListenIngress | ListenUDP | CloseTunnel | CloseIngress | CloseUDP | StartHTTP3 | StoreAltSvc string
  | ServeHTTP3 | AcceptTunnel | AcceptIngress

datatype run_error = TunnelListenError | IngressListenError | HTTP3ListenError | HTTP3StartError

record run_env =
  rn_tunnel :: bool  \<comment> \<open>tunnel.listen can be bound\<close>
  rn_ingress :: bool
  rn_udp :: bool
  rn_h3 :: bool  \<comment> \<open>startHTTP3 succeeds\<close>
  rn_port :: int  \<comment> \<open>the UDP port bound\<close>

text \<open>\<^verbatim>\<open>ServeWithHTTP3\<close> up to the end of the accept loop, and its error.\<close>

definition ServeWithHTTP3 :: "EdgeConfig \<Rightarrow> run_env \<Rightarrow> bool \<Rightarrow> bool \<Rightarrow> run_error option \<times> run_action list" where
  "ServeWithHTTP3 cfg env tun h3 =
     (if h3 \<and> \<not> rn_h3 env then (Some HTTP3StartError, [StartHTTP3] @ (if tun then [CloseTunnel] else []) @ [CloseIngress, CloseUDP])
      else (None, (if h3 then [StartHTTP3, StoreAltSvc (AltSvcHeaderFor (Ingress cfg) (rn_port env)), ServeHTTP3] else []) @
                  (if tun then [AcceptTunnel] else []) @ [AcceptIngress] @
                  (if tun then [CloseTunnel] else []) @ [CloseIngress] @ (if h3 then [CloseUDP] else [])))"

definition edge_Run :: "EdgeConfig \<Rightarrow> run_env \<Rightarrow> run_error option \<times> run_action list" where
  "edge_Run cfg env =
     (let tun = (tun_Listen (Tunnel_cfg cfg) \<noteq> ''''); h3 = h3_Enabled (ing_HTTP3 (Ingress cfg));
          opened = (if tun then [ListenTunnel] else [])
      in if tun \<and> \<not> rn_tunnel env then (Some TunnelListenError, [])
         else if \<not> rn_ingress env then (Some IngressListenError, opened @ (if tun then [CloseTunnel] else []))
         else if h3 \<and> \<not> rn_udp env then
           (Some HTTP3ListenError, opened @ [ListenIngress] @ (if tun then [CloseTunnel] else []) @ [CloseIngress])
         else (let (err, acts) = ServeWithHTTP3 cfg env tun h3
               in (err, opened @ [ListenIngress] @ (if h3 then [ListenUDP] else []) @ acts)))"

text \<open>Whatever fails, every listener opened is closed, and HTTP/3 is advertised only once it is served.\<close>

lemma edge_Run_closes:
  "(ListenTunnel \<in> set (snd (edge_Run cfg env)) \<longleftrightarrow> CloseTunnel \<in> set (snd (edge_Run cfg env))) \<and>
   (ListenIngress \<in> set (snd (edge_Run cfg env)) \<longleftrightarrow> CloseIngress \<in> set (snd (edge_Run cfg env))) \<and>
   (ListenUDP \<in> set (snd (edge_Run cfg env)) \<longleftrightarrow> CloseUDP \<in> set (snd (edge_Run cfg env)))"
  by (auto simp: edge_Run_def ServeWithHTTP3_def Let_def case_prod_unfold)

text \<open>The end of \<^verbatim>\<open>ServeWithHTTP3\<close>, from the moment the accept loop has returned: when the sessions of
  the agents are closed, given when the TCP handlers and HTTP/3 are finished.\<close>

definition sessions_closed_at :: "duration \<Rightarrow> duration \<Rightarrow> duration \<Rightarrow> duration" where
  "sessions_closed_at drain handlers h3done =
     (let d = fst (DrainWait drain handlers) in if h3done \<le> d then d else if drain \<le> d then d else min h3done drain)"

lemma sessions_closed_bounds:
  assumes "0 \<le> handlers" and "0 \<le> h3done"
  shows "sessions_closed_at drain handlers h3done \<le> max 0 drain"
    and "handlers < drain \<Longrightarrow> h3done < drain \<Longrightarrow> handlers \<le> sessions_closed_at drain handlers h3done \<and>
      h3done \<le> sessions_closed_at drain handlers h3done"
  using assms by (auto simp: sessions_closed_at_def DrainWait_def Let_def)

end
