(* ===== verification/H3_Serve.thy ===== *)
theory H3_Serve
  imports H3_Response Edge_Ingress
begin

text \<open>
  Serving an HTTP/3 request (\<^verbatim>\<open>serveHTTP3\<close>, \<^verbatim>\<open>openH3Stream\<close>, \<^verbatim>\<open>h3Exchange\<close> of
  \<^verbatim>\<open>internal/edge/http3.go\<close>) on the state of the edge. What a request meets outside the edge (the
  client's body and its giving up, the tunnel stream's reads and writes, the agents a dispatch
  tries, how far an upload has come when the response does) is collected in environment records;
  \<^verbatim>\<open>panic(http.ErrAbortHandler)\<close>, which resets the request's stream, is an outcome of its own.
  Deadlines and logging are left out.
\<close>

subsection \<open>Streams\<close>

text \<open>\<^verbatim>\<open>take\<close>: each turn with what the watcher of the popped stream's read returned. \<open>None\<close> when the
  turns listed do not end it.\<close>

fun h3_take :: "nat \<Rightarrow> string \<Rightarrow> string \<Rightarrow> (nat \<times> bool) list \<Rightarrow> edge_sys \<Rightarrow> (tunnelStream option \<times> edge_sys) option" where
  "h3_take c host p ws st = (case take_pop c host (es_h3 st) of
      (None, _) \<Rightarrow> Some (None, st)
    | (Some i, h) \<Rightarrow> (case ws of
        [] \<Rightarrow> None
      | w # ws \<Rightarrow>
          (let h = h3_watch i (fst w) (snd w) h
           in case idles h i of
               None \<Rightarrow> None
             | Some is \<Rightarrow>
                 (let ts = is_ts is; closed = (ts_agent ts \<in> closedS (es_rs st)); retired = (ts_agent ts \<in> es_retired st)
                  in if take_usable i p closed retired h
                     then Some (Some ts, st\<lparr>es_h3 := take_decide i p closed retired h\<rparr>)
                     else h3_take c host p ws (close_tunnelStream ts (st\<lparr>es_h3 := h\<lparr>popping := popping h - {i}\<rparr>\<rparr>))))))"

declare h3_take.simps [simp del]

text \<open>The request's own stream, closed or kept for the connection's next request.\<close>

definition drop_own :: "tunnelStream \<Rightarrow> edge_sys \<Rightarrow> edge_sys" where
  "drop_own ts st =
     (let st = close_tunnelStream ts st in st\<lparr>es_h3 := (es_h3 st)\<lparr>owned := owned (es_h3 st) - {ts_id ts}\<rparr>\<rparr>)"

definition keep_own :: "nat \<Rightarrow> nat \<Rightarrow> tunnelStream \<Rightarrow> edge_sys \<Rightarrow> edge_sys" where
  "keep_own i c ts st =
     (let w = es_waiters st (ts_rs ts); r = (ts_agent ts \<in> es_retired st)
      in if put_refuses c w r (es_h3 st) then drop_own ts st else st\<lparr>es_h3 := h3_put i c ts w r (es_h3 st)\<rparr>)"

subsection \<open>Answers of the edge\<close>

definition h3_fail :: "string \<Rightarrow> nat \<Rightarrow> string \<Rightarrow> string \<Rightarrow> response_writer \<Rightarrow> response_writer" where
  "h3_fail connID code reason detail w =
     (let body = Render code reason detail connID;
          w = w\<lparr>rw_header := header_set ''Content-Length'' [show_nat (length body)]
                (header_set ''Content-Type'' [''text/html; charset=utf-8''] (rw_header w))\<rparr>
      in (WriteHeader (int code) w)\<lparr>rw_body := rw_body w @ body\<rparr>)"

definition fail_refusal :: "string \<Rightarrow> refusal \<Rightarrow> response_writer \<Rightarrow> response_writer" where
  "fail_refusal connID r = (case r of
      noAgent \<Rightarrow> h3_fail connID 502 ''Bad Gateway'' ''No agent connected''
    | streamFailed \<Rightarrow> h3_fail connID 502 ''Bad Gateway'' ''Tunnel stream failed'')"

subsection \<open>Opening a stream\<close>

record open_env =
  oe_order :: "nat list"  \<comment> \<open>the order of ranging over the kept streams\<close>
  oe_others :: "edge_sys \<Rightarrow> edge_sys"  \<comment> \<open>other goroutines, while a slot is awaited\<close>
  oe_ctxDone :: bool
  oe_choice :: nat
  oe_gone :: bool  \<comment> \<open>the client has given up when no slot came\<close>
  oe_rounds :: "round list"
  oe_dead :: "agentConn list"
  oe_write :: "nat \<times> io_error option"  \<comment> \<open>the head sent to a version 1 agent\<close>
  oe_id :: nat  \<comment> \<open>the new \<^verbatim>\<open>*tunnelStream\<close>: no result for one that is not new\<close>

datatype open_result = Opened tunnelStream | Unopened | GaveUp

definition openH3Stream :: "edge \<Rightarrow> open_env \<Rightarrow> routeState \<Rightarrow> string \<Rightarrow> string \<Rightarrow> string \<Rightarrow> bytes \<Rightarrow> response_writer \<Rightarrow> edge_sys \<Rightarrow>
    (open_result \<times> response_writer \<times> edge_sys) option" where
  "openH3Stream e env rs connID addr host head w st =
     (let p = rs_stats rs
      in case routeSlot p (oe_order env) (oe_others env) (oe_ctxDone env) (oe_choice env) st of
          None \<Rightarrow> None
        | Some (False, st) \<Rightarrow>
            if oe_gone env then Some (GaveUp, w, st)
            else Some (Unopened, h3_fail connID 503 ''Service Unavailable'' ''Too many connections'' w,
                       on_state (Route_Failure (Some p) ReasonRouteMaxConnections) st)
        | Some (True, st) \<Rightarrow>
            (case dispatch (rs_balance rs) \<lparr>ConnID = connID, ClientAddr = addr, Host = host, EdgeVersion = Version (e_cfg e)\<rparr>
                    head (AgentWaitDuration (e_cfg e)) (es_rr st p) (oe_rounds env) of
               None \<Rightarrow> None
             | Some r \<Rightarrow>
                 (let st = apply_dispatch (oe_order env) (oe_dead env) p r st
                  in case (dr_refused r, dr_chosen r) of
                       (Some f, _) \<Rightarrow> Some (Unopened, fail_refusal connID f w, release_route p st)
                     | (None, None) \<Rightarrow> None
                     | (None, Some c) \<Rightarrow>
                         if \<not> cv2 c \<and> snd (oe_write env) \<noteq> None then
                           Some (Unopened, fail_refusal connID streamFailed w,
                             on_state (Route_Failure (Some p) ReasonStreamError)
                               (release_route p (on_state (session_StreamClosed (csess c)) st)))
                         else
                           (let st = on_state (StreamOpenedHTTP3 (Some p)) (on_state (Commit (csess c)) st); t = oe_id env
                            in if t \<in> made (es_h3 st) then None
                               else Some (Opened \<lparr>ts_id = t, ts_agent = csess c, ts_rs = p, ts_host = host\<rparr>, w,
                                 st\<lparr>es_h3 := (es_h3 st)\<lparr>made := insert t (made (es_h3 st)), owned := insert t (owned (es_h3 st))\<rparr>\<rparr>)))))"

subsection \<open>One exchange\<close>

record exchange_env =
  xe_head :: "nat \<times> io_error option"  \<comment> \<open>the head written to a kept stream\<close>
  xe_writes :: "(nat \<times> io_error option) list"  \<comment> \<open>the writes of the body\<close>
  xe_late :: header  \<comment> \<open>the request's trailers once its body has ended\<close>
  xe_phase1 :: nat  \<comment> \<open>the upload when the response head is in: 0 running, 1 its result stored, 2 finished\<close>
  xe_phase2 :: nat  \<comment> \<open>the same when the response has ended\<close>
  xe_waiting :: bool  \<comment> \<open>a read of the client's body is in progress\<close>
  xe_responses :: "(response_error + http_response) list"
  xe_received :: int  \<comment> \<open>bytes read of the stream when the response head is in\<close>
  xe_out :: "int list"  \<comment> \<open>every read of the stream\<close>
  xe_gone :: bool  \<comment> \<open>the client has given up when the response head is in\<close>
  xe_body :: body_reads  \<comment> \<open>the reads of the response body\<close>
  xe_client :: "(nat \<times> io_error option) list"  \<comment> \<open>the writes to the client\<close>
  xe_buffered :: nat  \<comment> \<open>bytes past the response\<close>
  xe_stop :: bool  \<comment> \<open>the client has not reset the request at the end\<close>
  xe_idle :: nat  \<comment> \<open>the new \<^verbatim>\<open>*idleStream\<close>\<close>

datatype exchange_end = XRetry | XDone | XAbort

text \<open>A body held in memory, in reads of a 32 KiB buffer.\<close>

fun held_reads :: "bytes \<Rightarrow> body_reads" where
  "held_reads b = (if b = [] then [([], Some EOF)] else (take 32768 b, None) # held_reads (drop 32768 b))"

declare held_reads.simps [simp del]

definition count_bytes :: "string \<Rightarrow> nat option \<Rightarrow> int list \<Rightarrow> int list \<Rightarrow> edge_sys \<Rightarrow> edge_sys" where
  "count_bytes p sb ins outs st = on_state (add_reports p sb ins outs) st"

text \<open>The client broke off its body, as the upload sees it.\<close>

definition client_failed :: "http_request \<Rightarrow> sent_body \<Rightarrow> bool" where
  "client_failed r s \<longleftrightarrow> sd_err s \<noteq> None \<and>
     (re_failed (readErrs_after (sd_reads s)) \<or>
      0 < ContentLength r \<and> re_n (readErrs_after (sd_reads s)) < ContentLength r \<and> sd_err s = Some (CopyIO EOF))"

text \<open>How an exchange ends when no response came: again on a fresh stream, by resetting the request,
  or with the edge's own answer.\<close>

definition response_failed :: "http_request \<Rightarrow> string \<Rightarrow> string \<Rightarrow> bool \<Rightarrow> exchange_env \<Rightarrow> sent_body \<Rightarrow> bool \<Rightarrow> response_error \<Rightarrow>
    response_writer \<Rightarrow> edge_sys \<Rightarrow> exchange_end \<times> response_writer \<times> edge_sys" where
  "response_failed r p connID reused env s streamed err w st =
     (if reused \<and> xe_received env = 0 \<and> isTunnelGone err \<and> \<not> xe_gone env then (XRetry, w, st)
      else if xe_gone env \<or> streamed \<and> 1 \<le> xe_phase1 env \<and> client_failed r s then (XAbort, w, st)
      else if isTimeout err \<and> streamed \<and> xe_phase1 env < 2 \<and> xe_waiting env then (XAbort, w, st)
      else if isTimeout err then
        (XDone, h3_fail connID 504 ''Gateway Timeout'' ''No response from the service in time'' w,
         on_state (Route_Failure (Some p) ReasonResponseTimeout) st)
      else if isTunnelGone err then
        (XDone, h3_fail connID 502 ''Bad Gateway'' ''Tunnel stream failed'' w, on_state (Route_Failure (Some p) ReasonStreamError) st)
      else (XDone, h3_fail connID 502 ''Bad Gateway'' ''Invalid response from the service'' w,
            on_state (Route_Failure (Some p) ReasonBadResponse) st))"

text \<open>The head of a response goes to the client, with no guessed type.\<close>

definition send_head :: "http_response \<Rightarrow> response_writer \<Rightarrow> response_writer" where
  "send_head resp w =
     (let h = copyResponseHeader (rw_header w) (rp_Header resp);
          h = (if ''Content-Type'' \<in> fst ` set (rp_Header resp) then h else header_set ''Content-Type'' [] h)
      in WriteHeader (StatusCode resp) (w\<lparr>rw_header := h\<rparr>))"

definition send_trailers :: "httpguts \<Rightarrow> http_response \<Rightarrow> response_writer \<Rightarrow> response_writer" where
  "send_trailers g resp w =
     w\<lparr>rw_header := foldl (\<lambda>h e. if ValidTrailerHeader g (fst e) then header_set (''Trailer:'' @ fst e) (snd e) h else h)
        (rw_header w) (rp_Trailer resp)\<rparr>"

text \<open>The response is relayed; a stream at a message boundary is kept.\<close>

definition relay_response :: "httpguts \<Rightarrow> nat option \<Rightarrow> tunnelStream \<Rightarrow> exchange_env \<Rightarrow> sent_body \<Rightarrow> bool \<Rightarrow> http_response \<Rightarrow>
    response_writer \<Rightarrow> edge_sys \<Rightarrow> (exchange_end \<times> response_writer \<times> edge_sys) option" where
  "relay_response g cs ts env s streamed resp w st =
     (case copyResponse (xe_body env) (xe_client env) of
        None \<Rightarrow> None
      | Some (err, out) \<Rightarrow>
          (let w = (send_head resp w)\<lparr>rw_body := rw_body w @ out\<rparr>
           in if err \<noteq> None then Some (XAbort, w, drop_own ts st)
              else
                (let w = send_trailers g resp w; done' = (\<not> streamed \<or> xe_phase2 env = 2)
                 in case cs of
                     None \<Rightarrow> Some (XDone, w, drop_own ts st)
                   | Some c \<Rightarrow>
                       if \<not> rp_Close resp \<and> done' \<and> sd_err s = None \<and> xe_buffered env = 0 \<and> xe_stop env
                       then (if xe_idle env \<in> dom (idles (es_h3 st)) then None else Some (XDone, w, keep_own (xe_idle env) c ts st))
                       else Some (XDone, w, drop_own ts st))))"

text \<open>\<^verbatim>\<open>h3Exchange\<close>: how it ended, what was written on the stream and how much of a response head had come
  back, what the client was sent, the state.
  \<open>mem\<close> is the body when it is held in memory, \<open>reads\<close> the reads of the client's body otherwise.\<close>

definition h3Exchange :: "httpguts \<Rightarrow> http_request \<Rightarrow> nat option \<Rightarrow> tunnelStream \<Rightarrow> bytes \<Rightarrow> bool \<Rightarrow> bytes option \<Rightarrow> body_reads \<Rightarrow>
    string list \<Rightarrow> string \<Rightarrow> exchange_env \<Rightarrow> response_writer \<Rightarrow> edge_sys \<Rightarrow>
    ((exchange_end \<times> bytes \<times> int) \<times> response_writer \<times> edge_sys) option" where
  "h3Exchange g r cs ts head reused mem reads trailers connID env w st =
     (let p = ts_rs ts; (sb, s0) = State_Bytes p (es_state st); st = st\<lparr>es_state := s0\<rparr>; n = fst (xe_head env)
      in if reused \<and> snd (xe_head env) \<noteq> None then
           Some ((XRetry, take n head, 0), w, drop_own ts (count_bytes p sb [int n] [] st))
         else (case sendBody g (xe_late env) (case mem of Some b \<Rightarrow> held_reads b | None \<Rightarrow> reads) (xe_writes env) r trailers of
             None \<Rightarrow> None
           | Some s \<Rightarrow>
               (let ins = [int (length head), int (length (sd_bytes s))]; sent = head @ sd_bytes s
                in if mem \<noteq> None \<and> sd_err s \<noteq> None \<and> reused then
                     Some ((XRetry, sent, 0), w, drop_own ts (count_bytes p sb ins [] st))
                   else (case readFinalResponse (xe_responses env) of
                       None \<Rightarrow> None
                     | Some (interim, res) \<Rightarrow>
                         (let w = foldl send_interim w interim; st = count_bytes p sb ins (xe_out env) st
                          in map_option (\<lambda>(x, w, st). ((x, sent, xe_received env), w, st)) (case res of
                              Inl err \<Rightarrow>
                                (let (x, w, st) = response_failed r p connID reused env s (mem = None) err w st
                                 in Some (x, w, drop_own ts st))
                            | Inr resp \<Rightarrow> relay_response g cs ts env s (mem = None) resp w st))))))"

subsection \<open>WebSockets (http3ws.go)\<close>

record ws_env =
  we_responses :: "(response_error + http_response) list"
  we_gone :: bool  \<comment> \<open>the client has given up when the response head is in\<close>
  we_body :: body_reads  \<comment> \<open>the body of an answer that turns the upgrade down\<close>
  we_client :: "(nat \<times> io_error option) list"  \<comment> \<open>the writes to the client\<close>
  we_up :: body_reads  \<comment> \<open>the frames from the client\<close>
  we_up_writes :: "(nat \<times> io_error option) list"
  we_down :: body_reads  \<comment> \<open>the frames from the service, those read with the head first\<close>
  we_out :: "int list"  \<comment> \<open>every read of the stream\<close>

text \<open>\<^verbatim>\<open>serveHTTP3WebSocket\<close>; \<open>accept\<close> is \<^verbatim>\<open>webSocketAccept\<close>. Once the frames flow, both copies go on until
  they end (the edge ends the second after the first); the bytes from the client that went up are
  returned.\<close>

definition serveHTTP3WebSocket :: "(string \<Rightarrow> string) \<Rightarrow> string \<Rightarrow> string \<Rightarrow> string \<Rightarrow> ws_env \<Rightarrow> response_writer \<Rightarrow> State \<Rightarrow>
    ((exchange_end \<times> bytes) \<times> response_writer \<times> State) option" where
  "serveHTTP3WebSocket accept p connID key env w s =
     (case readUpgradeResponse (we_responses env) of
        None \<Rightarrow> None
      | Some (Inl err) \<Rightarrow>
          if we_gone env then Some ((XAbort, []), w, s)
          else Some ((XDone, []), h3_fail connID 502 ''Bad Gateway'' ''Invalid response from the service'' w,
                 Route_Failure (Some p) (if isTunnelGone err then ReasonStreamError else ReasonBadResponse) s)
      | Some (Inr resp) \<Rightarrow>
          if StatusCode resp \<noteq> 101 \<and> StatusCode resp < 300 then
            Some ((XDone, []), h3_fail connID 502 ''Bad Gateway'' ''The service did not accept the WebSocket'' w,
                  Route_Failure (Some p) ReasonBadResponse s)
          else if StatusCode resp \<noteq> 101 then
            (case copyResponse (we_body env) (we_client env) of
               None \<Rightarrow> None
             | Some (err, out) \<Rightarrow>
                 Some ((if err = None then XDone else XAbort, []), (send_head resp w)\<lparr>rw_body := rw_body w @ out\<rparr>, s))
          else if Header_Get (rp_Header resp) ''Sec-Websocket-Accept'' \<noteq> accept key then
            Some ((XDone, []), h3_fail connID 502 ''Bad Gateway'' ''Invalid response from the service'' w,
                  Route_Failure (Some p) ReasonBadResponse s)
          else
            (let h = Header_Del ''Sec-Websocket-Accept'' (copyResponseHeader (rw_header w) (rp_Header resp));
                 w = WriteHeader 200 (w\<lparr>rw_header := h\<rparr>)
             in case (Copy (we_up env) (we_up_writes env), copyResponse (we_down env) (we_client env)) of
                 (Some up, Some (_, down)) \<Rightarrow> Some ((XDone, cp_bytes up), w\<lparr>rw_body := rw_body w @ down\<rparr>, s)
               | _ \<Rightarrow> None))"

subsection \<open>A request, from start to end\<close>

record h3_try =
  tr_take :: "(nat \<times> bool) list"
  tr_open :: open_env
  tr_exchange :: exchange_env

record exchange_log =
  xl_reused :: bool
  xl_stream :: tunnelStream
  xl_sent :: bytes
  xl_received :: int
  xl_end :: exchange_end

definition HTTP3Request :: "string \<Rightarrow> State \<Rightarrow> State" where
  "HTTP3Request p s = on_route (Some p) route_HTTP3Request s"

record h3_req =
  hr_request :: http_request
  hr_addr :: string
  hr_id :: string
  hr_conn :: "nat option"  \<comment> \<open>the connection's pool\<close>

text \<open>The stream of a turn: a kept one when it may be reused, a fresh one otherwise.\<close>

definition kept_stream :: "h3_req \<Rightarrow> routeState \<Rightarrow> string \<Rightarrow> bool \<Rightarrow> h3_try \<Rightarrow> edge_sys \<Rightarrow> (tunnelStream option \<times> edge_sys) option" where
  "kept_stream q rs host reuse t st =
     (case hr_conn q of Some c \<Rightarrow> if reuse then h3_take c host (rs_stats rs) (tr_take t) st else Some (None, st) | None \<Rightarrow> Some (None, st))"

definition turn_stream :: "edge \<Rightarrow> h3_req \<Rightarrow> routeState \<Rightarrow> string \<Rightarrow> bytes \<Rightarrow> tunnelStream option \<Rightarrow> h3_try \<Rightarrow> response_writer \<Rightarrow> edge_sys \<Rightarrow>
    (open_result \<times> response_writer \<times> edge_sys) option" where
  "turn_stream e q rs host head kept t w st = (case kept of
      Some s \<Rightarrow> Some (Opened s, w, st)
    | None \<Rightarrow> openH3Stream e (tr_open t) rs (hr_id q) (hr_addr q) host head w st)"

text \<open>The loop of \<^verbatim>\<open>serveHTTP3\<close>, with the exchanges it makes.\<close>

fun serve_loop :: "httpguts \<Rightarrow> edge \<Rightarrow> h3_req \<Rightarrow> routeState \<Rightarrow> string \<Rightarrow> bytes \<Rightarrow> bytes option \<Rightarrow> body_reads \<Rightarrow> string list \<Rightarrow>
    bool \<Rightarrow> bool \<Rightarrow> h3_try list \<Rightarrow> response_writer \<Rightarrow> edge_sys \<Rightarrow> ((exchange_end \<times> exchange_log list) \<times> response_writer \<times> edge_sys) option" where
  "serve_loop g e q rs host head mem reads trailers reuse sent [] w st = None"
| "serve_loop g e q rs host head mem reads trailers reuse sent (t # ts) w st =
     (case kept_stream q rs host reuse t st of
        None \<Rightarrow> None
      | Some (kept, st) \<Rightarrow>
          (case turn_stream e q rs host head kept t w st of
             None \<Rightarrow> None
           | Some (Unopened, w, st) \<Rightarrow> Some ((XDone, []), w, st)
           | Some (GaveUp, w, st) \<Rightarrow> Some ((XAbort, []), w, st)
           | Some (Opened s, w, st) \<Rightarrow>
               (let st = (if sent then st else on_state (HTTP3Request (rs_stats rs)) st)
                in case h3Exchange g (hr_request q) (hr_conn q) s head (kept \<noteq> None) mem reads trailers (hr_id q) (tr_exchange t) w st of
                    None \<Rightarrow> None
                  | Some ((x, bytes, back), w, st) \<Rightarrow>
                      (let l = \<lparr>xl_reused = (kept \<noteq> None), xl_stream = s, xl_sent = bytes, xl_received = back, xl_end = x\<rparr>
                       in if x \<noteq> XRetry then Some ((x, [l]), w, st)
                          else map_option (\<lambda>((x, ls), w, st). ((x, l # ls), w, st))
                                 (serve_loop g e q rs host head mem reads trailers False True ts w st)))))"

record h3_serve_env =
  he_key :: string  \<comment> \<open>the fresh \<^verbatim>\<open>Sec-WebSocket-Key\<close>\<close>
  he_accept :: "string \<Rightarrow> string"
  he_reads :: body_reads  \<comment> \<open>the reads of the client's body\<close>
  he_peeked :: bool  \<comment> \<open>the first of them returned in time\<close>
  he_sizes :: "nat list"  \<comment> \<open>how the bytes read ahead are handed out\<close>
  he_bounded :: bool
  he_tries :: "h3_try list"
  he_ws :: ws_env

text \<open>The body as the request's reader sees it after the look ahead.\<close>

definition peeked_reads :: "nat list \<Rightarrow> peekedBody \<Rightarrow> body_reads \<Rightarrow> body_reads" where
  "peeked_reads sizes p rest = chunks sizes (pb_buf p) @ (case pb_err p of Some e \<Rightarrow> [([], Some e)] | None \<Rightarrow> rest)"

definition peeks :: "http_request \<Rightarrow> string list \<Rightarrow> bool" where
  "peeks r trailers \<longleftrightarrow> ContentLength r < 0 \<and> trailers = [] \<and> \<not> expectsContinue r"

text \<open>An upgrade, on a stream of its own.\<close>

definition serve_websocket :: "edge \<Rightarrow> h3_req \<Rightarrow> h3_serve_env \<Rightarrow> routeState \<Rightarrow> string \<Rightarrow> bytes \<Rightarrow> response_writer \<Rightarrow> edge_sys \<Rightarrow>
    ((exchange_end \<times> exchange_log list) \<times> response_writer \<times> edge_sys) option" where
  "serve_websocket e q env rs host head w st = (case he_tries env of
      [] \<Rightarrow> None
    | t # _ \<Rightarrow> (case openH3Stream e (tr_open t) rs (hr_id q) (hr_addr q) host head w st of
        None \<Rightarrow> None
      | Some (Unopened, w, st) \<Rightarrow> Some ((XDone, []), w, st)
      | Some (GaveUp, w, st) \<Rightarrow> Some ((XAbort, []), w, st)
      | Some (Opened s, w, st) \<Rightarrow>
          (let p = rs_stats rs; (sb, s0) = State_Bytes p (HTTP3Request p (es_state st))
           in case serveHTTP3WebSocket (he_accept env) p (hr_id q) (he_key env) (he_ws env) w s0 of
               None \<Rightarrow> None
             | Some ((x, up), w, s1) \<Rightarrow>
                 Some ((x, [\<lparr>xl_reused = False, xl_stream = s, xl_sent = head @ up, xl_received = sum_list (we_out (he_ws env)), xl_end = x\<rparr>]), w,
                   drop_own s (st\<lparr>es_state := add_reports p sb [int (length head), int (length up)] (we_out (he_ws env)) s1\<rparr>)))))"

text \<open>Any other request: the body looked at, framed, held when it is small, and sent.\<close>

definition serve_request :: "httpguts \<Rightarrow> edge \<Rightarrow> h3_req \<Rightarrow> h3_serve_env \<Rightarrow> routeState \<Rightarrow> string \<Rightarrow> bytes \<Rightarrow> response_writer \<Rightarrow> edge_sys \<Rightarrow>
    ((exchange_end \<times> exchange_log list) \<times> response_writer \<times> edge_sys) option" where
  "serve_request g e q env rs host lines w st =
     (let r = hr_request q; trailers = trailerNames g (Trailer r)
      in if peeks r trailers \<and> he_reads env = [] then None
         else
           (let pb = peekBody (hd (he_reads env)) (he_peeked env);
                (r, reads) = (if peeks r trailers then (r\<lparr>ContentLength := pb_length pb\<rparr>, peeked_reads (he_sizes env) pb (tl (he_reads env)))
                              else (r, he_reads env))
            in if peeks (hr_request q) trailers \<and> pb_done pb \<and> pb_err pb \<notin> {None, Some EOF} then Some ((XAbort, []), w, st)
               else (case holdBody (he_bounded env) reads r trailers of
                   None \<Rightarrow> None
                 | Some (Inl _) \<Rightarrow> Some ((XAbort, []), w, st)
                 | Some (Inr mem) \<Rightarrow>
                     serve_loop g e (q\<lparr>hr_request := r\<rparr>) rs host (framed lines r trailers) mem reads trailers
                       (mem \<noteq> None \<and> idempotent r \<and> hr_conn q \<noteq> None) False (he_tries env) w st)))"

definition serveHTTP3 :: "httpguts \<Rightarrow> edge \<Rightarrow> h3_req \<Rightarrow> h3_serve_env \<Rightarrow> response_writer \<Rightarrow> edge_sys \<Rightarrow>
    ((exchange_end \<times> exchange_log list) \<times> response_writer \<times> edge_sys) option" where
  "serveHTTP3 g e q env w st =
     (let r = hr_request q; ws = isWebSocketConnect r; host = Normalize (rq_Host r); id = hr_id q
      in if Method r = ''CONNECT'' \<and> \<not> ws then
           Some ((XDone, []), h3_fail id 501 ''Not Implemented'' ''CONNECT is not supported'' w, st)
         else (case (if ws then webSocketHead g r (he_key env) else http1Lines g r) of
             Inl _ \<Rightarrow> Some ((XDone, []), h3_fail id 400 ''Bad Request'' ''Malformed request'' w, on_state (State_Failure ReasonBadRequest) st)
           | Inr lines \<Rightarrow> (case Match (e_routes e) host of
               None \<Rightarrow> Some ((XDone, []), h3_fail id 404 ''Not Found'' ''No route for host'' w, on_state (State_Failure ReasonNoRoute) st)
             | Some rs \<Rightarrow>
                 if rs_noHTTP3 rs then
                   Some ((XDone, []), h3_fail id 421 ''Misdirected Request'' ''Not served over HTTP/3'' w,
                         on_state (Route_Failure (Some (rs_stats rs)) ReasonHTTP3Off) st)
                 else if ws then serve_websocket e q env rs host lines w st
                 else serve_request g e q env rs host lines w st)))"

subsection \<open>The handler as a run of the pool\<close>

abbreviation pool_run :: "edge_sys \<Rightarrow> edge_sys \<Rightarrow> bool" where
  "pool_run st st' \<equiv> h3_step\<^sup>*\<^sup>* (es_h3 st) (es_h3 st')"

lemma pool_run_inv: "h3_inv (es_h3 st) \<Longrightarrow> pool_run st st' \<Longrightarrow> h3_inv (es_h3 st')"
  by (rule h3_pool.steps_inv)

lemma idles_foldl_remove: "idles (foldl (\<lambda>st i. h3_removeLocked i st) h l) = idles h"
  by (induction l arbitrary: h) (simp_all add: removeLocked_frame)

lemma streamsClosed_foldl_remove: "streamsClosed (foldl (\<lambda>st i. h3_removeLocked i st) h l) = streamsClosed h"
  by (induction l arbitrary: h) (simp_all add: removeLocked_frame)

lemma streamsClosed_step: "h3_step h h' \<Longrightarrow> streamsClosed h \<subseteq> streamsClosed h'"
  by (induction rule: h3_step.induct)
    (auto simp: h3_put_def h3_watch_def take_pop_def take_decide_def closeConn_def closeAgent_def h3_closeAll_def evictRoute_def
      closeIdle_def close_stream_def removeWhereLocked_def Let_def removeLocked_frame streamsClosed_foldl_remove split: option.splits)

lemma streamsClosed_run: "h3_step\<^sup>*\<^sup>* h h' \<Longrightarrow> streamsClosed h \<subseteq> streamsClosed h'"
  by (induction rule: rtranclp_induct) (use streamsClosed_step in blast)+

lemma foldl_close_kept_run:
  "distinct l \<Longrightarrow> set l \<subseteq> doomed (es_h3 st) \<Longrightarrow> set l \<subseteq> dom (idles (es_h3 st)) \<Longrightarrow> pool_run st (foldl (\<lambda>st i. close_kept i st) st l)"
proof (induction l arbitrary: st)
  case (Cons i l)
  then have i: "i \<in> doomed (es_h3 st)" "i \<in> dom (idles (es_h3 st))" by auto
  note k = close_kept_h3 [OF i(2)]
  have "h3_step (es_h3 st) (es_h3 (close_kept i st))" unfolding k using i(1) by (rule h3_step.close)
  moreover have "pool_run (close_kept i st) (foldl (\<lambda>st i. close_kept i st) (close_kept i st) l)"
    using Cons.prems by (intro Cons.IH) (auto simp: k closeIdle_def)
  ultimately show ?case by (simp add: converse_rtranclp_into_rtranclp)
qed simp

lemma range_pool_ok: "h3_inv h \<Longrightarrow> ranges_pool (range_pool order h) h"
  by (auto simp: range_pool_def h3_inv_def h3_core_def lists_ok_def)

lemma close_agent_streams_run:
  assumes inv: "h3_inv (es_h3 st)" shows "pool_run st (close_agent_streams s order st)"
proof -
  let ?h = "es_h3 st" and ?l = "range_pool order (es_h3 st)"
  let ?st1 = "st\<lparr>es_h3 := closeAgent s ?l ?h\<rparr>"
  note r = range_pool_ok [OF inv, of order]
  have s1: "h3_step ?h (es_h3 ?st1)" using h3_step.agent_drains [OF r, of s] by simp
  have "idles (es_h3 ?st1) = idles ?h" by (simp add: closeAgent_def removeWhereLocked_def Let_def idles_foldl_remove)
  moreover have "set (filter (kept_by_agent s ?h) ?l) \<subseteq> doomed (es_h3 ?st1)"
    by (auto simp: closeAgent_def removeWhereLocked_def Let_def kept_by_agent_def split: option.splits)
  ultimately have "pool_run ?st1 (foldl (\<lambda>st i. close_kept i st) ?st1 (filter (kept_by_agent s ?h) ?l))"
    using r by (intro foldl_close_kept_run) (auto simp: kept_by_agent_def split: option.splits)
  with s1 show ?thesis by (simp add: close_agent_streams_def Let_def converse_rtranclp_into_rtranclp)
qed

lemma h3_on_state [simp]: "es_h3 (on_state f st) = es_h3 st" "es_h3 (on_reg g st) = es_h3 st" "es_h3 (close_session s st) = es_h3 st"
  by (simp_all add: on_state_def on_reg_def close_session_def)

lemma edge_retire_run: "h3_inv (es_h3 st) \<Longrightarrow> pool_run st (edge_retire order c st)"
  using close_agent_streams_run [of "on_reg (take_session (cfp c) (csess c)) (st\<lparr>es_retired := insert (csess c) (es_retired st)\<rparr>)" "csess c" order]
  by (simp add: edge_retire_def Let_def)

lemma h3_edge_evict [simp]: "es_h3 (edge_evict c st) = es_h3 st"
  by (simp add: edge_evict_def Let_def)

lemma apply_attempt_run: "h3_inv (es_h3 st) \<Longrightarrow> pool_run st (apply_attempt order st t)"
  using edge_retire_run [of "if tr_released (ts_result t) then on_state (session_StreamClosed (csess (ts_conn t))) (on_state (Reserve (csess (ts_conn t))) st)
    else on_state (Reserve (csess (ts_conn t))) st" order "ts_conn t"]
  by (auto simp: apply_attempt_def apply_action_def Let_def split: conn_action.splits)

lemma foldl_run:
  assumes "\<And>st x. h3_inv (es_h3 st) \<Longrightarrow> pool_run st (f st x)"
  shows "h3_inv (es_h3 st) \<Longrightarrow> pool_run st (foldl f st xs)"
proof (induction xs arbitrary: st)
  case (Cons x xs)
  from assms [OF Cons.prems, of x] Cons.IH [of "f st x"] pool_run_inv [OF Cons.prems] show ?case
    by (metis foldl_Cons rtranclp_trans)
qed simp

lemma apply_dispatch_run:
  assumes "h3_inv (es_h3 st)" shows "pool_run st (apply_dispatch order dead p r st)"
proof -
  have "es_h3 (foldl (\<lambda>st c. edge_evict c st) st dead) = es_h3 st" by (induction dead arbitrary: st) simp_all
  with foldl_run [of "apply_attempt order", OF apply_attempt_run, of "foldl (\<lambda>st c. edge_evict c st) st dead" "dr_trace r"] assms
  show ?thesis by (simp add: apply_dispatch_def Let_def)
qed

text \<open>Slots: a kept stream is closed by the steps of an eviction.\<close>

lemma h3_slots [simp]:
  "es_h3 (snd (acquire_route p st)) = es_h3 st" "es_h3 (add_waiter n p st) = es_h3 st"
  by (simp_all add: acquire_route_def add_waiter_def split_beta)

lemma slotFromKept_run: "h3_inv (es_h3 st) \<Longrightarrow> pool_run st (snd (slotFromKept p order st))"
proof (induction p order st rule: slotFromKept.induct)
  case (2 p i order st)
  show ?case
  proof (cases "kept_on p st i")
    case True
    define a where "a = acquire_route p (evict_kept p i st)"
    have run: "pool_run st (evict_kept p i st)" using evict_kept_steps(1) [OF "2.prems" True] .
    have a: "es_h3 (snd a) = es_h3 (evict_kept p i st)" by (simp add: a_def)
    show ?thesis
    proof (cases "fst a")
      case False
      with True "2.IH"(1) [OF True, of a "fst a" "snd a"] a pool_run_inv [OF "2.prems" run]
      have "pool_run (snd a) (snd (slotFromKept p order (snd a)))" by (simp add: a_def)
      with run a False True show ?thesis by (simp add: a_def [symmetric] split_beta)
    qed (use True run a in \<open>simp add: a_def [symmetric] split_beta\<close>)
  qed (use 2 in simp)
qed simp

definition others_run :: "(edge_sys \<Rightarrow> edge_sys) \<Rightarrow> bool" where
  "others_run f \<longleftrightarrow> (\<forall>st. h3_inv (es_h3 st) \<longrightarrow> pool_run st (f st))"

lemma routeSlot_run:
  assumes inv: "h3_inv (es_h3 st)" and o: "others_run others" and r: "routeSlot p order others d n st = Some (ok, st')"
  shows "pool_run st st'"
proof -
  define a where "a = acquire_route p st"
  define k where "k = slotFromKept p order (add_waiter 1 p (snd a))"
  have a: "es_h3 (snd a) = es_h3 st" by (simp add: a_def)
  have k: "pool_run st (snd k)" using slotFromKept_run [of "add_waiter 1 p (snd a)" p order] inv by (simp add: k_def a)
  have k': "pool_run st (others (snd k))"
    using o k pool_run_inv [OF inv k] by (auto simp: others_run_def intro: rtranclp_trans)
  show ?thesis using r a k k' unfolding routeSlot_def a_def [symmetric]
    by (auto simp: split_beta Let_def k_def [symmetric] split: if_splits)
qed

subsection \<open>The request's own stream\<close>

definition owns :: "tunnelStream \<Rightarrow> edge_sys \<Rightarrow> bool" where
  "owns ts st \<longleftrightarrow> ts_id ts \<in> owned (es_h3 st)"

text \<open>A stream the request is done with: closed, or kept in the pool.\<close>

definition settled :: "tunnelStream \<Rightarrow> edge_sys \<Rightarrow> bool" where
  "settled ts st \<longleftrightarrow> ts_id ts \<in> streamsClosed (es_h3 st) \<or> (\<exists>i \<in> pall (es_h3 st). \<exists>x. idles (es_h3 st) i = Some x \<and> is_ts x = ts)"

lemma drop_own_run: "owns ts st \<Longrightarrow> pool_run st (drop_own ts st) \<and> ts_id ts \<in> streamsClosed (es_h3 (drop_own ts st))"
  using h3_step.finish [of "ts_id ts" "es_h3 st"] by (auto simp: drop_own_def owns_def Let_def close_stream_def)

lemma settled_drop: "owns ts st \<Longrightarrow> settled ts (drop_own ts st)"
  using drop_own_run [of ts st] by (simp add: settled_def)

lemma keep_own_run:
  assumes "owns ts st" and "i \<notin> dom (idles (es_h3 st))"
  shows "pool_run st (keep_own i c ts st) \<and> settled ts (keep_own i c ts st)"
proof (cases "put_refuses c (es_waiters st (ts_rs ts)) (ts_agent ts \<in> es_retired st) (es_h3 st)")
  case True
  with drop_own_run [OF assms(1)] show ?thesis by (simp add: keep_own_def settled_def)
next
  case False
  with assms h3_step.put [of ts "es_h3 st" i c "es_waiters st (ts_rs ts)" "ts_agent ts \<in> es_retired st"] show ?thesis
    by (auto simp: keep_own_def owns_def settled_def Let_def h3_put_def)
qed

lemma openH3Stream_run:
  assumes inv: "h3_inv (es_h3 st)" and o: "others_run (oe_others env)"
    and r: "openH3Stream e env rs connID addr host head w st = Some (res, w', st')"
  shows "pool_run st st' \<and> (\<forall>ts. res = Opened ts \<longrightarrow> owns ts st')"
proof -
  let ?p = "rs_stats rs"
  from r obtain ok st1 where s: "routeSlot ?p (oe_order env) (oe_others env) (oe_ctxDone env) (oe_choice env) st = Some (ok, st1)"
    by (auto simp: openH3Stream_def Let_def split: option.splits)
  note run1 = routeSlot_run [OF inv o s]
  show ?thesis
  proof (cases ok)
    case False
    with r s run1 show ?thesis by (auto simp: openH3Stream_def Let_def split: if_splits)
  next
    case True
    from r s True obtain d where d: "dispatch (rs_balance rs) \<lparr>ConnID = connID, ClientAddr = addr, Host = host, EdgeVersion = Version (e_cfg e)\<rparr>
        head (AgentWaitDuration (e_cfg e)) (es_rr st1 ?p) (oe_rounds env) = Some d"
      by (auto simp: openH3Stream_def Let_def split: option.splits)
    define st2 where "st2 = apply_dispatch (oe_order env) (oe_dead env) ?p d st1"
    have run2: "pool_run st st2"
      using run1 apply_dispatch_run [OF pool_run_inv [OF inv run1]] by (auto simp: st2_def intro: rtranclp_trans)
    have new: "oe_id env \<notin> made (es_h3 st2) \<Longrightarrow>
        h3_step\<^sup>*\<^sup>* (es_h3 st) ((es_h3 st2)\<lparr>made := insert (oe_id env) (made (es_h3 st2)), owned := insert (oe_id env) (owned (es_h3 st2))\<rparr>)"
      using run2 h3_step.opened [of "oe_id env" "es_h3 st2"] by (rule_tac rtranclp.rtrancl_into_rtrancl)
    show ?thesis
      using r s True d run2 new unfolding openH3Stream_def Let_def st2_def [symmetric]
      by (auto simp: owns_def st2_def [symmetric] split: option.splits if_splits)
  qed
qed

lemma h3_take_run:
  "h3_inv (es_h3 st) \<Longrightarrow> h3_take c host p ws st = Some (res, st') \<Longrightarrow>
   pool_run st st' \<and> (\<forall>ts. res = Some ts \<longrightarrow> owns ts st')"
proof (induction ws arbitrary: st)
  case Nil
  then show ?case by (subst (asm) h3_take.simps) (auto split: prod.splits option.splits)
next
  case (Cons w ws)
  show ?case
  proof (cases "fst (take_pop c host (es_h3 st))")
    case None
    with Cons.prems show ?thesis by (subst (asm) h3_take.simps) (auto split: prod.splits option.splits)
  next
    case (Some i)
    define h1 where "h1 = snd (take_pop c host (es_h3 st))"
    define h where "h = h3_watch i (fst w) (snd w) h1"
    from Some have pop: "take_pop c host (es_h3 st) = (Some i, h1)" by (simp add: h1_def prod_eq_iff)
    from Cons.prems(2) pop obtain x where x: "idles h i = Some x"
      by (subst (asm) h3_take.simps) (auto simp: h_def [symmetric] Let_def split: option.splits)
    have s1: "h3_step (es_h3 st) h1" unfolding h1_def by (rule h3_step.pop)
    have inv1: "h3_inv h1" using h3_inv_step [OF Cons.prems(1) s1] .
    have ip: "i \<in> popping h1" using pop by (auto simp: take_pop_def Let_def split: if_splits)
    with inv1 have it: "i \<in> taken h1" "i \<in> dom (idles h1)" by (auto simp: h3_inv_def h3_core_def streams_ok_h3_def held_def)
    have s2: "h3_step h1 h" unfolding h_def using it(2) by (rule h3_step.watch)
    have ph: "popping h = popping h1" using it(1) by (simp add: h_def h3_watch_def Let_def)
    have run: "h3_step\<^sup>*\<^sup>* (es_h3 st) (take_decide i p cl rt h)" for cl rt
      using s1 s2 h3_step.decide [of i h p cl rt] ip ph
      by (auto intro: converse_rtranclp_into_rtranclp)
    define ts where "ts = is_ts x"
    define cl where "cl = (ts_agent ts \<in> closedS (es_rs st))"
    define rt where "rt = (ts_agent ts \<in> es_retired st)"
    have sid: "sid h i = ts_id ts" by (simp add: sid_def x ts_def)
    show ?thesis
    proof (cases "take_usable i p cl rt h")
      case True
      with Cons.prems(2) pop x have "res = Some ts" "st' = st\<lparr>es_h3 := take_decide i p cl rt h\<rparr>"
        by (subst (asm) h3_take.simps, simp add: h_def [symmetric] ts_def [symmetric] cl_def [symmetric] rt_def [symmetric] Let_def)+
      with run [of cl rt] True show ?thesis by (auto simp: owns_def take_decide_def sid)
    next
      case False
      let ?st = "close_tunnelStream ts (st\<lparr>es_h3 := h\<lparr>popping := popping h - {i}\<rparr>\<rparr>)"
      have "es_h3 ?st = take_decide i p cl rt h" using False by (simp add: take_decide_def sid close_stream_def)
      with run have r: "pool_run st ?st" by simp
      from Cons.prems(2) pop x False have "h3_take c host p ws ?st = Some (res, st')"
        by (subst (asm) h3_take.simps) (simp add: h_def [symmetric] ts_def [symmetric] cl_def [symmetric] rt_def [symmetric] Let_def)
      from Cons.IH [OF pool_run_inv [OF Cons.prems(1) r] this] r show ?thesis by (auto intro: rtranclp_trans)
    qed
  qed
qed

lemma h3_count_bytes [simp]: "es_h3 (count_bytes p sb ins outs st) = es_h3 st" "owns ts (count_bytes p sb ins outs st) = owns ts st"
  by (simp_all add: count_bytes_def owns_def)

lemma response_failed_h3 [simp]:
  "es_h3 (snd (snd (response_failed r p connID reused env s streamed err w st))) = es_h3 st"
  by (simp add: response_failed_def)

lemma relay_response_run:
  assumes "owns ts st" and "relay_response g cs ts env s streamed resp w st = Some (x, w', st')"
  shows "pool_run st st' \<and> settled ts st' \<and> x \<noteq> XRetry"
  using assms(2) drop_own_run [OF assms(1)] settled_drop [OF assms(1)] keep_own_run [OF assms(1), of "xe_idle env"]
  by (cases "xe_idle env \<in> dom (idles (es_h3 st))")
    (auto simp: relay_response_def Let_def simp del: domIff not_None_eq split: option.splits if_splits)

lemma h3Exchange_run:
  assumes own: "owns ts st" and x: "h3Exchange g r cs ts head reused mem reads trailers connID env w st = Some ((x, sent, back), w', st')"
  shows "pool_run st st' \<and> settled ts st' \<and> (x = XRetry \<longrightarrow> ts_id ts \<in> streamsClosed (es_h3 st'))"
proof -
  define b where "b = State_Bytes (ts_rs ts) (es_state st)"
  define st0 where "st0 = st\<lparr>es_state := snd b\<rparr>"
  have h0: "es_h3 st0 = es_h3 st" by (simp add: st0_def)
  have drop: "pool_run st (drop_own ts st1) \<and> settled ts (drop_own ts st1) \<and> ts_id ts \<in> streamsClosed (es_h3 (drop_own ts st1))"
    if "es_h3 st1 = es_h3 st" for st1
    using drop_own_run [of ts st1] own that by (auto simp: owns_def settled_def)
  have relay: "pool_run st st1 \<and> settled ts st1 \<and> x \<noteq> XRetry"
    if "es_h3 st2 = es_h3 st" "relay_response g cs ts env s streamed resp w2 st2 = Some (x, w1, st1)" for st1 st2 s streamed resp w1 w2
    using relay_response_run [OF _ that(2)] own that(1) by (simp add: owns_def)
  show ?thesis
    using x unfolding h3Exchange_def b_def [symmetric] split_beta Let_def st0_def [symmetric]
    by (auto simp: h0 drop split: if_splits option.splits sum.splits dest!: relay [rotated])
qed

lemma h3_HTTP3Request: "es_h3 (if sent then st else on_state f st) = es_h3 st" by simp

lemma serve_loop_run:
  "h3_inv (es_h3 st) \<Longrightarrow> (\<forall>t \<in> set ts. others_run (oe_others (tr_open t))) \<Longrightarrow>
   serve_loop g e q rs host head mem reads trailers reuse sent ts w st = Some ((x, ls), w', st') \<Longrightarrow>
   pool_run st st' \<and> (\<forall>l \<in> set ls. settled (xl_stream l) st')"
proof (induction ts arbitrary: reuse sent w st ls)
  case (Cons t ts)
  from Cons.prems(3) obtain kept st1 where tk: "kept_stream q rs host reuse t st = Some (kept, st1)"
    by (auto split: option.splits)
  have run1: "pool_run st st1 \<and> (\<forall>s. kept = Some s \<longrightarrow> owns s st1)"
    using tk h3_take_run [OF Cons.prems(1)] by (auto simp: kept_stream_def split: if_splits option.splits)
  note inv1 = pool_run_inv [OF Cons.prems(1) run1 [THEN conjunct1]]
  from Cons.prems(3) tk obtain res w2 st2 where op: "turn_stream e q rs host head kept t w st1 = Some (res, w2, st2)"
    by (auto split: option.splits)
  have run2: "pool_run st1 st2 \<and> (\<forall>s. res = Opened s \<longrightarrow> owns s st2)"
    using op run1 openH3Stream_run [OF inv1, of "tr_open t"] Cons.prems(2) by (auto simp: turn_stream_def split: option.splits)
  have run12: "pool_run st st2" using run1 run2 by (auto intro: rtranclp_trans)
  show ?case
  proof (cases res)
    case (Opened s)
    let ?st2 = "if sent then st2 else on_state (HTTP3Request (rs_stats rs)) st2"
    have own: "owns s ?st2" using run2 Opened by (simp add: owns_def)
    from Cons.prems(3) tk op Opened obtain x1 sent1 bk w3 st3 where
      ex: "h3Exchange g (hr_request q) (hr_conn q) s head (kept \<noteq> None) mem reads trailers (hr_id q) (tr_exchange t) w2 ?st2 =
        Some ((x1, sent1, bk), w3, st3)"
      by (simp add: Let_def split: option.splits prod.splits if_splits)
    from h3Exchange_run [OF own ex] run12
    have run3: "pool_run st st3" "settled s st3" "x1 = XRetry \<Longrightarrow> ts_id s \<in> streamsClosed (es_h3 st3)"
      by (auto simp: h3_HTTP3Request intro: rtranclp_trans)
    show ?thesis
    proof (cases "x1 = XRetry")
      case False
      with Cons.prems(3) tk op Opened ex run3 show ?thesis by (auto simp: Let_def)
    next
      case True
      with Cons.prems(3) tk op Opened ex obtain l ls1 where
        l: "serve_loop g e q rs host head mem reads trailers False True ts w3 st3 = Some ((x, ls1), w', st')" "ls = l # ls1" "xl_stream l = s"
        by (auto simp: Let_def split: option.splits)
      have tl: "\<forall>t \<in> set ts. others_run (oe_others (tr_open t))" using Cons.prems(2) by simp
      note rest = Cons.IH [OF pool_run_inv [OF Cons.prems(1) run3(1)] tl l(1)]
      with run3(3) [OF True] streamsClosed_run have "settled s st'" by (auto simp: settled_def)
      with rest run3(1) l show ?thesis by (auto intro: rtranclp_trans)
    qed
  qed (use Cons.prems(3) tk op run12 in \<open>simp_all\<close>)
qed simp

lemma serveHTTP3_run:
  assumes inv: "h3_inv (es_h3 st)" and o: "\<forall>t \<in> set (he_tries env). others_run (oe_others (tr_open t))"
    and r: "serveHTTP3 g e q env w st = Some ((x, ls), w', st')"
  shows "pool_run st st' \<and> (\<forall>l \<in> set ls. settled (xl_stream l) st')"
proof -
  have req: "pool_run st st' \<and> (\<forall>l \<in> set ls. settled (xl_stream l) st')"
    if "serve_request g e q env rs host lines w st = Some ((x, ls), w', st')" for rs host lines
    using that serve_loop_run [OF inv o] unfolding serve_request_def Let_def split_beta
    by (auto split: if_splits option.splits sum.splits)
  have ws: "pool_run st st' \<and> (\<forall>l \<in> set ls. settled (xl_stream l) st')"
    if s: "serve_websocket e q env rs host head w st = Some ((x, ls), w', st')" for rs host head
  proof -
    from s obtain t ts where t: "he_tries env = t # ts" by (auto simp: serve_websocket_def split: list.splits)
    from s t obtain res w1 st1 where op: "openH3Stream e (tr_open t) rs (hr_id q) (hr_addr q) host head w st = Some (res, w1, st1)"
      by (auto simp: serve_websocket_def split: option.splits)
    note run = openH3Stream_run [OF inv _ op]
    show ?thesis
    proof (cases res)
      case (Opened s')
      have "pool_run st1 (drop_own s' st2) \<and> settled s' (drop_own s' st2)" if "es_h3 st2 = es_h3 st1" for st2
        using drop_own_run [of s' st2] settled_drop [of s' st2] run o t Opened that by (simp add: owns_def)
      with s t op Opened run o show ?thesis
        by (auto simp: serve_websocket_def Let_def split_beta split: option.splits intro: rtranclp_trans)
    qed (use s t op run o in \<open>auto simp: serve_websocket_def\<close>)
  qed
  show ?thesis using r req ws unfolding serveHTTP3_def Let_def
    by (auto split: if_splits option.splits sum.splits)
qed

subsection \<open>What a request may send twice\<close>

lemma held_reads_concat: "concat (map fst (held_reads b)) = b"
proof (induction b rule: held_reads.induct)
  case (1 b)
  then show ?case by (subst held_reads.simps) (simp add: append_take_drop_id)
qed

lemma copy_loop_prefix:
  "copy_loop acc rs ws = Some c \<Longrightarrow> \<exists>p. cp_bytes c = cp_bytes acc @ p \<and> prefix p (concat (map fst rs))"
proof (induction rs arbitrary: acc ws)
  case (Cons r rs)
  obtain buf er where r: "r = (buf, er)" by (cases r)
  have ext: "\<exists>p. cp_bytes c = cp_bytes acc @ p \<and> prefix p (buf @ concat (map fst rs))"
    if "copy_loop acc' rs ws' = Some c" "cp_bytes acc' = cp_bytes acc @ buf" for acc' ws'
    using Cons.IH [OF that(1)] that(2) by auto
  have pre: "prefix (take n buf) (buf @ concat (map fst rs))" for n by (meson prefix_append take_is_prefix prefix_order.trans prefixI)
  show ?case
  proof (cases "buf = []")
    case True
    with Cons r show ?thesis by (auto split: option.splits if_splits)
  next
    case False
    with Cons.prems r obtain w ws1 where ws: "ws = w # ws1" by (cases ws) auto
    with Cons.prems r False pre ext show ?thesis
      by (fastforce simp: progress_Write_def Let_def split_beta split: if_splits option.splits)
  qed
qed simp

lemma sendBody_held_prefix:
  assumes "sendBody g late (held_reads b) ws r [] = Some s" and "0 \<le> ContentLength r"
  shows "prefix (sd_bytes s) b"
proof (cases "0 < ContentLength r")
  case True
  with assms obtain c where c: "Copy (limit_reads (nat (ContentLength r)) (held_reads b)) ws = Some c" "sd_bytes s = cp_bytes c"
    by (auto simp: sendBody_def Let_def split: option.splits)
  from copy_loop_prefix [OF c(1) [unfolded Copy_def]] c(2)
  have "prefix (sd_bytes s) (concat (map fst (limit_reads (nat (ContentLength r)) (held_reads b))))" by auto
  also have "prefix \<dots> b" using prefix_limit_reads [of "nat (ContentLength r)" "held_reads b"] by (simp add: held_reads_concat)
  finally show ?thesis .
qed (use assms in \<open>auto simp: sendBody_def\<close>)

lemma response_failed_retry: "fst (response_failed r p connID reused env s streamed err w st) = XRetry \<Longrightarrow> reused \<and> xe_received env = 0"
  by (auto simp: response_failed_def split: if_splits)

lemma relay_response_no_retry: "relay_response g cs ts env s streamed resp w st = Some (x, w', st') \<Longrightarrow> x \<noteq> XRetry"
  by (auto simp: relay_response_def Let_def split: option.splits if_splits)

lemma h3Exchange_retry:
  assumes "h3Exchange g r cs ts head reused mem reads trailers connID env w st = Some ((XRetry, sent, bk), w', st')"
  shows "reused \<and> bk = 0"
  using assms unfolding h3Exchange_def Let_def split_beta
  by (auto split: if_splits option.splits sum.splits dest!: relay_response_no_retry dest: response_failed_retry)

lemma h3Exchange_sent:
  assumes "h3Exchange g r cs ts head reused (Some b) reads [] connID env w st = Some ((x, sent, bk), w', st')"
    and "0 \<le> ContentLength r"
  shows "prefix sent (head @ b)"
proof -
  have s: "prefix (head @ sd_bytes s) (head @ b)" if "sendBody g (xe_late env) (held_reads b) (xe_writes env) r [] = Some s" for s
    using sendBody_held_prefix [OF that assms(2)] by simp
  have "prefix (take n head) (head @ b)" for n by (meson prefix_append take_is_prefix prefix_order.trans prefixI)
  with assms(1) s show ?thesis unfolding h3Exchange_def Let_def split_beta
    by (auto split: if_splits option.splits)
qed

lemma serve_loop_once:
  "serve_loop g e q rs host head mem reads trailers False sent ts w st = Some ((x, ls), w', st') \<Longrightarrow>
   x \<noteq> XRetry \<and> length ls \<le> 1 \<and> (\<forall>l \<in> set ls. \<not> xl_reused l) \<and>
   (\<forall>b. mem = Some b \<and> trailers = [] \<and> 0 \<le> ContentLength (hr_request q) \<longrightarrow> (\<forall>l \<in> set ls. prefix (xl_sent l) (head @ b)))"
  by (cases ts)
    (auto simp: kept_stream_def Let_def split: option.splits if_splits open_result.splits prod.splits
      dest!: h3Exchange_retry dest: h3Exchange_sent)

definition resent :: "bytes \<Rightarrow> exchange_log list \<Rightarrow> bool" where
  "resent msg ls \<longleftrightarrow> (\<exists>l1 l2. ls = [l1, l2] \<and> xl_reused l1 \<and> xl_received l1 = 0 \<and> \<not> xl_reused l2 \<and>
     prefix (xl_sent l1) msg \<and> prefix (xl_sent l2) msg)"

lemma serve_loop_resends:
  assumes r: "serve_loop g e q rs host head mem reads trailers reuse sent ts w st = Some ((x, ls), w', st')"
    and mem: "reuse \<Longrightarrow> mem = Some b \<and> trailers = [] \<and> 0 \<le> ContentLength (hr_request q)"
  shows "x \<noteq> XRetry \<and> (length ls \<le> 1 \<or> reuse \<and> resent (head @ b) ls)"
proof (cases reuse)
  case False
  with serve_loop_once [of g e q rs host head mem reads trailers sent ts w st x ls w' st'] r show ?thesis by auto
next
  case True
  note m = mem [OF True]
  from r obtain t ts1 where ts: "ts = t # ts1" by (cases ts) auto
  from r ts obtain kept st1 where tk: "kept_stream q rs host reuse t st = Some (kept, st1)" by (auto split: option.splits)
  from r ts tk obtain res w2 st2 where op: "turn_stream e q rs host head kept t w st1 = Some (res, w2, st2)" by (auto split: option.splits)
  show ?thesis
  proof (cases res)
    case (Opened s)
    let ?st2 = "if sent then st2 else on_state (HTTP3Request (rs_stats rs)) st2"
    from r ts tk op Opened obtain x1 sent1 bk w3 st3 where
      ex: "h3Exchange g (hr_request q) (hr_conn q) s head (kept \<noteq> None) mem reads trailers (hr_id q) (tr_exchange t) w2 ?st2 =
        Some ((x1, sent1, bk), w3, st3)"
      by (simp add: Let_def split: option.splits prod.splits if_splits)
    show ?thesis
    proof (cases "x1 = XRetry")
      case False
      with r ts tk op Opened ex show ?thesis by (auto simp: Let_def)
    next
      case True
      with r ts tk op Opened ex obtain ls1 where
        l: "serve_loop g e q rs host head mem reads trailers False True ts1 w3 st3 = Some ((x, ls1), w', st')"
        "ls = \<lparr>xl_reused = (kept \<noteq> None), xl_stream = s, xl_sent = sent1, xl_received = bk, xl_end = XRetry\<rparr> # ls1"
        by (auto simp: Let_def split: option.splits)
      note rest = serve_loop_once [OF l(1)] and first = h3Exchange_retry [OF ex [unfolded True]]
      from ex m have "prefix sent1 (head @ b)" by (auto dest: h3Exchange_sent)
      with rest first l(2) m \<open>reuse\<close> show ?thesis by (cases ls1) (auto simp: resent_def)
    qed
  qed (use r ts tk op in simp_all)
qed

lemma holdBody_Some:
  "holdBody bounded reads r trailers = Some (Inr (Some b)) \<Longrightarrow> trailers = [] \<and> 0 \<le> ContentLength r"
  by (auto simp: holdBody_def split: if_splits)

lemma idempotent_length [simp]: "idempotent (r\<lparr>ContentLength := n\<rparr>) = idempotent r"
  by (simp add: idempotent_def)


text \<open>C10. No stream of a request leaks. Whatever a request meets, its handler moves the pool of kept
  streams only by the pool's own steps, so each stream's slot and counts are exact throughout;
  and every stream the request used is, when it ends, closed or kept in the pool for the
  connection's next request.\<close>

theorem h3_request_settles_streams:
  assumes "h3_inv (es_h3 st)" and "\<forall>t \<in> set (he_tries env). others_run (oe_others (tr_open t))"
    and "serveHTTP3 g e q env w st = Some ((x, ls), w', st')"
  shows "h3_step\<^sup>*\<^sup>* (es_h3 st) (es_h3 st') \<and> h3_inv (es_h3 st') \<and> (\<forall>l \<in> set ls. settled (xl_stream l) st')"
  using serveHTTP3_run [OF assms] pool_run_inv [OF assms(1)] by blast

text \<open>A kept stream turns out to be closed when the head is written to it; the request goes again on a
  fresh one.\<close>

definition sample_rs :: routeState where
  "sample_rs = \<lparr>rs_fingerprints = [''f''], rs_label = ''f'', rs_balance = BalanceLeastConn, rs_stats = ''r'', rs_noHTTP3 = False\<rparr>"

definition sample_h3_edge :: edge where
  "sample_h3_edge = \<lparr>e_cfg = sample_edge, e_allowed = {''f''}, e_routes = Build [\<lparr>Pattern = ''h'', Value = sample_rs\<rparr>]\<rparr>"

definition sample_get :: http_request where
  "sample_get = \<lparr>Method = ''GET'', RequestURI = ''/'', URL_RequestURI = ''/'', rq_Host = ''h'', Header = [], ContentLength = 0,
     Trailer = [], Proto = ''HTTP/3.0''\<rparr>"

definition sample_open :: open_env where
  "sample_open = \<lparr>oe_order = [], oe_others = id, oe_ctxDone = False, oe_choice = 0, oe_gone = False, oe_rounds = sample_rounds,
     oe_dead = [], oe_write = (0, None), oe_id = 8\<rparr>"

definition sample_exchange :: exchange_env where
  "sample_exchange = \<lparr>xe_head = (0, Some ErrConnectionReset), xe_writes = [], xe_late = [], xe_phase1 = 2, xe_phase2 = 2, xe_waiting = False,
     xe_responses = [Inr \<lparr>StatusCode = 204, rp_Header = [], rp_ContentLength = 0, rp_Close = False, rp_Trailer = []\<rparr>], xe_received = 30,
     xe_out = [30], xe_gone = False, xe_body = [([], Some EOF)], xe_client = [], xe_buffered = 0, xe_stop = True, xe_idle = 4\<rparr>"

definition sample_try :: h3_try where
  "sample_try = \<lparr>tr_take = [(0, True)], tr_open = sample_open, tr_exchange = sample_exchange\<rparr>"

definition sample_h3_env :: h3_serve_env where
  "sample_h3_env = \<lparr>he_key = '''', he_accept = id, he_reads = [], he_peeked = True, he_sizes = [], he_bounded = True,
     he_tries = [sample_try, sample_try],
     he_ws = \<lparr>we_responses = [], we_gone = False, we_body = [], we_client = [], we_up = [], we_up_writes = [], we_down = [], we_out = []\<rparr>\<rparr>"

definition sample_req :: h3_req where
  "sample_req = \<lparr>hr_request = sample_get, hr_addr = ''h:1'', hr_id = ''c1'', hr_conn = Some 5\<rparr>"

definition sample_writer :: response_writer where
  "sample_writer = \<lparr>rw_header = [], rw_heads = [], rw_body = []\<rparr>"

lemma sample_served:
  "\<exists>l1 l2 w' st'. serveHTTP3 rfc_guts sample_h3_edge sample_req sample_h3_env sample_writer sample_open_sys = Some ((XDone, [l1, l2]), w', st') \<and>
     xl_reused l1 \<and> \<not> xl_reused l2"
proof -
  have "map_option (\<lambda>((x, ls), _). (x, map xl_reused ls)) (serveHTTP3 rfc_guts sample_h3_edge sample_req sample_h3_env sample_writer sample_open_sys) =
    Some (XDone, [True, False])" by code_simp
  then show ?thesis by auto
qed


theorem h3_request_settles_streams_witness:
  "\<exists>l1 l2 w' st'. serveHTTP3 rfc_guts sample_h3_edge sample_req sample_h3_env sample_writer sample_open_sys = Some ((XDone, [l1, l2]), w', st') \<and>
     settled (xl_stream l1) st' \<and> settled (xl_stream l2) st'"
proof -
  from sample_served obtain l1 l2 w' st' where
    s: "serveHTTP3 rfc_guts sample_h3_edge sample_req sample_h3_env sample_writer sample_open_sys = Some ((XDone, [l1, l2]), w', st')" by blast
  have inv: "h3_inv (es_h3 sample_open_sys)"
    using h3_pool.reach_inv [OF reach_sample_kept] by (simp add: sample_open_sys_def sample_edge_sys_def)
  have o: "\<forall>t \<in> set (he_tries sample_h3_env). others_run (oe_others (tr_open t))"
    by (simp add: sample_h3_env_def sample_try_def sample_open_def others_run_def)
  from h3_request_settles_streams [OF inv o s] s show ?thesis by auto
qed

end
