(* ===== verification/H3_Conn.thy ===== *)
theory H3_Conn
  imports H3_Serve
begin

text \<open>
  The connections HTTP/3 requests come on (\<^verbatim>\<open>internal/edge/http3.go\<close>): the handshake refused for
  a host kept off HTTP/3 (\<^verbatim>\<open>refuseNoHTTP3\<close>), the listener under the global cap
  (\<^verbatim>\<open>cappedListener\<close>), the timer that closes a connection without requests
  (\<^verbatim>\<open>connActivity\<close>), and how the server is stopped (\<^verbatim>\<open>serveHTTP3Until\<close>). The QUIC library is
  what it hands over: connections, their end, and the end of the server.
\<close>

subsection \<open>Handshakes and connections\<close>

definition refuseNoHTTP3 :: "edge \<Rightarrow> string \<Rightarrow> bool" where
  "refuseNoHTTP3 e serverName = (case Match (e_routes e) serverName of None \<Rightarrow> False | Some rs \<Rightarrow> rs_noHTTP3 rs)"

definition h3Idle :: "EdgeConfig \<Rightarrow> duration" where
  "h3Idle cfg = (if 0 < IdleTimeout (Ingress cfg) then IdleTimeout (Ingress cfg) else 30 * second)"

datatype quic_close = ShuttingDown | TooManyConnections

text \<open>What \<^verbatim>\<open>quic.Listener.Accept\<close> returns: an error, or a connection, with whether the edge drains or
  the server's context has ended by then.\<close>

datatype quic_accept = QuicError | QuicConn nat bool

text \<open>\<^verbatim>\<open>cappedListener.Accept\<close>: the connection handed to the server (\<open>Inl\<close> for the listener's error), those
  turned away, and the state; \<open>None\<close> while it waits for a connection.\<close>

fun capped_Accept :: "quic_accept list \<Rightarrow> edge_sys \<Rightarrow> ((unit + nat) \<times> (nat \<times> quic_close) list \<times> edge_sys) option" where
  "capped_Accept [] st = None"
| "capped_Accept (QuicError # as) st = Some (Inl (), [], st)"
| "capped_Accept (QuicConn c leaving # as) st =
     (if leaving then map_option (\<lambda>(r, cl, st). (r, (c, ShuttingDown) # cl, st)) (capped_Accept as st)
      else
        (let (ok, s) = tryAcquire (es_sem st)
         in if \<not> ok then map_option (\<lambda>(r, cl, st). (r, (c, TooManyConnections) # cl, st))
                          (capped_Accept as (on_state (State_Failure ReasonMaxConnections) st))
            else Some (Inr c, [], st\<lparr>es_sem := s\<rparr>)))"

text \<open>The end of a connection gives its slot back.\<close>

definition quic_gone :: "edge_sys \<Rightarrow> edge_sys" where
  "quic_gone st = release_global st"

text \<open>Every connection refused at the cap is counted; the one accepted takes exactly one slot, which its
  end gives back.\<close>

lemma capped_Accept_effect:
  "sem_ok (es_sem st) \<Longrightarrow> capped_Accept as st = Some (r, cl, st') \<Longrightarrow>
   unrouted (es_state st') ReasonMaxConnections = unrouted (es_state st) ReasonMaxConnections +
     int (length (filter (\<lambda>c. snd c = TooManyConnections) cl)) \<and>
   (if isl r then es_sem st' = es_sem st else es_sem (quic_gone st') = es_sem st) \<and> sem_ok (es_sem st')"
proof (induction as st arbitrary: cl rule: capped_Accept.induct)
  case (3 c leaving as st)
  have rel: "fst (tryAcquire (es_sem st)) \<Longrightarrow> release_slot (snd (tryAcquire (es_sem st))) = es_sem st"
    using tryAcquire_release [of "es_sem st" True "snd (tryAcquire (es_sem st))"] 3 by (simp add: prod_eq_iff)
  show ?case
  proof (cases "leaving \<or> fst (tryAcquire (es_sem st))")
    case True
    with 3 show ?thesis
      by (auto simp: split_beta Let_def quic_gone_def release_global_def split: if_splits option.splits
          simp: rel intro: sem_ok_tryAcquire)
  next
    case False
    have ok: "sem_ok (es_sem (on_state (State_Failure ReasonMaxConnections) st))" using 3 by (simp add: on_state_def)
    from False 3(2) [OF _ refl prod.collapse _ ok] 3(4) show ?thesis
      by (auto simp: split_beta Let_def on_state_def State_Failure_def reason_inc_def in_range_def split: option.splits)
  qed
qed auto

subsection \<open>Connections without a request (connActivity)\<close>

text \<open>
  \<open>ca_timer\<close> is when the timer is due, if it is armed; \<open>ca_fired\<close> counts the timer functions that
  have started and wait for the lock. \<open>ca_last\<close> is when the connection began or its last request
  ended, \<open>ca_closed\<close> whether the timer closed it, \<open>ca_gone\<close> whether it has ended at all.
\<close>

record connActivity =
  ca_active :: int
  ca_timer :: "instant option"
  ca_fired :: nat
  ca_closed :: bool
  ca_gone :: bool
  ca_now :: instant
  ca_last :: instant

definition newConnActivity :: "duration \<Rightarrow> connActivity" where
  "newConnActivity first = \<lparr>ca_active = 0, ca_timer = Some first, ca_fired = 0, ca_closed = False, ca_gone = False,
     ca_now = 0, ca_last = 0\<rparr>"

definition ca_begin :: "connActivity \<Rightarrow> connActivity" where
  "ca_begin a = a\<lparr>ca_active := ca_active a + 1, ca_timer := None\<rparr>"

definition ca_end :: "duration \<Rightarrow> connActivity \<Rightarrow> connActivity" where
  "ca_end lim a =
     (let a = a\<lparr>ca_active := ca_active a - 1, ca_last := ca_now a\<rparr>
      in if ca_active a = 0 \<and> \<not> ca_gone a then a\<lparr>ca_timer := Some (ca_now a + lim)\<rparr> else a)"

text \<open>The timer's function, under the lock.\<close>

definition ca_fire :: "connActivity \<Rightarrow> connActivity" where
  "ca_fire a =
     (let a = a\<lparr>ca_fired := ca_fired a - 1\<rparr>
      in if ca_active a = 0 then a\<lparr>ca_closed := True, ca_gone := True\<rparr> else a)"

inductive act_step :: "duration \<Rightarrow> connActivity \<Rightarrow> connActivity \<Rightarrow> bool" for lim :: duration where
  act_time: "0 \<le> d \<Longrightarrow> act_step lim a (a\<lparr>ca_now := ca_now a + d\<rparr>)"
| act_begin: "act_step lim a (ca_begin a)"
| act_end: "0 < ca_active a \<Longrightarrow> act_step lim a (ca_end lim a)"
| act_due: "ca_timer a = Some d \<Longrightarrow> d \<le> ca_now a \<Longrightarrow> act_step lim a (a\<lparr>ca_timer := None, ca_fired := ca_fired a + 1\<rparr>)"
| act_fire: "0 < ca_fired a \<Longrightarrow> act_step lim a (ca_fire a)"
| act_leave: "act_step lim a (a\<lparr>ca_gone := True\<rparr>)"
| act_stop: "ca_gone a \<Longrightarrow> act_step lim a (a\<lparr>ca_timer := None\<rparr>)"

inductive_cases act_stepE: "act_step lim a a'"

definition act_start :: "duration \<Rightarrow> connActivity \<Rightarrow> bool" where
  "act_start first a \<longleftrightarrow> a = newConnActivity first"

definition act_inv :: "duration \<Rightarrow> duration \<Rightarrow> connActivity \<Rightarrow> bool" where
  "act_inv first lim a \<longleftrightarrow> 0 \<le> ca_active a \<and> ca_last a \<le> ca_now a \<and> (ca_closed a \<longrightarrow> ca_gone a) \<and>
     (\<forall>d. ca_timer a = Some d \<longrightarrow> ca_active a = 0 \<and> d \<le> ca_last a + max first lim) \<and>
     (ca_active a = 0 \<and> \<not> ca_gone a \<longrightarrow> ca_timer a \<noteq> None \<or> 0 < ca_fired a)"

lemma act_inv_start: "act_start first a \<Longrightarrow> act_inv first lim a"
  by (simp add: act_start_def act_inv_def newConnActivity_def)

lemma act_inv_step: "act_inv first lim a \<Longrightarrow> act_step lim a a' \<Longrightarrow> act_inv first lim a'"
  by (erule act_stepE) (auto simp: act_inv_def ca_begin_def ca_end_def ca_fire_def Let_def)

interpretation conn_activity: inductive_invariant "act_start first" "act_step lim" "act_inv first lim"
  by unfold_locales (auto intro: act_inv_start act_inv_step)

text \<open>C31. A QUIC connection cannot be held without a request, and never loses one to the timer. However
  requests, time and the timer interleave, a connection with no request in progress that is still
  up has its timer armed, due at most the larger of the two limits after its start or its last
  request, or the timer's function already started; and the step in which the timer closes a
  connection never has a request in progress.\<close>

theorem h3_idle_timer:
  assumes "reach (act_start first) (act_step lim) a" and "act_step lim a a'"
  shows "(ca_active a = 0 \<and> \<not> ca_gone a \<longrightarrow> (\<exists>d. ca_timer a = Some d \<and> d \<le> ca_last a + max first lim) \<or> 0 < ca_fired a) \<and>
    (\<not> ca_closed a \<and> ca_closed a' \<longrightarrow> ca_active a = 0 \<and> ca_active a' = 0)"
proof
  note inv = conn_activity.reach_inv [OF assms(1)]
  then show "ca_active a = 0 \<and> \<not> ca_gone a \<longrightarrow> (\<exists>d. ca_timer a = Some d \<and> d \<le> ca_last a + max first lim) \<or> 0 < ca_fired a"
    by (auto simp: act_inv_def)
  show "\<not> ca_closed a \<and> ca_closed a' \<longrightarrow> ca_active a = 0 \<and> ca_active a' = 0"
    using assms(2) by (auto elim!: act_stepE simp: ca_begin_def ca_end_def ca_fire_def Let_def split: if_splits)
qed

lemma reach_due: "reach (act_start 10) (act_step 30) \<lparr>ca_active = 0, ca_timer = None, ca_fired = 1, ca_closed = False,
    ca_gone = False, ca_now = 10, ca_last = 0\<rparr>" (is "reach _ _ ?a")
proof -
  have "reach (act_start 10) (act_step 30) (newConnActivity 10)" by (rule reach_init) (simp add: act_start_def)
  then have "reach (act_start 10) (act_step 30) ((newConnActivity 10)\<lparr>ca_now := 10\<rparr>)"
    by (rule reach_step) (use act_time [of 10 30 "newConnActivity 10"] in \<open>simp add: newConnActivity_def\<close>)
  then show ?thesis
    by (rule reach_step) (use act_due [of "(newConnActivity 10)\<lparr>ca_now := 10\<rparr>" 10 30] in \<open>simp add: newConnActivity_def\<close>)
qed

theorem h3_idle_timer_witness:
  "\<exists>a a'. reach (act_start 10) (act_step 30) a \<and> act_step 30 a a' \<and> \<not> ca_closed a \<and> ca_closed a' \<and> ca_active a = 0"
proof -
  let ?a = "\<lparr>ca_active = 0, ca_timer = None, ca_fired = 1, ca_closed = False, ca_gone = False, ca_now = 10, ca_last = 0\<rparr>"
  have s: "act_step 30 ?a (ca_fire ?a)" by (rule act_fire) simp
  have c: "ca_closed (ca_fire ?a)" by (simp add: ca_fire_def)
  from h3_idle_timer [OF reach_due s] s c reach_due show ?thesis by (intro exI [of _ ?a] exI [of _ "ca_fire ?a"]) simp
qed

text \<open>A timer function that has started is not called off: when the timer is due just as a request
  begins, and the request ends before the function gets the lock, the function finds no request
  in progress and closes the connection at once, although the request has only just ended and
  the idle time has not begun to run.\<close>

theorem h3_idle_timer_stale:
  "\<exists>a a'. reach (act_start 10) (act_step 30) a \<and> act_step 30 a a' \<and> \<not> ca_closed a \<and> ca_closed a' \<and>
     ca_timer a = Some (ca_now a + 30) \<and> ca_last a = ca_now a"
proof -
  let ?b = "\<lparr>ca_active = 0, ca_timer = None, ca_fired = 1, ca_closed = False, ca_gone = False, ca_now = 10, ca_last = 0\<rparr>"
  let ?a = "ca_end 30 (ca_begin ?b)"
  have "reach (act_start 10) (act_step 30) (ca_begin ?b)" by (rule reach_step [OF reach_due act_begin])
  then have r: "reach (act_start 10) (act_step 30) ?a" by (rule reach_step) (rule act_end, simp add: ca_begin_def)
  have "act_step 30 ?a (ca_fire ?a)" by (rule act_fire) (simp add: ca_end_def ca_begin_def)
  with r show ?thesis by (intro exI [of _ ?a] exI [of _ "ca_fire ?a"]) (simp add: ca_end_def ca_begin_def ca_fire_def)
qed

subsection \<open>The end of the server (serveHTTP3Until)\<close>

text \<open>\<^verbatim>\<open>h3pool.closeAll\<close> on the edge's state.\<close>

definition close_all_kept :: "nat list \<Rightarrow> edge_sys \<Rightarrow> edge_sys" where
  "close_all_kept order st =
     (let l = range_pool order (es_h3 st)
      in foldl (\<lambda>st i. close_kept i st) (st\<lparr>es_h3 := h3_closeAll l (es_h3 st)\<rparr>) l)"

datatype until_action =
    ServeListener | ClosePacketConn | StartDraining | AcceptRest | CloseKept | Shutdown duration | CloseServer
  | CloseListener | CloseTransport | CloseDone

text \<open>\<open>failed\<close>: the server ended by itself before the edge was stopped. The deferred calls come last,
  in reverse order.\<close>

definition serveHTTP3Until :: "EdgeConfig \<Rightarrow> bool \<Rightarrow> nat list \<Rightarrow> edge_sys \<Rightarrow> until_action list \<times> edge_sys" where
  "serveHTTP3Until cfg failed order st =
     (if failed then
        ([ServeListener, ClosePacketConn, CloseListener, CloseTransport, CloseDone],
         on_state (SetHTTP3Listen '''') (st\<lparr>es_altSvc := ''''\<rparr>))
      else
        ([ServeListener, StartDraining, AcceptRest, CloseKept, Shutdown (Drain cfg), CloseServer, CloseListener, CloseTransport, CloseDone],
         close_all_kept order st))"

lemma close_all_kept_run:
  assumes inv: "h3_inv (es_h3 st)" shows "pool_run st (close_all_kept order st)"
proof -
  let ?h = "es_h3 st" and ?l = "range_pool order (es_h3 st)"
  let ?st1 = "st\<lparr>es_h3 := h3_closeAll ?l ?h\<rparr>"
  note r = range_pool_ok [OF inv, of order]
  have s1: "h3_step ?h (es_h3 ?st1)" using h3_step.edge_drains [OF r] by simp
  have sub: "set ?l \<subseteq> dom (idles ?h)" using r inv by (auto simp: h3_inv_def h3_core_def lists_ok_def)
  have "idles (es_h3 ?st1) = idles ?h" by (simp add: h3_closeAll_def removeWhereLocked_def Let_def idles_foldl_remove)
  moreover have "set ?l \<subseteq> doomed (es_h3 ?st1)"
    using sub by (auto simp: h3_closeAll_def removeWhereLocked_def Let_def split: option.splits)
  ultimately have "pool_run ?st1 (foldl (\<lambda>st i. close_kept i st) ?st1 ?l)"
    using r sub by (intro foldl_close_kept_run) auto
  with s1 show ?thesis by (simp add: close_all_kept_def Let_def converse_rtranclp_into_rtranclp)
qed

lemma foldl_close_kept_pool:
  "pall (es_h3 (foldl (\<lambda>st i. close_kept i st) st l)) = pall (es_h3 st) \<and> pclosed (es_h3 (foldl (\<lambda>st i. close_kept i st) st l)) = pclosed (es_h3 st)"
proof (induction l arbitrary: st)
  case (Cons i l)
  have "pall (es_h3 (close_kept i st)) = pall (es_h3 st) \<and> pclosed (es_h3 (close_kept i st)) = pclosed (es_h3 st)"
    by (auto simp: close_kept_def Let_def split: option.splits)
  with Cons show ?case by simp
qed simp

text \<open>Stopping the edge: every kept stream is closed, by the pool's own steps, and none is kept from
  then on. A server that fails by itself is no longer advertised on any route.\<close>

lemma serveHTTP3Until_stops:
  assumes inv: "h3_inv (es_h3 st)" and r: "serveHTTP3Until cfg False order st = (acts, st')"
    and later: "h3_step\<^sup>*\<^sup>* (es_h3 st') h"
  shows "pool_run st st' \<and> pall h = {}"
proof -
  from r have st': "st' = close_all_kept order st" by (simp add: serveHTTP3Until_def)
  with close_all_kept_run [OF inv] have run: "pool_run st st'" by simp
  have "pclosed (es_h3 st')" unfolding st'
    by (simp add: close_all_kept_def Let_def foldl_close_kept_pool h3_closeAll_def pclosed_removeWhere)
  with later have "pclosed h" by (induction rule: rtranclp_induct) (auto intro: pclosed_stable)
  moreover have "h3_inv h" using h3_pool.steps_inv [OF later pool_run_inv [OF inv run]] .
  ultimately show ?thesis using run by (auto simp: h3_inv_def closed_ok_def)
qed

lemma serveHTTP3Until_unadvertised:
  "altSvcFor e rs (snd (serveHTTP3Until cfg True order st)) \<in> {'''', ''clear''}"
  by (simp add: serveHTTP3Until_def altSvcFor_def on_state_def)

end
