(* ===== verification/H3_Start.thy ===== *)
theory H3_Start
  imports H3_Conn
begin

text \<open>
  Setting up HTTP/3 (edge.go, \<^verbatim>\<open>publicCert\<close> and \<^verbatim>\<open>startHTTP3\<close>; http3.go, \<^verbatim>\<open>newHTTP3\<close> and \<^verbatim>\<open>resetKey\<close>): the
  certificate shared with the TCP ingress, the limits of QUIC connections and the key of stateless resets. The
  certificate, its private key and the keyed hash are arguments.
\<close>

subsection \<open>The public certificate\<close>

text \<open>\<^verbatim>\<open>sync.Once\<close>: what the first call got, once there was one.\<close>

type_synonym 'c once = "(string + 'c) option"

definition publicCert :: "(string + 'c) \<Rightarrow> 'c once \<Rightarrow> (string + 'c) \<times> 'c once" where
  "publicCert load cell = (case cell of
      Some r \<Rightarrow> (r, cell)
    | None \<Rightarrow> (let r = map_sum ((@) ''load public cert: '') id load in (r, Some r)))"

text \<open>However often it is asked for and whatever the files hold by then, TCP and HTTP/3 get one certificate.\<close>

lemma publicCert_once: "publicCert load cell = (r, cell') \<Longrightarrow> publicCert load' cell' = (r, cell')"
  by (auto simp: publicCert_def Let_def split: option.splits)

subsection \<open>The listener (newHTTP3)\<close>

definition defaultHTTP3Idle :: duration where
  "defaultHTTP3Idle = 30 * second"

definition maxStreamsPerConn :: int where
  "maxStreamsPerConn = 100"

record quic_config =
  HandshakeIdleTimeout :: duration
  MaxIdleTimeout :: duration
  KeepAlivePeriod :: duration
  MaxIncomingStreams :: int

definition resetKey :: "('c \<Rightarrow> bytes option) \<Rightarrow> (bytes \<Rightarrow> bytes \<Rightarrow> bytes) \<Rightarrow> 'c \<Rightarrow> bytes option" where
  "resetKey MarshalKey hmac cert = map_option (\<lambda>der. take 32 (hmac der ''coen quic stateless reset key'')) (MarshalKey cert)"

record h3_server =
  hs_quic :: quic_config
  hs_resetKey :: "bytes option"
  hs_maxHeader :: nat
  hs_first :: duration  \<comment> \<open>how long a connection may take to its first request\<close>
  hs_idle :: duration  \<comment> \<open>and to the next one\<close>

definition http3_idle :: "EdgeConfig \<Rightarrow> duration" where
  "http3_idle cfg = (if IdleTimeout (Ingress cfg) \<le> 0 then defaultHTTP3Idle else IdleTimeout (Ingress cfg))"

text \<open>\<^verbatim>\<open>newHTTP3\<close>, given the listener's error, if it has one; an error closes the transport.\<close>

definition newHTTP3 :: "EdgeConfig \<Rightarrow> bytes option \<Rightarrow> string option \<Rightarrow> (string + h3_server) \<times> bool" where
  "newHTTP3 cfg key listen_err =
     (let first = readHeaderDeadline (ReadHeaderTimeout (Ingress cfg));
          quic = \<lparr>HandshakeIdleTimeout = first, MaxIdleTimeout = defaultHTTP3Idle, KeepAlivePeriod = defaultHTTP3Idle div 3,
            MaxIncomingStreams = maxStreamsPerConn\<rparr>
      in case listen_err of
           Some e \<Rightarrow> (Inl e, True)
         | None \<Rightarrow> (Inr \<lparr>hs_quic = quic, hs_resetKey = key, hs_maxHeader = maxHeaderBytes, hs_first = first, hs_idle = http3_idle cfg\<rparr>, False))"

text \<open>The state of a new connection (\<^verbatim>\<open>ConnContext\<close>): its pool and its timer.\<close>

definition conn_context :: "h3_server \<Rightarrow> connStreams \<times> connActivity" where
  "conn_context srv = (newConn, newConnActivity (hs_first srv))"

definition startHTTP3 :: "EdgeConfig \<Rightarrow> (string + 'c) \<Rightarrow> 'c once \<Rightarrow> ('c \<Rightarrow> bytes option) \<Rightarrow> string option \<Rightarrow> string \<Rightarrow> edge_sys \<Rightarrow>
    (string + h3_server) \<times> 'c once \<times> edge_sys" where
  "startHTTP3 cfg load cell key listen_err local_addr st =
     (let (cert, cell') = publicCert load cell
      in case cert of
           Inl e \<Rightarrow> (Inl e, cell', st)
         | Inr c \<Rightarrow> (case fst (newHTTP3 cfg (key c) listen_err) of
               Inl e \<Rightarrow> (Inl (''http3 listen: '' @ e), cell', st)
             | Inr srv \<Rightarrow> (Inr srv, cell', on_state (SetHTTP3Listen local_addr) st)))"

text \<open>The limits are positive whatever the configuration says, the keep-alives are sent often enough that the
  transport does not end a connection whose peer answers, and so a connection without requests is ended by its own
  timer, at the latest the configured time after it began or its last request ended.\<close>

lemma newHTTP3_limits:
  assumes "newHTTP3 cfg key e = (Inr srv, closed)"
  shows "0 < hs_first srv" "0 < hs_idle srv" "0 < KeepAlivePeriod (hs_quic srv)"
    "3 * KeepAlivePeriod (hs_quic srv) \<le> MaxIdleTimeout (hs_quic srv)" "0 < HandshakeIdleTimeout (hs_quic srv)"
proof -
  have r: "0 < readHeaderDeadline (ReadHeaderTimeout (Ingress cfg))"
    by (simp add: readHeaderDeadline_def defaultReadHeaderTimeout_def second_def millisecond_def)
  show "0 < hs_first srv" "0 < HandshakeIdleTimeout (hs_quic srv)"
    using assms r by (auto simp: newHTTP3_def Let_def split: option.splits)
  show "0 < hs_idle srv" "0 < KeepAlivePeriod (hs_quic srv)" "3 * KeepAlivePeriod (hs_quic srv) \<le> MaxIdleTimeout (hs_quic srv)"
    using assms by (auto simp: newHTTP3_def Let_def http3_idle_def defaultHTTP3Idle_def second_def millisecond_def split: option.splits)
qed

lemma h3_connection_timed:
  assumes "reach (\<lambda>a. a = snd (conn_context srv)) (act_step (hs_idle srv)) a"
    and "ca_active a = 0" and "\<not> ca_gone a" and "ca_fired a = 0"
  shows "\<exists>d. ca_timer a = Some d \<and> d \<le> ca_last a + max (hs_first srv) (hs_idle srv)"
proof -
  have "(\<lambda>a. a = snd (conn_context srv)) = act_start (hs_first srv)" by (simp add: act_start_def conn_context_def fun_eq_iff)
  then have "act_inv (hs_first srv) (hs_idle srv) a" using conn_activity.reach_inv assms(1) by metis
  then show ?thesis using assms(2-4) by (auto simp: act_inv_def)
qed

text \<open>The address HTTP/3 is reported on is set exactly when it was started, so that \<^verbatim>\<open>coen doctor\<close> takes a port for
  the edge's own only then.\<close>

lemma startHTTP3_reported:
  assumes "startHTTP3 cfg load cell key e addr st = (r, cell', st')"
  shows "http3Listen (es_state st') = (if isl r then http3Listen (es_state st) else addr)"
proof -
  obtain cert cell1 where c: "publicCert load cell = (cert, cell1)" by force
  show ?thesis
    using assms by (cases cert; cases e) (auto simp: startHTTP3_def c newHTTP3_def Let_def on_state_def SetHTTP3Listen_def)
qed

end
