(* ===== verification/Metrics.thy ===== *)
theory Metrics
  imports Obs Config
begin

text \<open>
  Package \<^verbatim>\<open>internal/metrics\<close>: the Prometheus text exposition of a daemon's counters
  (expfmt.go), the families collected from a \<^verbatim>\<open>State\<close> (collect.go), the handler and server
  (server.go), and the probe that recognises a coen daemon from its metrics (probe.go), with
  \<^verbatim>\<open>State.Detail\<close> of \<^verbatim>\<open>internal/obs\<close>. A reference reader of the format states what
  the writer promises: every sample is read back, whatever bytes its labels hold.
\<close>

subsection \<open>The metrics view of a state (obs/routes.go)\<close>

record Detail =
  dSnapshot :: Snapshot
  dRoutes :: "RouteSnapshot list"
  dUnrouted :: reasonCounts
  dHeaderTimeouts :: int
  dDraining :: bool
  dExpected :: "fingerprint list"
  dAgentStreams :: "fingerprint \<Rightarrow> int"  \<comment> \<open>0 for a missing key\<close>
  dStartTime :: instant

definition State_Detail :: "agent_id list \<Rightarrow> State \<Rightarrow> Detail" where
  "State_Detail order s =
     (let rts = routeSnapshots s
      in \<lparr>dSnapshot = snapshot order rts s, dRoutes = rts, dUnrouted = unrouted s, dHeaderTimeouts = headerTimeouts s,
          dDraining = draining s, dExpected = sorted_list_of_set (expected s),
          dAgentStreams = (\<lambda>fp. case agentTotals s fp of None \<Rightarrow> 0 | Some n \<Rightarrow> n), dStartTime = started s\<rparr>)"

text \<open>The zero \<^verbatim>\<open>time.Time\<close>, 1 January of year 1, and \<^verbatim>\<open>Time.Unix\<close>.\<close>

definition zeroTime :: instant where
  "zeroTime = - 62135596800 * second"

definition Unix :: "instant \<Rightarrow> int" where
  "Unix t = t div second"

subsection \<open>64-bit floats\<close>

text \<open>A \<^verbatim>\<open>float64\<close>: \<open>Finite m e\<close> is \<open>m\<close> times 2 to the \<open>e\<close>. The conversion from an integer rounds to
  53 bits, to even in the middle.\<close>

datatype float64 = NaN | PosInf | NegInf | Finite int int

fun bit_length :: "nat \<Rightarrow> nat" where
  "bit_length n = (if n = 0 then 0 else Suc (bit_length (n div 2)))"

declare bit_length.simps [simp del]

definition round53 :: "nat \<Rightarrow> nat" where
  "round53 n =
     (if bit_length n \<le> 53 then n
      else (let k = bit_length n - 53; q = n div 2 ^ k; r = n mod 2 ^ k; half = 2 ^ (k - 1);
                q' = (if half < r \<or> r = half \<and> odd q then q + 1 else q)
            in q' * 2 ^ k))"

definition float64_of_int :: "int \<Rightarrow> float64" where
  "float64_of_int n = Finite (sgn n * int (round53 (nat \<bar>n\<bar>))) 0"

text \<open>The integer a float equals, if it is one.\<close>

definition whole :: "float64 \<Rightarrow> int option" where
  "whole v = (case v of
      Finite m e \<Rightarrow>
        if 0 \<le> e then Some (m * 2 ^ nat e)
        else if m mod 2 ^ nat (- e) = 0 then Some (m div 2 ^ nat (- e))
        else None
    | _ \<Rightarrow> None)"

subsection \<open>The text exposition format (expfmt.go)\<close>

datatype metric_type = Counter | Gauge

definition type_String :: "metric_type \<Rightarrow> string" where
  "type_String t = (case t of Counter \<Rightarrow> ''counter'' | Gauge \<Rightarrow> ''gauge'')"

type_synonym Label = "string \<times> string"  \<comment> \<open>name and value\<close>

record Sample =
  Labels :: "Label list"
  Value :: float64

record Family =
  fName :: string
  fHelp :: string
  fType :: metric_type
  Samples :: "Sample list"

abbreviation QUOTE :: char where "QUOTE \<equiv> CHR 0x22"
abbreviation BACKSLASH :: char where "BACKSLASH \<equiv> CHR 0x5C"

definition escape_label_char :: "char \<Rightarrow> string" where
  "escape_label_char c =
     (if c = BACKSLASH then [BACKSLASH, BACKSLASH] else if c = LF then [BACKSLASH, CHR ''n'']
      else if c = QUOTE then [BACKSLASH, QUOTE] else [c])"

definition escapeLabel :: "string \<Rightarrow> string" where
  "escapeLabel s = concat (map escape_label_char s)"

definition escape_help_char :: "char \<Rightarrow> string" where
  "escape_help_char c =
     (if c = BACKSLASH then [BACKSLASH, BACKSLASH] else if c = LF then [BACKSLASH, CHR ''n''] else [c])"

definition escapeHelp :: "string \<Rightarrow> string" where
  "escapeHelp s = concat (map escape_help_char s)"

definition label_text :: "Label \<Rightarrow> string" where
  "label_text l = fst l @ [CHR ''='', QUOTE] @ escapeLabel (snd l) @ [QUOTE]"

text \<open>The loop of \<^verbatim>\<open>formatLabels\<close>: \<open>n\<close> labels written so far.\<close>

fun formatLabels_loop :: "nat \<Rightarrow> Label list \<Rightarrow> string" where
  "formatLabels_loop n [] = (if 0 < n then ''}'' else [])"
| "formatLabels_loop n (l # ls) =
     (if snd l = [] then formatLabels_loop n ls
      else (if n = 0 then CHR ''{'' else CHR '','') # label_text l @ formatLabels_loop (Suc n) ls)"

definition formatLabels :: "Label list \<Rightarrow> string" where
  "formatLabels ls = formatLabels_loop 0 ls"

definition FormatInt :: "int \<Rightarrow> string" where
  "FormatInt n = (if n < 0 then CHR ''-'' # show_nat (nat (- n)) else show_nat (nat n))"

text \<open>\<^verbatim>\<open>formatValue\<close>; \<^verbatim>\<open>strconv.FormatFloat\<close>, which prints what is not a whole number below
  2 to the 53, is an argument.\<close>

definition formatValue :: "(float64 \<Rightarrow> string) \<Rightarrow> float64 \<Rightarrow> string" where
  "formatValue FormatFloat v = (case v of
      NaN \<Rightarrow> ''NaN''
    | PosInf \<Rightarrow> ''+Inf''
    | NegInf \<Rightarrow> ''-Inf''
    | Finite _ _ \<Rightarrow> (case whole v of
          Some n \<Rightarrow> if \<bar>n\<bar> < 2 ^ 53 then FormatInt n else FormatFloat v
        | None \<Rightarrow> FormatFloat v))"

definition sample_line :: "(float64 \<Rightarrow> string) \<Rightarrow> Family \<Rightarrow> Sample \<Rightarrow> string" where
  "sample_line FormatFloat f s = fName f @ formatLabels (Labels s) @ [SP] @ formatValue FormatFloat (Value s)"

definition encode_family :: "(float64 \<Rightarrow> string) \<Rightarrow> Family \<Rightarrow> bytes" where
  "encode_family FormatFloat f =
     (if Samples f = [] then []
      else ''# HELP '' @ fName f @ [SP] @ escapeHelp (fHelp f) @ [LF] @
           ''# TYPE '' @ fName f @ [SP] @ type_String (fType f) @ [LF] @
           concat (sort (map (\<lambda>s. sample_line FormatFloat f s @ [LF]) (Samples f))))"

definition Encode :: "(float64 \<Rightarrow> string) \<Rightarrow> Family list \<Rightarrow> bytes" where
  "Encode FormatFloat families = concat (map (encode_family FormatFloat) (sort_key fName families))"

subsection \<open>Collecting the families (collect.go)\<close>

definition boolf :: "bool \<Rightarrow> float64" where
  "boolf b = (if b then Finite 1 0 else Finite 0 0)"

text \<open>The help texts.\<close>

definition help_build_info :: string where
  "help_build_info = ''Build information; always 1.''"

definition help_streams_peak :: string where
  "help_streams_peak = ''Highest number of concurrent streams since start.''"

definition help_draining :: string where
  "help_draining = ''1 once shutdown has started and in-flight streams are draining, else 0.''"

definition help_process_start_time_seconds :: string where
  "help_process_start_time_seconds = ''Start time of the daemon since the Unix epoch, in seconds.''"

definition help_streams_active :: string where
  "help_streams_active = ''Streams currently open, by route.''"

definition help_streams_total :: string where
  "help_streams_total = ''Streams opened since start, by route.''"

definition help_streams_http3_total :: string where
  "help_streams_http3_total = ''Streams opened since start for HTTP/3 requests, by route (included in coen_streams_total). A stream carries one or more of a connection's requests in turn.''"

definition help_ingress_agent_waits_total :: string where
  "help_ingress_agent_waits_total = ''Requests that found no agent to take them and waited for one (agent_wait), by route; those still without one when the wait ran out are also counted as no_agent in coen_ingress_rejected_total.''"

definition help_http3_requests_total :: string where
  "help_http3_requests_total = ''HTTP/3 requests sent to the service since start, by route, over the streams counted in coen_streams_http3_total.''"

definition help_stream_bytes_total :: string where
  "help_stream_bytes_total = ''Bytes carried by streams as they flow, by route and direction (in: client to backend, out: backend to client).''"

definition help_ingress_header_timeouts_total :: string where
  "help_ingress_header_timeouts_total = ''Ingress connections closed at read_header_timeout without sending any request byte, such as idle browser preconnects. Not rejected requests.''"

definition help_tunnel_up :: string where
  "help_tunnel_up = ''Whether the tunnel to the edge is established (1) or not (0).''"

definition help_tunnel_reconnects_total :: string where
  "help_tunnel_reconnects_total = ''Reconnect attempts to the edge since start.''"

definition help_agent_connected :: string where
  "help_agent_connected = ''Whether an agent is connected (1) or not (0), by certificate fingerprint; a draining agent still counts as connected (see coen_agent_sessions for agents taking new traffic).''"

definition help_agent_sessions :: string where
  "help_agent_sessions = ''Tunnel sessions taking new traffic per agent fingerprint (draining ones excluded); more than 1 only with allow_shared_cert.''"

definition help_agent_streams_active :: string where
  "help_agent_streams_active = ''Streams open or being set up right now, by agent fingerprint (summed over its sessions); the load least_conn balances on.''"

definition help_agent_streams_total :: string where
  "help_agent_streams_total = ''Streams opened since start, by agent fingerprint; shows how load is balanced.''"

definition help_handshakes_edge :: string where
  "help_handshakes_edge = ''Incoming agent tunnel connections, by result: ok (authenticated and registered), fail (authenticated but not allowed by any route, or not answering the readiness ping), duplicate (authenticated but refused because a live session owns the fingerprint), capped (refused at the per-certificate session cap), rejected (refused at the TLS handshake).''"

definition help_handshakes_agent :: string where
  "help_handshakes_agent = ''Attempts to connect to the edge, by result: ok (connected), fail (the dial, the TLS handshake, or the edge pin check failed).''"

definition help_handshakes_shared :: string where
  "help_handshakes_shared = ''Tunnel connections, by result.''"

definition help_ingress_rejected_total :: string where
  "help_ingress_rejected_total = ''Ingress requests the edge could not forward, by route and reason.''"

definition help_stream_errors_total :: string where
  "help_stream_errors_total = ''Streams the agent could not serve, by route and reason.''"

definition family :: "string \<Rightarrow> string \<Rightarrow> metric_type \<Rightarrow> Sample list \<Rightarrow> Family" where
  "family n h t ss = \<lparr>fName = n, fHelp = h, fType = t, Samples = ss\<rparr>"

definition counted :: "Label list \<Rightarrow> int \<Rightarrow> Sample" where
  "counted ls n = \<lparr>Labels = ls, Value = float64_of_int n\<rparr>"

text \<open>\<^verbatim>\<open>reported\<close>: the listed reasons and every other non-zero one, in the order of the array of
  counters.\<close>

definition allReasons :: "Reason list" where
  "allReasons = [ReasonMaxConnections, ReasonBadRequest, ReasonNoRoute, ReasonRouteMaxConnections, ReasonNoAgent,
     ReasonStreamError, ReasonPreambleError, ReasonDialError, ReasonResponseTimeout, ReasonBadResponse, ReasonHTTP3Off]"

definition reported :: "Reason list \<Rightarrow> reasonCounts \<Rightarrow> Reason list" where
  "reported listed counts = listed @ filter (\<lambda>r. counts r \<noteq> 0 \<and> r \<notin> set listed) allReasons"

definition failure_samples :: "Label list \<Rightarrow> Reason list \<Rightarrow> reasonCounts \<Rightarrow> Sample list" where
  "failure_samples extra listed counts =
     map (\<lambda>r. counted ((''reason'', Reason_String r) # extra) (reason_Get counts r)) (reported listed counts)"

definition failures :: "string \<Rightarrow> string \<Rightarrow> Detail \<Rightarrow> Reason list \<Rightarrow> Reason list \<Rightarrow> Family" where
  "failures name help d unroutedReasons routedReasons = family name help Counter
     (failure_samples [] unroutedReasons (dUnrouted d) @
      concat (map (\<lambda>rt. failure_samples [(''route'', sPattern rt)] routedReasons (sFailures rt)) (dRoutes d)))"

text \<open>The three maps of \<^verbatim>\<open>edgeAgents\<close>, filled in one pass over the sessions.\<close>

definition note_agent :: "(fingerprint \<Rightarrow> bool) \<times> (fingerprint \<Rightarrow> int) \<times> (fingerprint \<Rightarrow> int) \<Rightarrow> AgentInfo \<Rightarrow>
    (fingerprint \<Rightarrow> bool) \<times> (fingerprint \<Rightarrow> int) \<times> (fingerprint \<Rightarrow> int)" where
  "note_agent m a = (case m of (connectedFP, sess, act) \<Rightarrow>
     (connectedFP(i_fp a := True),
      (if i_draining a then sess else sess(i_fp a := sess (i_fp a) + 1)),
      act(i_fp a := act (i_fp a) + i_active a)))"

definition edgeAgents :: "Detail \<Rightarrow> Family list" where
  "edgeAgents d =
     (let (connectedFP, sess, act) = foldl note_agent ((\<lambda>_. False), (\<lambda>_. 0), (\<lambda>_. 0)) (snAgents (dSnapshot d));
          l = (\<lambda>fp. [(''fingerprint'', fp)])
      in [family ''coen_agent_connected'' help_agent_connected Gauge
            (map (\<lambda>fp. \<lparr>Labels = l fp, Value = boolf (connectedFP fp)\<rparr>) (dExpected d)),
          family ''coen_agent_sessions'' help_agent_sessions Gauge (map (\<lambda>fp. counted (l fp) (sess fp)) (dExpected d)),
          family ''coen_agent_streams_active'' help_agent_streams_active Gauge
            (map (\<lambda>fp. counted (l fp) (act fp)) (dExpected d)),
          family ''coen_agent_streams_total'' help_agent_streams_total Counter
            (map (\<lambda>fp. counted (l fp) (dAgentStreams d fp)) (dExpected d))])"

definition per_route :: "(RouteSnapshot \<Rightarrow> int) \<Rightarrow> Detail \<Rightarrow> Sample list" where
  "per_route f d = map (\<lambda>r. counted [(''route'', sPattern r)] (f r)) (dRoutes d)"

definition route_bytes :: "Detail \<Rightarrow> Sample list" where
  "route_bytes d = concat (map (\<lambda>r.
     [counted [(''direction'', ''in''), (''route'', sPattern r)] (sBytesIn r),
      counted [(''direction'', ''out''), (''route'', sPattern r)] (sBytesOut r)]) (dRoutes d))"

definition shared_families :: "Detail \<Rightarrow> string \<Rightarrow> Family list" where
  "shared_families d version =
     [family ''coen_build_info'' help_build_info Gauge
        [\<lparr>Labels = [(''role'', snRole (dSnapshot d)), (''version'', version)], Value = Finite 1 0\<rparr>],
      family ''coen_streams_peak'' help_streams_peak Gauge [counted [] (snMax (dSnapshot d))],
      family ''coen_draining'' help_draining Gauge [\<lparr>Labels = [], Value = boolf (dDraining d)\<rparr>]] @
     (if dStartTime d \<noteq> zeroTime
      then [family ''coen_process_start_time_seconds'' help_process_start_time_seconds Gauge [counted [] (Unix (dStartTime d))]]
      else []) @
     [family ''coen_streams_active'' help_streams_active Gauge (per_route sActive d),
      family ''coen_streams_total'' help_streams_total Counter (per_route sTotal d),
      family ''coen_stream_bytes_total'' help_stream_bytes_total Counter (route_bytes d)] @
     (if snRole (dSnapshot d) = ''edge''
      then [family ''coen_streams_http3_total'' help_streams_http3_total Counter (per_route sTotalH3 d),
            family ''coen_http3_requests_total'' help_http3_requests_total Counter (per_route sReqH3 d),
            family ''coen_ingress_agent_waits_total'' help_ingress_agent_waits_total Counter (per_route sWaits d)]
      else [])"

definition handshake_family :: "string \<Rightarrow> Detail \<Rightarrow> Sample list \<Rightarrow> Family" where
  "handshake_family help d extra = family ''coen_tunnel_handshakes_total'' help Counter
     ([counted [(''result'', ''ok'')] (snOK (dSnapshot d)), counted [(''result'', ''fail'')] (snFail (dSnapshot d))] @ extra)"

definition Collect_metrics :: "Detail \<Rightarrow> string \<Rightarrow> Family list" where
  "Collect_metrics d version = shared_families d version @
     (if snRole (dSnapshot d) = ''edge'' then
        edgeAgents d @
        [handshake_family help_handshakes_edge d
           [counted [(''result'', ''rejected'')] (snRejected (dSnapshot d)),
            counted [(''result'', ''duplicate'')] (snDup (dSnapshot d)),
            counted [(''result'', ''capped'')] (snCapped (dSnapshot d))],
         family ''coen_ingress_header_timeouts_total'' help_ingress_header_timeouts_total Counter
           [counted [] (dHeaderTimeouts d)],
         failures ''coen_ingress_rejected_total'' help_ingress_rejected_total d EdgeUnroutedReasons EdgeRouteReasons]
      else if snRole (dSnapshot d) = ''agent'' then
        [handshake_family help_handshakes_agent d [],
         family ''coen_tunnel_up'' help_tunnel_up Gauge [\<lparr>Labels = [], Value = boolf (snConnected (dSnapshot d))\<rparr>],
         family ''coen_tunnel_reconnects_total'' help_tunnel_reconnects_total Counter [counted [] (snReconnects (dSnapshot d))],
         failures ''coen_stream_errors_total'' help_stream_errors_total d AgentUnroutedReasons AgentRouteReasons]
      else [handshake_family help_handshakes_shared d []])"

text \<open>Reading a text exposition: \<^verbatim>\<open>strings.CutPrefix\<close> and \<^verbatim>\<open>strings.Trim\<close> of one character, then
  the two scans over the lines of a body.\<close>

definition CutPrefix :: "string \<Rightarrow> string \<Rightarrow> string option" where
  "CutPrefix s p = (if HasPrefix s p then Some (drop (length p) s) else None)"

definition TrimChar :: "string \<Rightarrow> char \<Rightarrow> string" where
  "TrimChar s c = rev (dropWhile (\<lambda>x. x = c) (rev (dropWhile (\<lambda>x. x = c) s)))"

fun Draining_loop :: "string list \<Rightarrow> bool" where
  "Draining_loop [] = False"
| "Draining_loop (line # rest) = (case CutPrefix line ''coen_draining '' of
      Some v \<Rightarrow> TrimSpace v = ''1''
    | None \<Rightarrow> Draining_loop rest)"

definition Draining :: "string \<Rightarrow> bool" where
  "Draining body = Draining_loop (Split body [LF])"

fun role_label :: "string list \<Rightarrow> string option" where
  "role_label [] = None"
| "role_label (kv # kvs) =
     (case Cut kv ''='' of (name, val, _) \<Rightarrow> if name = ''role'' then Some (TrimChar val QUOTE) else role_label kvs)"

fun BuildInfoRole_loop :: "string list \<Rightarrow> string option" where
  "BuildInfoRole_loop [] = None"
| "BuildInfoRole_loop (line # rest) = (case CutPrefix line ''coen_build_info{'' of
      None \<Rightarrow> BuildInfoRole_loop rest
    | Some r \<Rightarrow> (case Cut r ''}'' of (labels, _, found) \<Rightarrow> if found then role_label (Split labels '','') else None))"

definition BuildInfoRole :: "string \<Rightarrow> string option" where
  "BuildInfoRole body = BuildInfoRole_loop (Split body [LF])"

subsection \<open>Probing (probe.go)\<close>

record Holder =
  h_Role :: string
  h_Draining :: bool

text \<open>What a GET of the metrics got: no response, or a status, the body and whether reading it
  failed.\<close>

type_synonym probe_response = "(nat \<times> bytes \<times> bool) option"

definition probe_limit :: nat where
  "probe_limit = 2 ^ 20"

definition probeOne :: "probe_response \<Rightarrow> Holder option" where
  "probeOne r = (case r of
      None \<Rightarrow> None
    | Some (status, full, failed) \<Rightarrow>
        (let body = take probe_limit full
         in if failed \<or> status \<noteq> 200 then None
            else (case BuildInfoRole body of
                None \<Rightarrow> None
              | Some rl \<Rightarrow> Some \<lparr>h_Role = rl, h_Draining = Draining body\<rparr>)))"

text \<open>\<^verbatim>\<open>Probe\<close>: what each candidate host answered, and the order the answers came in.\<close>

definition Probe :: "services \<Rightarrow> (string \<Rightarrow> int \<Rightarrow> probe_response) \<Rightarrow> (string list \<Rightarrow> string list) \<Rightarrow> string \<Rightarrow> Holder option" where
  "Probe services GET arrival addr = (case SplitListen services addr of
      None \<Rightarrow> None
    | Some (host, port) \<Rightarrow>
        (case List.find (\<lambda>a. a \<noteq> None) (map (\<lambda>h. probeOne (GET h port)) (arrival (LoopbackHosts host))) of
           None \<Rightarrow> None | Some a \<Rightarrow> a))"

definition ServesRole :: "services \<Rightarrow> (string \<Rightarrow> int \<Rightarrow> probe_response) \<Rightarrow> (string list \<Rightarrow> string list) \<Rightarrow> string \<Rightarrow> string \<Rightarrow> bool" where
  "ServesRole services GET arrival addr rl = (case Probe services GET arrival addr of None \<Rightarrow> False | Some h \<Rightarrow> h_Role h = rl)"

subsection \<open>Serving (server.go)\<close>

definition ContentType :: string where
  "ContentType = ''text/plain; version=0.0.4; charset=utf-8''"

text \<open>The handler of \<^verbatim>\<open>GET /metrics\<close>: the headers set and the body written.\<close>

definition Handler :: "(float64 \<Rightarrow> string) \<Rightarrow> agent_id list \<Rightarrow> State \<Rightarrow> string \<Rightarrow> (string \<times> string) list \<times> bytes" where
  "Handler FormatFloat order s version =
     (let body = Encode FormatFloat (Collect_metrics (State_Detail order s) version)
      in ([(''Content-Type'', ContentType), (''Content-Length'', show_nat (length body))], body))"

datatype serve_error = ErrServerClosed | ServeError string

text \<open>\<^verbatim>\<open>Serve\<close>: the error the server ended with before the context was cancelled, if it did, and
  what it ended with after the shutdown.\<close>

definition metrics_Serve :: "serve_error option option \<Rightarrow> serve_error option \<Rightarrow> serve_error option" where
  "metrics_Serve early final = (case early of
      Some err \<Rightarrow> err
    | None \<Rightarrow> if final \<noteq> None \<and> final \<noteq> Some ErrServerClosed then final else None)"

subsection \<open>A reader of the format\<close>

text \<open>The reference reader: a label value up to its closing quote, the labels up to the closing
  brace, a sample line, and all sample lines of a body (\<open>None\<close> for a line it cannot read).\<close>

fun unquote :: "string \<Rightarrow> (string \<times> string) option" where
  "unquote [] = None"
| "unquote (c # s) =
     (if c = QUOTE then Some ([], s)
      else if c = BACKSLASH then
        (case s of
           [] \<Rightarrow> None
         | d # t \<Rightarrow> map_option (\<lambda>(v, r). ((if d = CHR ''n'' then LF else d) # v, r)) (unquote t))
      else map_option (\<lambda>(v, r). (c # v, r)) (unquote s))"

lemma unquote_shorter: "unquote s = Some (v, r) \<Longrightarrow> length r < length s"
  by (induction s arbitrary: v rule: unquote.induct) (fastforce split: if_splits list.splits)+

function read_labels :: "string \<Rightarrow> (Label list \<times> string) option" where
  "read_labels s = (case dropWhile (\<lambda>c. c \<noteq> CHR ''='') s of
      e # q # t \<Rightarrow>
        if q \<noteq> QUOTE then None
        else (case unquote t of
            Some (v, c # r) \<Rightarrow>
              if c = CHR ''}'' then Some ([(takeWhile (\<lambda>c. c \<noteq> CHR ''='') s, v)], r)
              else if c = CHR '','' then
                map_option (\<lambda>(ls, u). ((takeWhile (\<lambda>c. c \<noteq> CHR ''='') s, v) # ls, u)) (read_labels r)
              else None
          | _ \<Rightarrow> None)
    | _ \<Rightarrow> None)"
  by pat_completeness auto
termination
proof (relation "measure length", goal_cases)
  case 1
  then show ?case by simp
next
  case (2 s e x q t p v w c r)
  then have "length (c # r) < length t" by (intro unquote_shorter [of t v]) auto
  moreover have "length (dropWhile (\<lambda>c. c \<noteq> CHR ''='') s) \<le> length s" by (rule length_dropWhile_le)
  ultimately show ?case using 2 by simp
qed

declare read_labels.simps [simp del]

definition read_sample :: "string \<Rightarrow> (string \<times> Label list \<times> string) option" where
  "read_sample line =
     (let plain = (\<lambda>c. c \<noteq> CHR ''{'' \<and> c \<noteq> SP); name = takeWhile plain line
      in case dropWhile plain line of
           [] \<Rightarrow> None
         | c # t \<Rightarrow>
             if c = SP then Some (name, [], t)
             else (case read_labels t of
                 Some (ls, d # v) \<Rightarrow> if d = SP then Some (name, ls, v) else None
               | _ \<Rightarrow> None))"

definition read_exposition :: "bytes \<Rightarrow> (string \<times> Label list \<times> string) option list" where
  "read_exposition body = map read_sample (filter (\<lambda>l. l \<noteq> [] \<and> hd l \<noteq> CHR ''#'') (Split body [LF]))"

lemma escapeLabel_simps [simp]:
  "escapeLabel [] = []" "escapeLabel (c # s) = escape_label_char c @ escapeLabel s"
  by (simp_all add: escapeLabel_def)

lemma LF_not_in_escaped [simp]: "LF \<notin> set (escapeLabel s)" "LF \<notin> set (escapeHelp s)"
  by (auto simp: escapeLabel_def escapeHelp_def escape_label_char_def escape_help_char_def split: if_splits)

lemma unquote_escapeLabel: "unquote (escapeLabel s @ QUOTE # r) = Some (s, r)"
  by (induction s) (auto simp: escape_label_char_def)

text \<open>Names that need no escaping.\<close>

definition plain_name :: "string \<Rightarrow> bool" where
  "plain_name n \<longleftrightarrow> n \<noteq> [] \<and> list_all (\<lambda>c. c \<notin> {CHR ''{'', SP, LF, CHR ''#'', CHR ''=''}) n"

definition plain_family :: "Family \<Rightarrow> bool" where
  "plain_family f \<longleftrightarrow> plain_name (fName f) \<and> list_all (\<lambda>s. list_all (plain_name \<circ> fst) (Labels s)) (Samples f)"

lemma plain_name_split:
  assumes "plain_name n"
  shows "takeWhile (\<lambda>c. c \<noteq> CHR ''='') (n @ CHR ''='' # r) = n" "dropWhile (\<lambda>c. c \<noteq> CHR ''='') (n @ CHR ''='' # r) = CHR ''='' # r"
    "x \<in> {CHR ''{'', SP} \<Longrightarrow> takeWhile (\<lambda>c. c \<noteq> CHR ''{'' \<and> c \<noteq> SP) (n @ x # r) = n"
    "x \<in> {CHR ''{'', SP} \<Longrightarrow> dropWhile (\<lambda>c. c \<noteq> CHR ''{'' \<and> c \<noteq> SP) (n @ x # r) = x # r"
  using assms by (auto simp: plain_name_def list_all_iff)

lemma plain_name_chars: "plain_name n \<Longrightarrow> n \<noteq> [] \<and> LF \<notin> set n \<and> hd n \<noteq> CHR ''#''"
  by (cases n) (auto simp: plain_name_def list_all_iff)

definition shown :: "Label list \<Rightarrow> Label list" where
  "shown ls = filter (\<lambda>l. snd l \<noteq> []) ls"

lemma formatLabels_loop_shown: "formatLabels_loop n ls = formatLabels_loop n (shown ls)"
  by (induction n ls rule: formatLabels_loop.induct) (auto simp: shown_def)

lemma read_labels_text:
  assumes "list_all (plain_name \<circ> fst) (l # ls)" and "list_all (\<lambda>l. snd l \<noteq> []) (l # ls)"
  shows "read_labels (label_text l @ formatLabels_loop (Suc n) ls @ r) = Some (l # ls, r)"
  using assms
proof (induction ls arbitrary: l n)
  case Nil
  then show ?case by (subst read_labels.simps) (simp add: label_text_def plain_name_split unquote_escapeLabel)
next
  case (Cons k ls)
  then have "read_labels (label_text k @ formatLabels_loop (Suc (Suc n)) ls @ r) = Some (k # ls, r)" by simp
  with Cons.prems show ?case
    by (subst read_labels.simps) (simp add: label_text_def [of l] plain_name_split unquote_escapeLabel)
qed

lemma read_sample_line:
  assumes "plain_name (fName f)" and "list_all (plain_name \<circ> fst) (Labels s)"
  shows "read_sample (sample_line FF f s) = Some (fName f, shown (Labels s), formatValue FF (Value s))"
proof (cases "shown (Labels s)")
  case Nil
  then show ?thesis using assms(1) formatLabels_loop_shown [of 0 "Labels s"]
    by (simp add: read_sample_def sample_line_def formatLabels_def plain_name_split)
next
  case (Cons l ls)
  moreover have "list_all (plain_name \<circ> fst) (shown (Labels s))" "list_all (\<lambda>l. snd l \<noteq> []) (shown (Labels s))"
    using assms(2) by (simp_all add: shown_def list_all_iff)
  ultimately have ok: "list_all (plain_name \<circ> fst) (l # ls)" "list_all (\<lambda>l. snd l \<noteq> []) (l # ls)" by simp_all
  from read_labels_text [OF ok, of 0 "SP # formatValue FF (Value s)"]
  have *: "read_labels (label_text l @ formatLabels_loop (Suc 0) ls @ SP # formatValue FF (Value s)) = Some (l # ls, SP # formatValue FF (Value s))" .
  have "formatLabels (Labels s) = CHR ''{'' # label_text l @ formatLabels_loop (Suc 0) ls"
    using Cons formatLabels_loop_shown [of 0 "Labels s"] ok(2) by (simp add: formatLabels_def)
  then show ?thesis using assms(1) Cons * by (simp add: read_sample_def sample_line_def plain_name_split)
qed

subsection \<open>Every sample is read back\<close>

lemma Split_lines:
  "list_all (\<lambda>l. c \<notin> set l) ls \<Longrightarrow> Split (concat (map (\<lambda>l. l @ [c]) ls)) [c] = ls @ [[]]"
proof (induction ls)
  case Nil
  then show ?case by (simp add: Split.simps)
next
  case (Cons l ls)
  then show ?case using Split_char [of c l] by simp
qed

lemma show_nat_decimal: "c \<in> set (show_nat n) \<Longrightarrow> digit c \<noteq> None"
proof (induction n rule: show_nat.induct)
  case (1 n)
  then show ?case by (subst (asm) (2) show_nat.simps) (auto simp: digit_def Let_def split: if_splits)
qed

lemma LF_not_in_show_nat [simp]: "LF \<notin> set (show_nat n)"
  using show_nat_decimal [of LF n] by (auto simp: digit_def Let_def)

lemma LF_not_in_value: "(\<And>x. LF \<notin> set (FF x)) \<Longrightarrow> LF \<notin> set (formatValue FF v)"
  by (auto simp: formatValue_def FormatInt_def split: float64.splits option.splits)

lemma LF_not_in_labels: "list_all (plain_name \<circ> fst) ls \<Longrightarrow> LF \<notin> set (formatLabels_loop n ls)"
  by (induction n ls rule: formatLabels_loop.induct) (auto simp: label_text_def dest: plain_name_chars)

lemma LF_not_in_sample_line:
  "(\<And>x. LF \<notin> set (FF x)) \<Longrightarrow> plain_family f \<Longrightarrow> s \<in> set (Samples f) \<Longrightarrow> LF \<notin> set (sample_line FF f s)"
  using LF_not_in_labels [of "Labels s" 0]
  by (auto simp: sample_line_def formatLabels_def plain_family_def list_all_iff dest: plain_name_chars LF_not_in_value)

definition sorted_lines :: "(float64 \<Rightarrow> string) \<Rightarrow> Family \<Rightarrow> string list" where
  "sorted_lines FF f = map butlast (sort (map (\<lambda>s. sample_line FF f s @ [LF]) (Samples f)))"

definition family_lines :: "(float64 \<Rightarrow> string) \<Rightarrow> Family \<Rightarrow> string list" where
  "family_lines FF f =
     (if Samples f = [] then []
      else (''# HELP '' @ fName f @ [SP] @ escapeHelp (fHelp f)) # (''# TYPE '' @ fName f @ [SP] @ type_String (fType f)) #
           sorted_lines FF f)"

definition exposition_lines :: "(float64 \<Rightarrow> string) \<Rightarrow> Family list \<Rightarrow> string list" where
  "exposition_lines FF fs = concat (map (family_lines FF) (sort_key fName fs))"

lemma mset_sorted_lines: "mset (sorted_lines FF f) = mset (map (sample_line FF f) (Samples f))"
  by (simp add: sorted_lines_def multiset.map_comp comp_def)

lemma set_sorted_lines: "set (sorted_lines FF f) = sample_line FF f ` set (Samples f)"
  using mset_eq_setD [OF mset_sorted_lines] by simp

lemma sorted_lines_end:
  "map (\<lambda>l. l @ [LF]) (sorted_lines FF f) = sort (map (\<lambda>s. sample_line FF f s @ [LF]) (Samples f))"
proof -
  have "butlast x @ [LF] = x" if "x \<in> set (sort (map (\<lambda>s. sample_line FF f s @ [LF]) (Samples f)))" for x
    using that by auto
  then show ?thesis unfolding sorted_lines_def map_map comp_def by (intro map_idI)
qed

lemma encode_family_lines: "encode_family FF f = concat (map (\<lambda>l. l @ [LF]) (family_lines FF f))"
  by (simp add: encode_family_def family_lines_def sorted_lines_end)

lemma concat_map_concat: "concat (map g (concat xss)) = concat (map (\<lambda>xs. concat (map g (h xs))) yss)"
  if "xss = map h yss"
  unfolding that by (induction yss) simp_all

lemma Encode_lines: "Encode FF fs = concat (map (\<lambda>l. l @ [LF]) (exposition_lines FF fs))"
  by (simp add: Encode_def exposition_lines_def concat_map_concat encode_family_lines cong: map_cong)

lemma family_lines_LF:
  "(\<And>x. LF \<notin> set (FF x)) \<Longrightarrow> plain_family f \<Longrightarrow> list_all (\<lambda>l. LF \<notin> set l) (family_lines FF f)"
  by (auto simp: family_lines_def list_all_iff set_sorted_lines LF_not_in_sample_line type_String_def
      plain_family_def [THEN iffD1] plain_name_chars split: metric_type.splits)


lemma exposition_lines_LF:
  "(\<And>x. LF \<notin> set (FF x)) \<Longrightarrow> list_all plain_family fs \<Longrightarrow> list_all (\<lambda>l. LF \<notin> set l) (exposition_lines FF fs)"
  using family_lines_LF unfolding exposition_lines_def list_all_iff by fastforce

lemma Split_Encode:
  "(\<And>x. LF \<notin> set (FF x)) \<Longrightarrow> list_all plain_family fs \<Longrightarrow> Split (Encode FF fs) [LF] = exposition_lines FF fs @ [[]]"
  by (simp add: Encode_lines Split_lines exposition_lines_LF)

lemma sample_line_start: "plain_family f \<Longrightarrow> sample_line FF f s \<noteq> [] \<and> hd (sample_line FF f s) \<noteq> CHR ''#''"
  by (auto simp: sample_line_def plain_family_def dest: plain_name_chars)

abbreviation is_sample :: "string \<Rightarrow> bool" where
  "is_sample l \<equiv> l \<noteq> [] \<and> hd l \<noteq> CHR ''#''"

lemma family_samples: "plain_family f \<Longrightarrow> filter is_sample (family_lines FF f) = sorted_lines FF f"
  by (auto simp: family_lines_def sorted_lines_def filter_id_conv sample_line_start set_sorted_lines [unfolded sorted_lines_def])

text \<open>What the samples of a family and of a list of families say: the name, the labels with a value,
  and the value as printed.\<close>

definition family_data :: "(float64 \<Rightarrow> string) \<Rightarrow> Family \<Rightarrow> (string \<times> Label list \<times> string) list" where
  "family_data FF f = map (\<lambda>s. (fName f, shown (Labels s), formatValue FF (Value s))) (Samples f)"

lemma read_family:
  assumes "plain_family f"
  shows "mset (map read_sample (sorted_lines FF f)) = mset (map Some (family_data FF f))"
proof -
  have "map read_sample (map (sample_line FF f) (Samples f)) = map Some (family_data FF f)"
    using assms by (auto simp: family_data_def plain_family_def list_all_iff read_sample_line)
  then show ?thesis by (metis mset_map mset_sorted_lines)
qed

lemma mset_concat_map: "mset (concat (map f xs)) = (\<Sum>x \<in># mset xs. mset (f x))"
  by (induction xs) auto

lemma Encode_read:
  assumes "\<And>x. LF \<notin> set (FF x)" and "list_all plain_family fs"
  shows "mset (read_exposition (Encode FF fs)) = mset (map Some (concat (map (family_data FF) fs)))"
proof -
  have plain: "plain_family f" if "f \<in> set (sort_key fName fs)" for f using that assms(2) by (simp add: list_all_iff)
  have "read_exposition (Encode FF fs) = concat (map (\<lambda>f. map read_sample (filter is_sample (family_lines FF f))) (sort_key fName fs))"
    unfolding read_exposition_def Split_Encode [OF assms] exposition_lines_def by (simp add: filter_concat map_concat comp_def)
  also have "\<dots> = concat (map (\<lambda>f. map read_sample (sorted_lines FF f)) (sort_key fName fs))"
    by (intro arg_cong [of _ _ concat] map_cong refl) (simp add: family_samples plain)
  also have "mset \<dots> = (\<Sum>f \<in># mset (sort_key fName fs). mset (map read_sample (sorted_lines FF f)))"
    by (rule mset_concat_map)
  also have "\<dots> = (\<Sum>f \<in># mset (sort_key fName fs). mset (map Some (family_data FF f)))"
    by (intro arg_cong [of _ _ sum_mset] image_mset_cong) (simp only: read_family plain set_mset_mset)
  also have "\<dots> = mset (concat (map (\<lambda>f. map Some (family_data FF f)) fs))"
    unfolding mset_concat_map by simp
  finally show ?thesis by (simp add: map_concat comp_def)
qed

lemma plain_names [simp]:
  "plain_name ''route''" "plain_name ''reason''" "plain_name ''result''" "plain_name ''role''" "plain_name ''version''"
  "plain_name ''fingerprint''" "plain_name ''direction''"
  by (simp_all add: plain_name_def)

lemma plain_family_family:
  "plain_family (family n h t ss) \<longleftrightarrow> plain_name n \<and> list_all (\<lambda>s. list_all (plain_name \<circ> fst) (Labels s)) ss"
  by (simp add: plain_family_def family_def)

lemma failures_plain: "plain_name n \<Longrightarrow> plain_family (failures n h d u r)"
  by (auto simp: failures_def plain_family_family failure_samples_def counted_def list_all_iff)

lemma Collect_plain: "list_all plain_family (Collect_metrics d version)"
proof -
  have "list_all (\<lambda>s. list_all (plain_name \<circ> fst) (Labels s)) (per_route f d)" for f
    by (simp add: per_route_def counted_def list_all_iff)
  moreover have "list_all (\<lambda>s. list_all (plain_name \<circ> fst) (Labels s)) (route_bytes d)"
    by (simp add: route_bytes_def counted_def list_all_iff)
  moreover have "list_all plain_family (edgeAgents d)"
    by (simp add: edgeAgents_def plain_family_family counted_def list.pred_map comp_def plain_name_def [of "_ # _"] list.pred_True split_beta Let_def)
  moreover have "list_all plain_family [handshake_family h d ss]" if "list_all (\<lambda>s. list_all (plain_name \<circ> fst) (Labels s)) ss" for h ss
    using that by (simp add: handshake_family_def plain_family_family counted_def plain_name_def [of "_ # _"])
  ultimately show ?thesis
    by (simp add: Collect_metrics_def shared_families_def plain_family_family failures_plain plain_name_def [of "_ # _"] counted_def)
qed

subsection \<open>Recognising a daemon by its metrics\<close>

lemma sample_line_shape: "\<exists>y r. sample_line FF f s = fName f @ y # r \<and> y \<in> {CHR ''{'', SP}"
proof -
  have "formatLabels_loop 0 ls = [] \<or> (\<exists>r. formatLabels_loop 0 ls = CHR ''{'' # r)" for ls
    by (induction ls) auto
  then show ?thesis unfolding sample_line_def formatLabels_def by fastforce
qed

lemma sample_line_name:
  assumes "plain_name n" and "x \<in> {CHR ''{'', SP}" and "plain_family f" and "HasPrefix (sample_line FF f s) (n @ [x])"
  shows "fName f = n"
proof -
  from assms(4) obtain r where "sample_line FF f s = n @ x # r" by (auto simp: HasPrefix_def prefix_def)
  moreover obtain y r' where "sample_line FF f s = fName f @ y # r'" "y \<in> {CHR ''{'', SP}" using sample_line_shape by blast
  ultimately show ?thesis using plain_name_split(3) [OF assms(1,2), of r] assms(3) plain_name_split(3) [of "fName f" y r']
    by (auto simp: plain_family_def)
qed

lemma exposition_line_cases:
  assumes "l \<in> set (exposition_lines FF fs)"
  obtains "hd l = CHR ''#''" "l \<noteq> []" | f s where "f \<in> set fs" "s \<in> set (Samples f)" "l = sample_line FF f s"
  using assms by (auto simp: exposition_lines_def family_lines_def set_sorted_lines split: if_splits)

lemma exposition_line_in:
  "f \<in> set fs \<Longrightarrow> s \<in> set (Samples f) \<Longrightarrow> sample_line FF f s \<in> set (exposition_lines FF fs)"
  by (force simp: exposition_lines_def family_lines_def set_sorted_lines)

text \<open>A name that one family has and that family has one sample of: the only line that starts with it.\<close>

lemma only_line:
  assumes "plain_name n" and "x \<in> {CHR ''{'', SP}" and "list_all plain_family fs"
    and "\<And>f. f \<in> set fs \<Longrightarrow> fName f = n \<Longrightarrow> f = g" and "Samples g = [s]"
    and "l \<in> set (exposition_lines FF fs @ [[]])" and "HasPrefix l (n @ [x])"
  shows "l = sample_line FF g s"
proof -
  have ne: "l \<noteq> []" "hd l = hd n" using assms(1,7) by (auto simp: HasPrefix_def prefix_def plain_name_def)
  with assms(6) have "l \<in> set (exposition_lines FF fs)" by simp
  then show ?thesis
  proof (cases rule: exposition_line_cases)
    case 1
    with ne plain_name_chars [OF assms(1)] show ?thesis by simp
  next
    case (2 f t)
    with sample_line_name [OF assms(1,2), of f] assms(3,7) have "fName f = n" by (auto simp: list_all_iff)
    with 2 assms(4,5) show ?thesis by auto
  qed
qed

lemma find_only: "(\<And>l. l \<in> set ls \<Longrightarrow> P l \<Longrightarrow> l = L) \<Longrightarrow> L \<in> set ls \<Longrightarrow> P L \<Longrightarrow> List.find P ls = Some L"
  by (metis find_None_props find_Some_props not_Some_eq)

lemma BuildInfoRole_loop_find:
  "BuildInfoRole_loop ls = (case List.find (\<lambda>l. HasPrefix l ''coen_build_info{'') ls of None \<Rightarrow> None | Some l \<Rightarrow> BuildInfoRole_loop [l])"
  by (induction ls) (simp_all add: CutPrefix_def)

lemma Draining_loop_find:
  "Draining_loop ls = (case List.find (\<lambda>l. HasPrefix l ''coen_draining '') ls of None \<Rightarrow> False | Some l \<Rightarrow> Draining_loop [l])"
  by (induction ls) (simp_all add: CutPrefix_def)

abbreviation build_info_family :: "Detail \<Rightarrow> string \<Rightarrow> Family" where
  "build_info_family d version \<equiv> family ''coen_build_info'' help_build_info Gauge
     [\<lparr>Labels = [(''role'', snRole (dSnapshot d)), (''version'', version)], Value = Finite 1 0\<rparr>]"

abbreviation draining_family :: "Detail \<Rightarrow> Family" where
  "draining_family d \<equiv> family ''coen_draining'' help_draining Gauge [\<lparr>Labels = [], Value = boolf (dDraining d)\<rparr>]"

lemma fName_family [simp]: "fName (family n h t ss) = n" "Samples (family n h t ss) = ss"
  by (simp_all add: family_def)

lemma edgeAgents_names:
  "map fName (edgeAgents d) = [''coen_agent_connected'', ''coen_agent_sessions'', ''coen_agent_streams_active'', ''coen_agent_streams_total'']"
  by (simp add: edgeAgents_def Let_def split_beta)

lemma Collect_unique:
  "list_all (\<lambda>f. (fName f = ''coen_build_info'' \<longrightarrow> f = build_info_family d version) \<and>
     (fName f = ''coen_draining'' \<longrightarrow> f = draining_family d)) (Collect_metrics d version)"
proof -
  have "list_all (\<lambda>n. n \<noteq> ''coen_build_info'' \<and> n \<noteq> ''coen_draining'') (map fName (edgeAgents d))"
    unfolding edgeAgents_names by simp
  then have "list_all (\<lambda>f. fName f \<noteq> ''coen_build_info'' \<and> fName f \<noteq> ''coen_draining'') (edgeAgents d)"
    by (simp only: list.pred_map comp_def)
  then have "list_all (\<lambda>f. (fName f = ''coen_build_info'' \<longrightarrow> f = A) \<and> (fName f = ''coen_draining'' \<longrightarrow> f = B)) (edgeAgents d)" for A B
    by (rule list.pred_mono_strong) blast
  then show ?thesis by (simp add: Collect_metrics_def shared_families_def handshake_family_def failures_def)
qed

lemma Collect_has: "build_info_family d version \<in> set (Collect_metrics d version)" "draining_family d \<in> set (Collect_metrics d version)"
  by (simp_all add: Collect_metrics_def shared_families_def)

text \<open>The first label of a line, up to its closing brace, whatever the labels after it hold.\<close>

lemma role_label_first:
  assumes "CHR ''}'' \<notin> set rl" "CHR '','' \<notin> set rl" "QUOTE \<notin> set rl" "rl \<noteq> []"
    and "X = ''}'' @ t \<or> X = '','' @ t \<and> CHR ''}'' \<in> set t"
  shows "\<exists>labels more. Cut (''role='' @ QUOTE # rl @ QUOTE # X) ''}'' = (labels, more, True) \<and> role_label (Split labels '','') = Some rl"
proof -
  let ?p = "''role='' @ QUOTE # rl @ [QUOTE]"
  have p: "CHR ''}'' \<notin> set ?p" "CHR '','' \<notin> set ?p" using assms by auto
  have keep: "dropWhile (\<lambda>x. x = QUOTE) (xs @ ys) = xs @ ys" if "QUOTE \<notin> set xs" "xs \<noteq> []" for xs ys
    using that by (cases xs) auto
  have trim: "TrimChar (QUOTE # rl @ [QUOTE]) QUOTE = rl"
    using assms(3,4) keep [of rl] keep [of "rev rl" "[]"] by (simp add: TrimChar_def)
  have kv: "role_label (?p # kvs) = Some rl" for kvs using trim Cut_char [of "CHR ''=''" "''role''" "QUOTE # rl @ [QUOTE]"] by simp
  have one: "Split ?p '','' = [?p]" using p(2) by (subst Split.simps) (simp add: Index_char_None)
  from assms(5) show ?thesis
  proof
    assume "X = ''}'' @ t"
    then have "Cut (?p @ X) ''}'' = (?p, t, True)" using Cut_char [OF p(1), of t] by simp
    with kv [of "[]"] one show ?thesis by simp
  next
    assume X: "X = '','' @ t \<and> CHR ''}'' \<in> set t"
    then obtain i where "Index t ''}'' = Some i" using Index_char_some by metis
    with X have "Cut (?p @ X) ''}'' = (?p @ CHR '','' # take i t, drop (Suc i) t, True)"
      using Index_char_append [OF p(1), of X] by (simp add: Cut_def numeral_3_eq_3)
    moreover have "Split (?p @ CHR '','' # take i t) '','' = ?p # Split (take i t) '',''" using p(2) by (rule Split_char)
    ultimately show ?thesis using kv by simp
  qed
qed


lemma show_nat_bit: "show_nat 0 = ''0''" "show_nat 1 = ''1''"
  by code_simp+

lemma value_one_zero [simp]:
  "formatValue FF (boolf b) = (if b then ''1'' else ''0'')" "formatValue FF (Finite 1 0) = ''1''"
  by (simp_all add: formatValue_def boolf_def whole_def FormatInt_def show_nat_bit [simplified])

lemma build_info_line:
  assumes "rl = ''edge'' \<or> rl = ''agent''"
  shows "BuildInfoRole_loop [sample_line FF (family ''coen_build_info'' h t ss) \<lparr>Labels = [(''role'', rl), (''version'', v)], Value = Finite 1 0\<rparr>] = Some rl"
proof -
  define X where "X = (if v = [] then ''} 1'' else '','' @ label_text (''version'', v) @ ''} 1'')"
  define t where "t = (if v = [] then '' 1'' else label_text (''version'', v) @ ''} 1'')"
  have rl: "CHR ''}'' \<notin> set rl" "CHR '','' \<notin> set rl" "QUOTE \<notin> set rl" "rl \<noteq> []" "escapeLabel rl = rl"
    using assms by (auto simp: escape_label_char_def)
  have "X = ''}'' @ t \<or> X = '','' @ t \<and> CHR ''}'' \<in> set t" by (auto simp: X_def t_def)
  from role_label_first [OF rl(1-4) this]
  obtain labels rest where *: "Cut (''role='' @ QUOTE # rl @ QUOTE # X) ''}'' = (labels, rest, True)"
    "role_label (Split labels '','') = Some rl" by blast
  have "sample_line FF (family ''coen_build_info'' h t' ss) \<lparr>Labels = [(''role'', rl), (''version'', v)], Value = Finite 1 0\<rparr> =
      ''coen_build_info{'' @ ''role='' @ QUOTE # rl @ QUOTE # X" for t'
    using rl by (simp add: sample_line_def formatLabels_def X_def label_text_def)
  moreover have "CutPrefix (''coen_build_info{'' @ r) ''coen_build_info{'' = Some r" for r
    by (simp add: CutPrefix_def HasPrefix_def)
  ultimately show ?thesis using * by (simp only: BuildInfoRole_loop.simps option.case prod.case if_True)
qed

lemma scrape_recognised:
  assumes FF: "\<And>x. LF \<notin> set (FF x)" and rl: "snRole (dSnapshot d) = ''edge'' \<or> snRole (dSnapshot d) = ''agent''"
  shows "BuildInfoRole (Encode FF (Collect_metrics d version)) = Some (snRole (dSnapshot d))" "Draining (Encode FF (Collect_metrics d version)) = dDraining d"
proof -
  let ?fs = "Collect_metrics d version" and ?ls = "exposition_lines FF (Collect_metrics d version) @ [[]]"
  let ?b = "\<lparr>Labels = [(''role'', snRole (dSnapshot d)), (''version'', version)], Value = Finite 1 0\<rparr>"
  let ?d = "\<lparr>Labels = [], Value = boolf (dDraining d)\<rparr>"
  let ?B = "sample_line FF (build_info_family d version) ?b" and ?D = "sample_line FF (draining_family d) ?d"
  have b: "f = build_info_family d version" if "f \<in> set ?fs" "fName f = ''coen_build_info''" for f
    using Collect_unique [of d version] that unfolding list_all_iff by blast
  have d: "f = draining_family d" if "f \<in> set ?fs" "fName f = ''coen_draining''" for f
    using Collect_unique [of d version] that unfolding list_all_iff by blast
  have n: "plain_name ''coen_build_info''" "plain_name ''coen_draining''" by (simp_all add: plain_name_def)
  have split: "Split (Encode FF ?fs) [LF] = ?ls" by (rule Split_Encode [OF FF Collect_plain])
  have "l = ?B" if "l \<in> set ?ls" "HasPrefix l ''coen_build_info{''" for l
    by (rule only_line [OF n(1) _ Collect_plain b _ that(1), of "CHR ''{''"]) (use that(2) in simp_all)
  moreover have "?B \<in> set ?ls" using exposition_line_in [OF Collect_has(1)] by simp
  moreover have "HasPrefix ?B ''coen_build_info{''" using rl by (auto simp: HasPrefix_def sample_line_def formatLabels_def)
  ultimately have "List.find (\<lambda>l. HasPrefix l ''coen_build_info{'') ?ls = Some ?B" by (rule find_only [of ?ls "\<lambda>l. HasPrefix l ''coen_build_info{''" ?B])
  then show "BuildInfoRole (Encode FF ?fs) = Some (snRole (dSnapshot d))"
    unfolding BuildInfoRole_def split by (subst BuildInfoRole_loop_find) (simp only: option.case build_info_line [OF rl])
  have D: "?D = ''coen_draining '' @ (if dDraining d then ''1'' else ''0'')" by (simp add: sample_line_def formatLabels_def)
  have "l = ?D" if "l \<in> set ?ls" "HasPrefix l ''coen_draining ''" for l
    by (rule only_line [OF n(2) _ Collect_plain d _ that(1), of SP]) (use that(2) in simp_all)
  moreover have "?D \<in> set ?ls" using exposition_line_in [OF Collect_has(2)] by simp
  moreover have "HasPrefix ?D ''coen_draining ''" by (simp add: D HasPrefix_def)
  ultimately have "List.find (\<lambda>l. HasPrefix l ''coen_draining '') ?ls = Some ?D" by (rule find_only [of ?ls "\<lambda>l. HasPrefix l ''coen_draining ''" ?D])
  then show "Draining (Encode FF ?fs) = dDraining d"
    unfolding Draining_def split by (subst Draining_loop_find) (simp add: D CutPrefix_def HasPrefix_def TrimSpace_def is_space_def)
qed

lemma Detail_fields [simp]:
  "snRole (dSnapshot (State_Detail order s)) = role s" "dDraining (State_Detail order s) = draining s"
  "dRoutes (State_Detail order s) = routeSnapshots s" "dUnrouted (State_Detail order s) = unrouted s"
  by (simp_all add: State_Detail_def snapshot_def Let_def)

lemma Handler_body: "snd (Handler FF order s version) = Encode FF (Collect_metrics (State_Detail order s) version)"
  by (simp add: Handler_def Let_def)

text \<open>A probe recognises a daemon by its scrape, whatever bytes its route patterns, fingerprints
  and version hold (no label value can forge a line): the holder it finds has the daemon's role
  and its draining flag, as long as the scrape is within the 1 MiB the probe reads and the
  printed form of a large float has no line break.\<close>

theorem probe_recognises:
  assumes "\<And>x. LF \<notin> set (FF x)" and "role s = ''edge'' \<or> role s = ''agent''"
    and "length (snd (Handler FF order s version)) \<le> probe_limit"
  shows "probeOne (Some (200, snd (Handler FF order s version), False)) = Some \<lparr>h_Role = role s, h_Draining = draining s\<rparr>"
  using assms(2,3) scrape_recognised [of FF "State_Detail order s" version, OF assms(1)]
  by (simp add: probeOne_def Handler_body)

lemma Probe_finds:
  assumes "SplitListen services addr = Some (host, port)" and "\<And>hs. mset (arrival hs) = mset hs"
  shows "Probe services GET arrival addr \<noteq> None \<longleftrightarrow> (\<exists>h \<in> set (LoopbackHosts host). probeOne (GET h port) \<noteq> None)"
proof -
  have "set (arrival (LoopbackHosts host)) = set (LoopbackHosts host)" using assms(2) by (rule mset_eq_setD)
  then show ?thesis using assms(1)
    by (auto simp: Probe_def find_None_props image_iff split: option.splits dest!: find_Some_props) metis
qed

definition sample_scraped :: State where
  "sample_scraped = SetDraining (Route_Failure (Some ''a.example'') ReasonNoAgent
     (State_Route ''a.example'' (NewState ''edge'' 0)))"

lemma length_Encode: "length (Encode FF fs) = length (concat (map (encode_family FF) fs))"
proof -
  have "sum_list (map (length \<circ> encode_family FF) (sort_key fName fs)) = sum_list (map (length \<circ> encode_family FF) fs)"
    by (metis mset_map mset_sort sum_mset_sum_list)
  then show ?thesis by (simp add: Encode_def length_concat comp_def)
qed

lemma sample_scraped_length:
  "length (concat (map (encode_family (\<lambda>_. ''x'')) (Collect_metrics (State_Detail [] sample_scraped) [LF, QUOTE, CHR ''}'']))) \<le> 8000"
  by code_simp

theorem probe_recognises_witness:
  "probeOne (Some (200, snd (Handler (\<lambda>_. ''x'') [] sample_scraped [LF, QUOTE, CHR ''}'']), False)) =
     Some \<lparr>h_Role = ''edge'', h_Draining = True\<rparr>"
proof -
  have "role sample_scraped = ''edge''" "draining sample_scraped = True"
    by (simp_all add: sample_scraped_def SetDraining_def Route_Failure_def on_route_def State_Route_def NewState_def)
  moreover have "length (snd (Handler (\<lambda>_. ''x'') [] sample_scraped [LF, QUOTE, CHR ''}''])) \<le> probe_limit"
    unfolding Handler_body length_Encode probe_limit_def using sample_scraped_length by simp
  ultimately show ?thesis using probe_recognises [of "\<lambda>_. ''x''" sample_scraped "[]" "[LF, QUOTE, CHR ''}'']"] by simp
qed



subsection \<open>No failure is left out\<close>

lemma bit_length_le: "bit_length n \<le> k \<longleftrightarrow> n < 2 ^ k"
proof (induction n arbitrary: k rule: bit_length.induct)
  case (1 n)
  show ?case
  proof (cases "n = 0")
    case False
    then have "bit_length n = Suc (bit_length (n div 2))" by (subst bit_length.simps) simp
    with False 1 [of "k - 1"] show ?thesis by (cases k) (simp_all add: div_less_iff_less_mult mult.commute)
  qed (simp add: bit_length.simps)
qed

lemma float64_exact: "\<bar>n\<bar> < 2 ^ 53 \<Longrightarrow> formatValue FF (float64_of_int n) = FormatInt n"
proof -
  assume n: "\<bar>n\<bar> < 2 ^ 53"
  then have "nat \<bar>n\<bar> < 2 ^ 53" by simp
  then have "round53 (nat \<bar>n\<bar>) = nat \<bar>n\<bar>" by (simp add: round53_def bit_length_le del: power_numeral)
  then have "float64_of_int n = Finite n 0" by (simp add: float64_of_int_def sgn_mult_abs)
  with n show ?thesis by (simp add: formatValue_def whole_def)
qed

lemma allReasons_complete: "in_range r \<Longrightarrow> r \<in> set allReasons"
  by (cases r) (auto simp: in_range_def allReasons_def)

lemma reported_nonzero: "in_range r \<Longrightarrow> counts r \<noteq> 0 \<Longrightarrow> r \<in> set (reported listed counts)"
  using allReasons_complete by (auto simp: reported_def)

lemma failure_sample_in:
  "in_range r \<Longrightarrow> counts r \<noteq> 0 \<Longrightarrow>
   counted ((''reason'', Reason_String r) # extra) (counts r) \<in> set (failure_samples extra listed counts)"
  using reported_nonzero [of r counts listed] by (force simp: failure_samples_def reason_Get_def)

lemma Reason_String_nonempty: "Reason_String r \<noteq> []"
  by (cases r) (simp_all add: Reason_String_def)

definition failure_family :: "string \<Rightarrow> string" where
  "failure_family rl = (if rl = ''edge'' then ''coen_ingress_rejected_total'' else ''coen_stream_errors_total'')"

lemma Collect_failures:
  assumes "snRole (dSnapshot d) = ''edge'' \<or> snRole (dSnapshot d) = ''agent''"
  shows "\<exists>h u r. failures (failure_family (snRole (dSnapshot d))) h d u r \<in> set (Collect_metrics d version)"
  using assms unfolding Collect_metrics_def failure_family_def by auto

lemma sample_scraped_in:
  assumes "\<And>x. LF \<notin> set (FF x)" and "f \<in> set (Collect_metrics (State_Detail order s) version)" and "smp \<in> set (Samples f)"
  shows "Some (fName f, shown (Labels smp), formatValue FF (Value smp)) \<in> set (read_exposition (snd (Handler FF order s version)))"
proof -
  have "(fName f, shown (Labels smp), formatValue FF (Value smp)) \<in> set (concat (map (family_data FF) (Collect_metrics (State_Detail order s) version)))"
    using assms(2,3) by (auto simp: family_data_def)
  then show ?thesis
    unfolding Handler_body using mset_eq_setD [OF Encode_read [OF assms(1) Collect_plain [of "State_Detail order s" version]]] by simp
qed

text \<open>No failure is left out of a scrape: a failure counter of the daemon that is not zero, of
  any reason, for any route or for none, is exported with its reason and its route, and with
  exactly its count while that is below 2 to the 53.\<close>

theorem failures_scraped:
  assumes FF: "\<And>x. LF \<notin> set (FF x)" and rl: "role s = ''edge'' \<or> role s = ''agent''" and r: "in_range reason"
    and src: "(labels, n) = ([], unrouted s reason) \<or> (\<exists>rt. (p, rt) \<in> set (routes s) \<and> p \<noteq> [] \<and> rpattern rt = p \<and>
      (labels, n) = ([(''route'', p)], rfailures rt reason))"
    and n: "n \<noteq> 0" "\<bar>n\<bar> < 2 ^ 53"
  shows "Some (failure_family (role s), (''reason'', Reason_String reason) # labels, FormatInt n) \<in>
    set (read_exposition (snd (Handler FF order s version)))"
proof -
  let ?d = "State_Detail order s"
  from Collect_failures [of ?d version] rl obtain h u t where f: "failures (failure_family (role s)) h ?d u t \<in> set (Collect_metrics ?d version)" by auto
  have snap: "routeSnapshot rt \<in> set (routeSnapshots s)" if "(p, rt) \<in> set (routes s)" for rt
    using that by (force simp: routeSnapshots_def)
  have smp: "counted ((''reason'', Reason_String reason) # labels) n \<in> set (Samples (failures (failure_family (role s)) h ?d u t))"
    using src
  proof
    assume "(labels, n) = ([], unrouted s reason)"
    with n(1) failure_sample_in [OF r, of "unrouted s" "[]" u] show ?thesis by (simp add: failures_def)
  next
    assume "\<exists>rt. (p, rt) \<in> set (routes s) \<and> p \<noteq> [] \<and> rpattern rt = p \<and> (labels, n) = ([(''route'', p)], rfailures rt reason)"
    then obtain rt where rt: "(p, rt) \<in> set (routes s)" "rpattern rt = p" "labels = [(''route'', p)]" "n = rfailures rt reason" by auto
    with n(1) failure_sample_in [OF r, of "rfailures rt" labels t] snap [OF rt(1)] show ?thesis
      by (force simp: failures_def routeSnapshot_def split_beta)
  qed
  have "shown ((''reason'', Reason_String reason) # labels) = (''reason'', Reason_String reason) # labels"
    using src by (auto simp: shown_def Reason_String_nonempty)
  with sample_scraped_in [OF FF f smp] n(2) show ?thesis by (simp add: counted_def float64_exact failures_def)
qed

theorem failures_scraped_witness:
  "Some (''coen_ingress_rejected_total'', [(''reason'', ''no_agent''), (''route'', ''a.example'')], FormatInt 1) \<in>
     set (read_exposition (snd (Handler (\<lambda>_. ''x'') [] sample_scraped ''1'')))"
proof -
  let ?rt = "route_Failure ReasonNoAgent (new_RouteStats ''a.example'')"
  have s: "role sample_scraped = ''edge''" "routes sample_scraped = [(''a.example'', ?rt)]"
    by (simp_all add: sample_scraped_def SetDraining_def Route_Failure_def on_route_def State_Route_def NewState_def)
  have "rpattern ?rt = ''a.example''" "rfailures ?rt ReasonNoAgent = 1"
    by (simp_all add: route_Failure_def reason_inc_def in_range_def new_RouteStats_def)
  with s show ?thesis
    using failures_scraped [of "\<lambda>_. ''x''" sample_scraped ReasonNoAgent "[(''route'', ''a.example'')]" 1 "''a.example''" "[]" "''1''"]
    by (simp add: in_range_def Reason_String_def failure_family_def)
qed

end
