(* ===== verification/Go_Base64.thy ===== *)
theory Go_Base64
  imports Go_Strings
begin

text \<open>
  Package \<^verbatim>\<open>encoding/base64\<close> with \<^verbatim>\<open>StdEncoding\<close>, as certificate fingerprints and proxy
  credentials use it: encoding with padding, and decoding, which skips line breaks and accepts
  any unused bits in the last character before the padding.
\<close>

definition b64_char :: "nat \<Rightarrow> char" where
  "b64_char k =
     (if k < 26 then char_of (65 + k) else if k < 52 then char_of (71 + k) else if k < 62 then char_of (k - 4)
      else if k = 62 then CHR ''+'' else CHR ''/'')"

definition b64_val :: "char \<Rightarrow> nat option" where
  "b64_val c =
     (let n = of_char c :: nat
      in if 65 \<le> n \<and> n \<le> 90 then Some (n - 65)
         else if 97 \<le> n \<and> n \<le> 122 then Some (n - 71)
         else if 48 \<le> n \<and> n \<le> 57 then Some (n + 4)
         else if c = CHR ''+'' then Some 62
         else if c = CHR ''/'' then Some 63
         else None)"

abbreviation byte :: "char \<Rightarrow> nat" where
  "byte c \<equiv> of_char c"

fun EncodeToString :: "bytes \<Rightarrow> string" where
  "EncodeToString [] = []"
| "EncodeToString [a] = [b64_char (byte a div 4), b64_char (byte a mod 4 * 16), CHR ''='', CHR ''='']"
| "EncodeToString [a, b] =
     [b64_char (byte a div 4), b64_char (byte a mod 4 * 16 + byte b div 16), b64_char (byte b mod 16 * 4), CHR ''='']"
| "EncodeToString (a # b # c # s) =
     b64_char (byte a div 4) # b64_char (byte a mod 4 * 16 + byte b div 16) #
     b64_char (byte b mod 16 * 4 + byte c div 64) # b64_char (byte c mod 64) # EncodeToString s"

definition dec1 :: "nat \<Rightarrow> nat \<Rightarrow> char" where
  "dec1 x y = char_of (x * 4 + y div 16)"

definition dec2 :: "nat \<Rightarrow> nat \<Rightarrow> char" where
  "dec2 y z = char_of (y mod 16 * 16 + z div 4)"

definition dec3 :: "nat \<Rightarrow> nat \<Rightarrow> char" where
  "dec3 z w = char_of (z mod 4 * 64 + w)"

text \<open>Decoding without line breaks.\<close>

fun decode_quads :: "string \<Rightarrow> bytes option" where
  "decode_quads [] = Some []"
| "decode_quads (p # q # r # s # t) = (case (b64_val p, b64_val q) of
      (Some x, Some y) \<Rightarrow>
        if r = CHR ''='' then (if s = CHR ''='' \<and> t = [] then Some [dec1 x y] else None)
        else (case b64_val r of
            None \<Rightarrow> None
          | Some z \<Rightarrow>
              if s = CHR ''='' then (if t = [] then Some [dec1 x y, dec2 y z] else None)
              else (case b64_val s of
                  None \<Rightarrow> None
                | Some w \<Rightarrow> map_option (\<lambda>d. dec1 x y # dec2 y z # dec3 z w # d) (decode_quads t)))
    | _ \<Rightarrow> None)"
| "decode_quads _ = None"

definition DecodeString :: "string \<Rightarrow> bytes option" where
  "DecodeString s = decode_quads (filter (\<lambda>c. c \<noteq> LF \<and> c \<noteq> CR) s)"

subsection \<open>Decoding undoes encoding\<close>

lemma b64_val_char: "k < 64 \<Longrightarrow> b64_val (b64_char k) = Some k"
  by (auto simp: b64_val_def b64_char_def Let_def split: if_splits)

lemma b64_char_plain: "k < 64 \<Longrightarrow> b64_char k \<noteq> CHR ''='' \<and> b64_char k \<noteq> LF \<and> b64_char k \<noteq> CR"
proof -
  assume "k < 64"
  then have "b64_val (b64_char k) \<noteq> None" by (simp add: b64_val_char)
  moreover have "b64_val (CHR ''='') = None" "b64_val LF = None" "b64_val CR = None" by (simp_all add: b64_val_def Let_def)
  ultimately show ?thesis by metis
qed

lemma byte_less: "byte c < 256"
  by (rule nat_of_char_less_256)

lemma quad_bounds:
  fixes a b c :: nat
  assumes "a < 256" "b < 256" "c < 256"
  shows "a div 4 < 64" "a mod 4 * 16 < 64" "a mod 4 * 16 + b div 16 < 64" "b mod 16 * 4 < 64"
    "b mod 16 * 4 + c div 64 < 64" "c mod 64 < 64"
  using assms by auto

lemma quad_decode:
  fixes a b c :: char
  shows "dec1 (byte a div 4) (byte a mod 4 * 16 + byte b div 16) = a" "dec1 (byte a div 4) (byte a mod 4 * 16) = a"
    "dec2 (byte a mod 4 * 16 + byte b div 16) (byte b mod 16 * 4 + byte c div 64) = b"
    "dec2 (byte a mod 4 * 16 + byte b div 16) (byte b mod 16 * 4) = b"
    "dec3 (byte b mod 16 * 4 + byte c div 64) (byte c mod 64) = c"
proof -
  have hi: "(u * 16 + v) div 16 = u" "(u * 16 + v) mod 16 = v" if "v < 16" for u v :: nat using that by simp_all
  have mid: "(u * 4 + v) div 4 = u" "(u * 4 + v) mod 4 = v" if "v < 4" for u v :: nat using that by simp_all
  have lt: "byte b div 16 < 16" "byte c div 64 < 4" using byte_less [of b] byte_less [of c] by (simp_all only: div_less_iff_less_mult)
  have "byte a div 4 * 4 + (byte a mod 4 * 16 + byte b div 16) div 16 = byte a"
    "byte a div 4 * 4 + (byte a mod 4 * 16) div 16 = byte a"
    "(byte a mod 4 * 16 + byte b div 16) mod 16 * 16 + (byte b mod 16 * 4 + byte c div 64) div 4 = byte b"
    "(byte a mod 4 * 16 + byte b div 16) mod 16 * 16 + (byte b mod 16 * 4) div 4 = byte b"
    "(byte b mod 16 * 4 + byte c div 64) mod 4 * 64 + byte c mod 64 = byte c"
    using hi [OF lt(1)] mid [OF lt(2)] mid [of 0] by simp_all
  then show "dec1 (byte a div 4) (byte a mod 4 * 16 + byte b div 16) = a" "dec1 (byte a div 4) (byte a mod 4 * 16) = a"
    "dec2 (byte a mod 4 * 16 + byte b div 16) (byte b mod 16 * 4 + byte c div 64) = b"
    "dec2 (byte a mod 4 * 16 + byte b div 16) (byte b mod 16 * 4) = b"
    "dec3 (byte b mod 16 * 4 + byte c div 64) (byte c mod 64) = c"
    unfolding dec1_def dec2_def dec3_def by (simp_all only: char_of_char)
qed

lemmas quad_simps = b64_val_char b64_char_plain quad_bounds [OF byte_less byte_less byte_less] quad_decode

lemma decode_encode: "decode_quads (EncodeToString s) = Some s"
  by (induction s rule: EncodeToString.induct) (simp_all add: quad_simps)

lemma EncodeToString_no_breaks: "LF \<notin> set (EncodeToString s) \<and> CR \<notin> set (EncodeToString s)"
proof -
  have "k < 64 \<Longrightarrow> LF \<noteq> b64_char k \<and> CR \<noteq> b64_char k" for k using b64_char_plain by metis
  then show ?thesis by (induction s rule: EncodeToString.induct) (simp_all add: quad_bounds [OF byte_less byte_less byte_less])
qed

lemma DecodeString_EncodeToString: "DecodeString (EncodeToString s) = Some s"
proof -
  have "filter (\<lambda>c. c \<noteq> LF \<and> c \<noteq> CR) (EncodeToString s) = EncodeToString s"
    using EncodeToString_no_breaks [of s] by (auto simp: filter_id_conv)
  then show ?thesis by (simp add: DecodeString_def decode_encode)
qed

end
