(* ===== verification/Netx.thy ===== *)
theory Netx
  imports H3_Request Config Go_Base64
begin

text \<open>
  Package \<^verbatim>\<open>internal/netx\<close>: dialling, directly or through an HTTP proxy with CONNECT (connect.go),
  a call bounded in time (bounded.go) and the classes of listen errors (addr_other.go).
  What the proxy sends is the list of chunks the connection's reads return; \<^verbatim>\<open>bufio.Reader\<close> takes the
  next chunk only when it has used up the last. \<^verbatim>\<open>http.ReadResponse\<close> and the closing of a response's
  body are written out as the standard library has them, because how many bytes they take from the
  reader decides what is left for the tunnel.
\<close>

subsection \<open>Reading a response (net/http)\<close>

text \<open>The lines up to the first empty one, without their line ends, and how many bytes they take:
  \<open>None\<close> while the empty line has not come.\<close>

definition strip_cr :: "bytes \<Rightarrow> bytes" where
  "strip_cr l = (if l \<noteq> [] \<and> last l = CR then butlast l else l)"

function head_lines :: "bytes \<Rightarrow> (bytes list \<times> nat) option" where
  "head_lines s = (case IndexByte s LF of
      None \<Rightarrow> None
    | Some i \<Rightarrow>
        (let l = strip_cr (take i s)
         in if l = [] then Some ([], i + 1)
            else map_option (\<lambda>(ls, n). (l # ls, i + 1 + n)) (head_lines (drop (i + 1) s))))"
  by auto
termination
proof (relation "measure length")
  fix s :: bytes and i l assume "IndexByte s LF = Some i"
  then have "s \<noteq> []" by (cases s) auto
  then show "(drop (i + 1) s, s) \<in> measure length" by simp
qed simp

declare head_lines.simps [simp del]

text \<open>The status line: the code, the text after the version, and the version.\<close>

definition ParseHTTPVersion :: "string \<Rightarrow> (nat \<times> nat) option" where
  "ParseHTTPVersion v =
     (if length v = 8 \<and> HasPrefix v ''HTTP/'' \<and> v ! 6 = CHR ''.'' then
        (case (digit (v ! 5), digit (v ! 7)) of (Some a, Some b) \<Rightarrow> Some (a, b) | _ \<Rightarrow> None)
      else None)"

definition status_line :: "bytes \<Rightarrow> (int \<times> string \<times> nat \<times> nat) option" where
  "status_line l =
     (let (proto, status, found) = Cut l '' ''; st = dropWhile (\<lambda>c. c = SP) status; code = fst (Cut st '' '')
      in if \<not> found \<or> length code \<noteq> 3 then None
         else (case Atoi code of
             None \<Rightarrow> None
           | Some n \<Rightarrow> if n < 0 then None
               else map_option (\<lambda>v. (n, st, v)) (ParseHTTPVersion proto)))"

text \<open>The fields: a line that starts with a blank continues the one before.\<close>

definition starts_blank :: "bytes \<Rightarrow> bool" where
  "starts_blank l \<longleftrightarrow> (case l of [] \<Rightarrow> False | c # _ \<Rightarrow> c \<in> {SP, TAB})"

function unfold_lines :: "bytes list \<Rightarrow> bytes list" where
  "unfold_lines [] = []"
| "unfold_lines (l # ls) =
     join_with '' '' (map trim_ows (l # takeWhile starts_blank ls)) # unfold_lines (dropWhile starts_blank ls)"
  by pat_completeness auto
termination
  by (relation "measure length") (auto simp: le_imp_less_Suc length_dropWhile_le)

definition value_byte :: "char \<Rightarrow> bool" where
  "value_byte c \<longleftrightarrow> (let n = of_char c :: nat in n = 9 \<or> 32 \<le> n \<and> n \<noteq> 127)"

definition mime_field :: "bytes \<Rightarrow> (string \<times> string) list option" where
  "mime_field kv =
     (let (k, v, found) = Cut kv '':''
      in if \<not> found \<or> \<not> list_all (\<lambda>c. tchar c \<or> c = SP) k \<or> \<not> list_all value_byte v then None
         else if k = [] then Some []
         else Some [(k, dropWhile (\<lambda>c. c \<in> {SP, TAB}) v)])"

fun mime_fields :: "bytes list \<Rightarrow> (string \<times> string) list option" where
  "mime_fields [] = Some []"
| "mime_fields (l # ls) = (case (mime_field l, mime_fields ls) of (Some f, Some fs) \<Rightarrow> Some (f @ fs) | _ \<Rightarrow> None)"

definition ReadMIMEHeader :: "bytes list \<Rightarrow> (string \<times> string) list option" where
  "ReadMIMEHeader ls = (if ls \<noteq> [] \<and> starts_blank (hd ls) then None else mime_fields (unfold_lines ls))"

text \<open>Whether the connection is to be closed after the response, and how its body is delimited.\<close>

definition has_token :: "string list \<Rightarrow> string \<Rightarrow> bool" where
  "has_token vs t \<longleftrightarrow> list_ex (\<lambda>v. list_ex (\<lambda>w. EqualFold (trim_ows w) t) (Split v '','')) vs"

definition shouldClose :: "nat \<times> nat \<Rightarrow> (string \<times> string) list \<Rightarrow> bool" where
  "shouldClose v fs =
     (let conv = values_of ''connection'' fs
      in if fst v < 1 then True
         else if v = (1, 0) then has_token conv ''close'' \<or> \<not> has_token conv ''keep-alive''
         else has_token conv ''close'')"

datatype answer_body = NoAnswerBody | UntilClose | SizedBody nat | ChunkedBody

definition all_same :: "string list \<Rightarrow> bool" where
  "all_same vs \<longleftrightarrow> list_all (\<lambda>v. trim_ows v = trim_ows (hd vs)) vs"

definition answer_framing :: "int \<Rightarrow> nat \<times> nat \<Rightarrow> (string \<times> string) list \<Rightarrow> answer_body option" where
  "answer_framing code v fs =
     (let te = values_of ''transfer-encoding'' fs; cl = values_of ''content-length'' fs;
          at11 = (1 < fst v \<or> fst v = 1 \<and> 1 \<le> snd v)
      in if te \<noteq> [] \<and> at11 \<and> (length te \<noteq> 1 \<or> \<not> EqualFold (hd te) ''chunked'') then None
         else if \<not> all_same cl then None
         else if code div 100 = 1 \<or> code = 204 \<or> code = 304 then Some NoAnswerBody
         else if te \<noteq> [] \<and> at11 then Some ChunkedBody
         else if cl = [] then Some UntilClose
         else (case digits_value 0 (trim_ows (hd cl)) of
             None \<Rightarrow> None
           | Some n \<Rightarrow> if trim_ows (hd cl) = [] \<or> 2 ^ 63 \<le> int n then None
               else Some (if n = 0 then NoAnswerBody else SizedBody n)))"

record answer =
  StatusCode :: int
  Status :: string
  a_head :: nat  \<comment> \<open>the bytes of the head\<close>
  a_body :: answer_body
  a_close :: bool

text \<open>\<^verbatim>\<open>ReadResponse\<close> on what the reader holds: \<open>None\<close> while more is needed, \<open>Some None\<close> for a malformed
  response. (The library refuses a malformed line as soon as it has read it; here it is refused once the
  head is complete. Either way the connection is closed.)\<close>

definition ReadResponse :: "bytes \<Rightarrow> answer option option" where
  "ReadResponse buf = (case head_lines buf of
      None \<Rightarrow> None
    | Some ([], n) \<Rightarrow> Some None
    | Some (l # ls, n) \<Rightarrow> Some (case status_line l of
          None \<Rightarrow> None
        | Some (code, st, v) \<Rightarrow> (case ReadMIMEHeader ls of
              None \<Rightarrow> None
            | Some fs \<Rightarrow> map_option (\<lambda>b. \<lparr>StatusCode = code, Status = st, a_head = n, a_body = b, a_close = shouldClose v fs\<rparr>)
                (answer_framing code v fs))))"

fun read_answer :: "bytes \<Rightarrow> bytes list \<Rightarrow> (answer \<times> bytes \<times> bytes list) option" where
  "read_answer buf cs = (case ReadResponse buf of
      Some None \<Rightarrow> None
    | Some (Some a) \<Rightarrow> Some (a, drop (a_head a) buf, cs)
    | None \<Rightarrow> (case cs of [] \<Rightarrow> None | c # cs' \<Rightarrow> read_answer (buf @ c) cs'))"

declare read_answer.simps [simp del]

text \<open>\<^verbatim>\<open>Body.Close\<close>: it reads the rest of a sized body, unless the connection is to be closed anyway, and of
  a chunked one. \<open>chunk_end\<close> says after how many of the bytes held a chunked body ends.\<close>

fun discard :: "nat \<Rightarrow> bytes \<Rightarrow> bytes list \<Rightarrow> bytes \<times> bytes list" where
  "discard n buf [] = (drop n buf, [])"
| "discard n buf (c # cs) = (if n \<le> length buf then (drop n buf, c # cs) else discard (n - length buf) c cs)"

fun discard_chunked :: "(bytes \<Rightarrow> nat option) \<Rightarrow> bytes \<Rightarrow> bytes list \<Rightarrow> bytes \<times> bytes list" where
  "discard_chunked chunk_end buf [] = (case chunk_end buf of Some n \<Rightarrow> (drop n buf, []) | None \<Rightarrow> ([], []))"
| "discard_chunked chunk_end buf (c # cs) = (case chunk_end buf of
      Some n \<Rightarrow> (drop n buf, c # cs)
    | None \<Rightarrow> discard_chunked chunk_end (buf @ c) cs)"

definition close_body :: "(bytes \<Rightarrow> nat option) \<Rightarrow> answer \<Rightarrow> bytes \<Rightarrow> bytes list \<Rightarrow> bytes \<times> bytes list" where
  "close_body chunk_end a buf cs = (case a_body a of
      NoAnswerBody \<Rightarrow> (buf, cs)
    | UntilClose \<Rightarrow> (buf, cs)
    | SizedBody n \<Rightarrow> if a_close a then (buf, cs) else discard n buf cs
    | ChunkedBody \<Rightarrow> discard_chunked chunk_end buf cs)"

subsection \<open>CONNECT (connect.go)\<close>

record proxy_url = url +
  u_Host :: string
  u_User :: "(string \<times> string option) option"

datatype connect_error = SendConnect io_error | ReadAnswer | ErrProxyAuth | Refused string

definition connect_request :: "string \<Rightarrow> proxy_url \<Rightarrow> bytes" where
  "connect_request addr via =
     ''CONNECT '' @ addr @ '' HTTP/1.1'' @ CRLF @ ''Host: '' @ addr @ CRLF @
     (case u_User via of
        None \<Rightarrow> []
      | Some (user, pass) \<Rightarrow>
          ''Proxy-Authorization: Basic '' @
          EncodeToString (user @ '':'' @ (case pass of Some p \<Rightarrow> p | None \<Rightarrow> [])) @ CRLF) @ CRLF"

text \<open>\<^verbatim>\<open>connect\<close>: the error of the write, if it fails, and the chunks the proxy sends; the bytes read ahead, when
  there are some, and the reads still to come.\<close>

definition connect :: "(bytes \<Rightarrow> nat option) \<Rightarrow> io_error option \<Rightarrow> bytes list \<Rightarrow>
    connect_error + PrefixConn option \<times> bytes list" where
  "connect chunk_end write_err chunks = (case write_err of
      Some e \<Rightarrow> Inl (SendConnect e)
    | None \<Rightarrow> (case read_answer [] chunks of
          None \<Rightarrow> Inl ReadAnswer
        | Some (a, buf, cs) \<Rightarrow>
            (let (peeked, rest) = close_body chunk_end a buf cs
             in if StatusCode a div 100 \<noteq> 2 then
                  (if StatusCode a = 407 then Inl ErrProxyAuth else Inl (Refused (Status a)))
                else if peeked \<noteq> [] then Inr (Some (WithPrefix peeked), rest)
                else Inr (None, rest))))"

definition JoinHostPort :: "string \<Rightarrow> string \<Rightarrow> string" where
  "JoinHostPort host port =
     (if ContainsChar host (CHR '':'') then ''['' @ host @ '']:'' @ port else host @ '':'' @ port)"

definition proxyAddr :: "proxy_url \<Rightarrow> string" where
  "proxyAddr via =
     (if Port via = [] then JoinHostPort (Hostname via) (if Scheme via = ''https'' then ''443'' else ''80'') else u_Host via)"

text \<open>\<^verbatim>\<open>Dial\<close>: which addresses answer, whether TLS to the proxy succeeds, the error of the write, the proxy's
  bytes, and how the context ended before the exchange did, if so. The result comes with whether the connection
  to the proxy was opened and whether it was closed.\<close>

datatype ctx_end = DeadlineExceeded | Canceled

record dial_env =
  de_connects :: "string \<Rightarrow> bool"
  de_tls :: "string \<Rightarrow> bool"
  de_write :: "io_error option"
  de_chunks :: "bytes list"
  de_ctx :: "ctx_end option"

datatype dial_error =
  DialFailed | DialProxy string | TLSToProxy string | NoAnswer string duration | CtxErr | ProxyError string connect_error

datatype dialled = Direct string | Through "PrefixConn option" "bytes list"

record dial_result =
  dr_result :: "dial_error + dialled"
  dr_opened :: bool
  dr_closed :: bool

definition Dial :: "(bytes \<Rightarrow> nat option) \<Rightarrow> dial_env \<Rightarrow> string \<Rightarrow> proxy_url option \<Rightarrow> duration \<Rightarrow> dial_result" where
  "Dial chunk_end env addr via timeout = (case via of
      None \<Rightarrow>
        if de_connects env addr then \<lparr>dr_result = Inr (Direct addr), dr_opened = True, dr_closed = False\<rparr>
        else \<lparr>dr_result = Inl DialFailed, dr_opened = False, dr_closed = False\<rparr>
    | Some u \<Rightarrow>
        if \<not> de_connects env (proxyAddr u) then \<lparr>dr_result = Inl (DialProxy (proxyAddr u)), dr_opened = False, dr_closed = False\<rparr>
        else if Scheme u = ''https'' \<and> \<not> de_tls env (Hostname u) then
          \<lparr>dr_result = Inl (TLSToProxy (proxyAddr u)), dr_opened = True, dr_closed = True\<rparr>
        else (case (de_ctx env, connect chunk_end (de_write env) (de_chunks env)) of
            (Some DeadlineExceeded, _) \<Rightarrow> \<lparr>dr_result = Inl (NoAnswer (proxyAddr u) timeout), dr_opened = True, dr_closed = True\<rparr>
          | (Some Canceled, _) \<Rightarrow> \<lparr>dr_result = Inl CtxErr, dr_opened = True, dr_closed = True\<rparr>
          | (None, Inl e) \<Rightarrow> \<lparr>dr_result = Inl (ProxyError (proxyAddr u) e), dr_opened = True, dr_closed = True\<rparr>
          | (None, Inr (p, rest)) \<Rightarrow> \<lparr>dr_result = Inr (Through p rest), dr_opened = True, dr_closed = False\<rparr>))"

subsection \<open>Bounded calls and listen errors (bounded.go, addr_other.go)\<close>

text \<open>How long the call takes, \<open>None\<close> when it does not return. (A call that returns at the very moment the time is
  up may be reported either way; here it counts as late.)\<close>

definition Bounded :: "duration \<Rightarrow> duration option \<Rightarrow> bool" where
  "Bounded d took = (case took of Some t \<Rightarrow> t < d | None \<Rightarrow> False)"

text \<open>\<^verbatim>\<open>tunnel.RequestDrain\<close> bounds the drain exchange this way, with a little more time than its read deadline:
  how long the exchange takes and whether the edge acknowledged.\<close>

definition boundGrace :: duration where
  "boundGrace = 100 * millisecond"

definition RequestDrain :: "duration \<Rightarrow> duration option \<Rightarrow> bool \<Rightarrow> bool" where
  "RequestDrain timeout took acked \<longleftrightarrow> Bounded (timeout + boundGrace) took \<and> acked"

datatype bind_error = EADDRINUSE | EADDRNOTAVAIL | EACCES | OtherListen string

definition IsAddrInUse :: "bind_error \<Rightarrow> bool" where
  "IsAddrInUse e \<longleftrightarrow> e = EADDRINUSE"

definition IsAddrNotAvail :: "bind_error \<Rightarrow> bool" where
  "IsAddrNotAvail e \<longleftrightarrow> e = EADDRNOTAVAIL"

subsection \<open>What the reader takes\<close>

lemma IndexByte_stays: "IndexByte s c = Some i \<Longrightarrow> IndexByte (s @ t) c = Some i \<and> i < length s"
  by (induction s arbitrary: i) (auto split: if_splits)

lemma head_lines_append:
  "head_lines s = Some (ls, n) \<Longrightarrow> head_lines (s @ t) = Some (ls, n) \<and> n \<le> length s"
proof (induction s arbitrary: ls n rule: head_lines.induct)
  case (1 s)
  from "1.prems" obtain i where i: "IndexByte s LF = Some i" by (subst (asm) head_lines.simps) (auto split: option.splits)
  have i': "IndexByte (s @ t) LF = Some i" "i < length s" using IndexByte_stays [OF i] by auto
  show ?case
  proof (cases "strip_cr (take i s) = []")
    case True
    then show ?thesis using "1.prems" i i' by (subst head_lines.simps) (subst (asm) head_lines.simps, simp)
  next
    case False
    with "1.prems" i obtain ls' m where m: "head_lines (drop (i + 1) s) = Some (ls', m)"
      and eq: "ls = strip_cr (take i s) # ls'" "n = i + 1 + m"
      by (subst (asm) head_lines.simps) (auto simp: Let_def)
    from "1.IH" [OF i refl False m] have "head_lines (drop (i + 1) s @ t) = Some (ls', m)" "m \<le> length (drop (i + 1) s)" by auto
    then show ?thesis using False i' eq by (subst head_lines.simps) (auto simp: Let_def)
  qed
qed

lemma ReadResponse_append:
  assumes "ReadResponse s = Some r" shows "ReadResponse (s @ t) = Some r"
proof -
  from assms obtain ls n where h: "head_lines s = Some (ls, n)" by (auto simp: ReadResponse_def split: option.splits)
  then have "head_lines (s @ t) = Some (ls, n)" using head_lines_append by blast
  with h assms show ?thesis by (simp add: ReadResponse_def)
qed

lemma ReadResponse_head: "ReadResponse s = Some (Some a) \<Longrightarrow> a_head a \<le> length s"
  using head_lines_append [of s _ _ "[]"]
  by (fastforce simp: ReadResponse_def split: option.splits list.splits prod.splits)

text \<open>The answer does not depend on how the bytes arrive, and what it leaves is what follows its head.\<close>

lemma read_answer_some:
  assumes "ReadResponse (buf @ concat cs) = Some (Some a)"
  shows "\<exists>buf' cs'. read_answer buf cs = Some (a, buf', cs') \<and> buf' @ concat cs' = drop (a_head a) (buf @ concat cs)"
  using assms
proof (induction cs arbitrary: buf)
  case Nil
  then show ?case by (subst read_answer.simps) simp
next
  case (Cons c cs)
  show ?case
  proof (cases "ReadResponse buf")
    case None
    then show ?thesis using Cons.IH [of "buf @ c"] Cons.prems by (subst read_answer.simps) simp
  next
    case (Some r)
    with Cons.prems ReadResponse_append [OF Some, of "concat (c # cs)"] have r: "r = Some a" by simp
    with Some have "a_head a \<le> length buf" using ReadResponse_head by blast
    with Some r show ?thesis by (subst read_answer.simps) simp
  qed
qed

lemma read_answer_none:
  assumes "ReadResponse (buf @ concat cs) = None \<or> ReadResponse (buf @ concat cs) = Some None"
  shows "read_answer buf cs = None"
  using assms
proof (induction cs arbitrary: buf)
  case Nil
  then show ?case by (subst read_answer.simps) auto
next
  case (Cons c cs)
  show ?case
  proof (cases "ReadResponse buf")
    case None
    then show ?thesis using Cons.IH [of "buf @ c"] Cons.prems by (subst read_answer.simps) simp
  next
    case (Some r)
    with Cons.prems ReadResponse_append [OF Some, of "concat (c # cs)"] have "r = None" by auto
    with Some show ?thesis by (subst read_answer.simps) simp
  qed
qed

lemma discard_stream: "discard n buf cs = (b, r) \<Longrightarrow> b @ concat r = drop n (buf @ concat cs)"
  by (induction n buf cs rule: discard.induct) (auto split: if_splits)

subsection \<open>The tunnel through a proxy\<close>

text \<open>The bytes the tunnel's connection will yield: those read ahead, then the connection's own.\<close>

definition tunnel_stream :: "PrefixConn option \<Rightarrow> bytes list \<Rightarrow> bytes" where
  "tunnel_stream p rest = (case p of None \<Rightarrow> [] | Some c \<Rightarrow> pc_prefix c) @ concat rest"

text \<open>How many bytes closing the answer's body takes, when that is known from the head.\<close>

definition body_taken :: "answer \<Rightarrow> nat" where
  "body_taken a = (case a_body a of SizedBody n \<Rightarrow> if a_close a then 0 else n | _ \<Rightarrow> 0)"

lemma close_body_stream:
  "a_body a \<noteq> ChunkedBody \<Longrightarrow> close_body ce a buf cs = (b, r) \<Longrightarrow> b @ concat r = drop (body_taken a) (buf @ concat cs)"
  by (auto simp: close_body_def body_taken_def split: answer_body.splits if_splits dest!: discard_stream)

lemma connect_answered:
  assumes a: "ReadResponse (concat chunks) = Some (Some a)" and "a_body a \<noteq> ChunkedBody"
  obtains (tunnel) p rest where "StatusCode a div 100 = 2" "connect ce None chunks = Inr (p, rest)"
      "tunnel_stream p rest = drop (a_head a + body_taken a) (concat chunks)"
    | (refused) "StatusCode a div 100 \<noteq> 2" "connect ce None chunks = Inl (if StatusCode a = 407 then ErrProxyAuth else Refused (Status a))"
proof -
  from read_answer_some [of "[]" chunks a] a obtain buf cs where
    r: "read_answer [] chunks = Some (a, buf, cs)" and s: "buf @ concat cs = drop (a_head a) (concat chunks)" by auto
  obtain b rest where c: "close_body ce a buf cs = (b, rest)" by force
  from close_body_stream [OF assms(2) c] s have t: "b @ concat rest = drop (a_head a + body_taken a) (concat chunks)"
    by (simp add: add.commute)
  show ?thesis
  proof (cases "StatusCode a div 100 = 2")
    case True
    then have "connect ce None chunks = Inr (if b = [] then None else Some (WithPrefix b), rest)" using r c by (simp add: connect_def)
    moreover have "tunnel_stream (if b = [] then None else Some (WithPrefix b)) rest = b @ concat rest"
      by (simp add: tunnel_stream_def WithPrefix_def)
    ultimately show ?thesis using True tunnel t by metis
  next
    case False
    then show ?thesis using refused r c by (simp add: connect_def)
  qed
qed

text \<open>C14. A proxy's CONNECT answer and the first bytes of the tunnel may arrive in one read, in many, or cut
  anywhere. However they arrive, when the answer is a success without a body, \<^verbatim>\<open>connect\<close> returns a connection
  that yields exactly the bytes after the answer's head, none lost and none twice; when the answer is not
  a success it returns the credentials error for 407 and the proxy's status text otherwise.\<close>

theorem proxy_tunnel_complete:
  assumes "ReadResponse (concat chunks) = Some (Some a)" and "a_body a = NoAnswerBody \<or> a_body a = UntilClose"
  shows "case connect chunk_end None chunks of
      Inr (p, rest) \<Rightarrow> StatusCode a div 100 = 2 \<and> tunnel_stream p rest = drop (a_head a) (concat chunks)
    | Inl e \<Rightarrow> StatusCode a div 100 \<noteq> 2 \<and> e = (if StatusCode a = 407 then ErrProxyAuth else Refused (Status a))"
proof -
  from assms(2) have b: "a_body a \<noteq> ChunkedBody" "body_taken a = 0" by (auto simp: body_taken_def)
  show ?thesis by (rule connect_answered [OF assms(1) b(1), of chunk_end]) (simp_all add: b(2))
qed

definition sample_answer :: bytes where
  "sample_answer = ''HTTP/1.1 200 Connection established'' @ CRLF @ ''Via: squid'' @ CRLF @ CRLF"

lemma sample_answer_read:
  "ReadResponse (sample_answer @ ''hello'') =
     Some (Some \<lparr>StatusCode = 200, Status = ''200 Connection established'', a_head = 51, a_body = UntilClose, a_close = False\<rparr>)"
  by code_simp

definition sample_chunks :: "bytes list" where
  "sample_chunks = [take 20 sample_answer, drop 20 sample_answer @ ''he'', ''llo'']"

theorem proxy_tunnel_complete_witness:
  "connect (\<lambda>_. None) None sample_chunks = Inr (Some (WithPrefix ''he''), [''llo'']) \<and>
   tunnel_stream (Some (WithPrefix ''he'')) [''llo''] = drop 51 (sample_answer @ ''hello'')"
proof -
  have c: "connect (\<lambda>_. None) None sample_chunks = Inr (Some (WithPrefix ''he''), [''llo''])" by code_simp
  have "concat sample_chunks = sample_answer @ ''hello''" by code_simp
  then show ?thesis using proxy_tunnel_complete [of sample_chunks _ "\<lambda>_. None"] sample_answer_read c by simp
qed


text \<open>Every failure after the proxy was reached closes the connection to it, and success leaves it open.\<close>

lemma Dial_closes:
  "(case dr_result (Dial ce env addr via timeout) of Inl _ \<Rightarrow> dr_opened (Dial ce env addr via timeout) = dr_closed (Dial ce env addr via timeout)
     | Inr _ \<Rightarrow> dr_opened (Dial ce env addr via timeout) \<and> \<not> dr_closed (Dial ce env addr via timeout))"
  by (simp add: Dial_def split: option.splits sum.splits ctx_end.splits prod.splits)

text \<open>The credentials of the URL reach the proxy: the request is three lines, and the last decodes to them.\<close>

lemma connect_request_lines:
  assumes "CR \<notin> set addr" and "u_User via = Some (user, pass)"
  shows "\<exists>cred. http1_lines (connect_request addr via) =
      Some ([''CONNECT '' @ addr @ '' HTTP/1.1'', ''Host: '' @ addr, ''Proxy-Authorization: Basic '' @ cred], []) \<and>
    DecodeString cred = Some (user @ '':'' @ (case pass of Some p \<Rightarrow> p | None \<Rightarrow> []))"
proof -
  let ?c = "EncodeToString (user @ '':'' @ (case pass of Some p \<Rightarrow> p | None \<Rightarrow> []))"
  let ?ls = "[''CONNECT '' @ addr @ '' HTTP/1.1'', ''Host: '' @ addr, ''Proxy-Authorization: Basic '' @ ?c]"
  have "connect_request addr via = lines_of ?ls @ CRLF @ []" using assms(2) by (simp add: connect_request_def)
  moreover have "CR \<notin> set ?c" using EncodeToString_no_breaks by blast
  ultimately have "http1_lines (connect_request addr via) = Some (?ls, [])"
    using http1_lines_all [of ?ls "[]"] assms(1) by auto
  then show ?thesis using DecodeString_EncodeToString by blast
qed

end
