(* ===== verification/Logging.thy ===== *)
theory Logging
  imports Go_Net
begin

text \<open>
  Logging and identifiers of package \<^verbatim>\<open>internal/obs\<close>: levels and formats (log.go), the handler
  that writes for the systemd journal (journal.go), and connection identifiers (id.go). An
  attribute's value is the string it resolves to, or a group. \<^verbatim>\<open>strconv.Quote\<close> and the test for
  values that need quoting are the ones on ASCII strings. A reader of journal lines states what the
  handler promises: no value can forge an attribute or a line.
\<close>

subsection \<open>Levels and formats (log.go)\<close>

type_synonym level = int

definition LevelTrace :: level where "LevelTrace = -8"
definition LevelDebug :: level where "LevelDebug = -4"
definition LevelInfo :: level where "LevelInfo = 0"
definition LevelWarn :: level where "LevelWarn = 4"
definition LevelError :: level where "LevelError = 8"

datatype log_error = UnknownLevel string | UnknownFormat string

definition ParseLevel :: "string \<Rightarrow> log_error + level" where
  "ParseLevel s =
     (let l = ToLower s
      in if l = ''trace'' then Inr LevelTrace
         else if l = ''debug'' then Inr LevelDebug
         else if l = ''info'' \<or> l = '''' then Inr LevelInfo
         else if l = ''warn'' \<or> l = ''warning'' then Inr LevelWarn
         else if l = ''error'' then Inr LevelError
         else Inl (UnknownLevel s))"

text \<open>\<^verbatim>\<open>resolveFormat\<close>, given whether the writer is the stream systemd connected to the journal.\<close>

definition resolveFormat :: "string \<Rightarrow> bool \<Rightarrow> string" where
  "resolveFormat format journal =
     (if ToLower format \<in> {''text'', ''json'', ''journal''} then ToLower format
      else if format = '''' then (if journal then ''journal'' else ''text'')
      else format)"

datatype handler_kind = JSONHandler | TextHandler | JournalHandler

definition NewLogger :: "string \<Rightarrow> string \<Rightarrow> bool \<Rightarrow> log_error + handler_kind \<times> level" where
  "NewLogger level format journal = (case ParseLevel level of
      Inl e \<Rightarrow> Inl e
    | Inr lv \<Rightarrow>
        (let f = resolveFormat format journal
         in if f = ''json'' then Inr (JSONHandler, lv)
            else if f = ''text'' then Inr (TextHandler, lv)
            else if f = ''journal'' then Inr (JournalHandler, lv)
            else Inl (UnknownFormat format)))"

subsection \<open>Which stream is the journal (journal.go)\<close>

text \<open>\<^verbatim>\<open>strconv.ParseUint(s, 10, 64)\<close>.\<close>

fun uint_value :: "nat \<Rightarrow> string \<Rightarrow> nat option" where
  "uint_value acc [] = Some acc"
| "uint_value acc (c # s) = (case digit c of
      None \<Rightarrow> None
    | Some d \<Rightarrow> if 2 ^ 64 \<le> acc * 10 + d then None else uint_value (acc * 10 + d) s)"

definition ParseUint :: "string \<Rightarrow> nat option" where
  "ParseUint s = (if s = [] then None else uint_value 0 s)"

definition parseJournalStream :: "string \<Rightarrow> (nat \<times> nat) option" where
  "parseJournalStream s = (case IndexByte s (CHR '':'') of
      None \<Rightarrow> None
    | Some i \<Rightarrow>
        if i = 0 \<or> i = length s - 1 then None
        else (case (ParseUint (take i s), ParseUint (drop (i + 1) s)) of
            (Some d, Some n) \<Rightarrow> Some (d, n)
          | _ \<Rightarrow> None))"

text \<open>\<^verbatim>\<open>writerIsJournalStream\<close>: the variable, and the device and inode of the writer when it is a file
  that can be examined.\<close>

definition writerIsJournalStream :: "string \<Rightarrow> (nat \<times> nat) option \<Rightarrow> bool" where
  "writerIsJournalStream js stat =
     (if js = [] then False
      else (case stat of
          None \<Rightarrow> False
        | Some (dev, ino) \<Rightarrow> (case parseJournalStream js of
              None \<Rightarrow> False
            | Some (d, n) \<Rightarrow> dev = d \<and> ino = n)))"

subsection \<open>The journal handler (journal.go)\<close>

text \<open>\<open>ZeroAttr\<close> is \<^verbatim>\<open>slog.Attr{}\<close>.\<close>

datatype attr = ZeroAttr | Plain string string | Group string "attr list"

abbreviation QUOTE :: char where "QUOTE \<equiv> CHR 0x22"
abbreviation BACKSLASH :: char where "BACKSLASH \<equiv> CHR 0x5C"

text \<open>\<^verbatim>\<open>strconv.Quote\<close> on ASCII: the escape of a character.\<close>

definition quote_char :: "char \<Rightarrow> string" where
  "quote_char c =
     (let n = of_char c :: nat
      in if c = QUOTE then [BACKSLASH, QUOTE]
         else if c = BACKSLASH then [BACKSLASH, BACKSLASH]
         else if n = 7 then [BACKSLASH, CHR ''a'']
         else if n = 8 then [BACKSLASH, CHR ''b'']
         else if n = 12 then [BACKSLASH, CHR ''f'']
         else if n = 10 then [BACKSLASH, CHR ''n'']
         else if n = 13 then [BACKSLASH, CHR ''r'']
         else if n = 9 then [BACKSLASH, CHR ''t'']
         else if n = 11 then [BACKSLASH, CHR ''v'']
         else if n < 32 \<or> n = 127 then [BACKSLASH, CHR ''x'', hexdigit (n div 16), hexdigit (n mod 16)]
         else [c])"

definition Quote :: "string \<Rightarrow> string" where
  "Quote s = QUOTE # concat (map quote_char s) @ [QUOTE]"

definition needs_quote :: "char \<Rightarrow> bool" where
  "needs_quote c \<longleftrightarrow> (of_char c :: nat) \<le> 32 \<or> c = QUOTE \<or> c = CHR ''='' \<or> c = CHR '',''"

definition journalQuote :: "string \<Rightarrow> string" where
  "journalQuote s = (if s = [] then [QUOTE, QUOTE] else if list_ex needs_quote s then Quote s else s)"

definition journalPrefix :: "level \<Rightarrow> string" where
  "journalPrefix l =
     (if LevelError \<le> l then ''<3>'' else if LevelWarn \<le> l then ''<4>'' else if LevelInfo \<le> l then ''<6>'' else ''<7>'')"

definition subgroup :: "string \<Rightarrow> string \<Rightarrow> string" where
  "subgroup grp key = (if key = [] then grp else if grp = [] then key else grp @ ''.'' @ key)"

fun appendAttr :: "string \<Rightarrow> attr \<Rightarrow> string" where
  "appendAttr grp ZeroAttr = []"
| "appendAttr grp (Group key gattrs) = concat (map (appendAttr (subgroup grp key)) gattrs)"
| "appendAttr grp (Plain key v) =
     '', '' @ (if grp \<noteq> [] then grp @ ''.'' @ key else key) @ ''='' @ journalQuote v"

record journalHandler =
  jh_level :: "level option"
  jh_attrs :: "attr list"
  jh_group :: string

definition newJournalHandler :: "level option \<Rightarrow> journalHandler" where
  "newJournalHandler lv = \<lparr>jh_level = lv, jh_attrs = [], jh_group = []\<rparr>"

definition Enabled :: "journalHandler \<Rightarrow> level \<Rightarrow> bool" where
  "Enabled h l \<longleftrightarrow> (case jh_level h of None \<Rightarrow> LevelInfo | Some m \<Rightarrow> m) \<le> l"

definition WithAttrs :: "journalHandler \<Rightarrow> attr list \<Rightarrow> journalHandler" where
  "WithAttrs h attrs = (if attrs = [] then h else h\<lparr>jh_attrs := jh_attrs h @ attrs\<rparr>)"

definition WithGroup :: "journalHandler \<Rightarrow> string \<Rightarrow> journalHandler" where
  "WithGroup h name =
     (if name = [] then h
      else if jh_group h = [] then h\<lparr>jh_group := name\<rparr>
      else h\<lparr>jh_group := jh_group h @ ''.'' @ name\<rparr>)"

definition dots_to_spaces :: "string \<Rightarrow> string" where
  "dots_to_spaces m = map (\<lambda>c. if c = CHR ''.'' then SP else c) m"

text \<open>\<^verbatim>\<open>Handle\<close>: the one string written.\<close>

definition journal_Handle :: "journalHandler \<Rightarrow> level \<Rightarrow> string \<Rightarrow> attr list \<Rightarrow> string" where
  "journal_Handle h l message attrs =
     journalPrefix l @ dots_to_spaces message @
     concat (map (appendAttr (jh_group h)) (jh_attrs h)) @ concat (map (appendAttr (jh_group h)) attrs) @ [LF]"

subsection \<open>Identifiers (id.go)\<close>

definition hex_encode :: "nat list \<Rightarrow> string" where
  "hex_encode bs = concat (map (\<lambda>b. [hexdigit (b div 16), hexdigit (b mod 16)]) bs)"

text \<open>The bytes of a 64-bit number, most significant first.\<close>

definition big_endian64 :: "64 word \<Rightarrow> nat list" where
  "big_endian64 w = map (\<lambda>i. unat (drop_bit (8 * (7 - i)) w) mod 256) [0..<8]"

text \<open>\<^verbatim>\<open>NewID\<close>: the six random bytes, or the time when there are none.\<close>

definition NewID :: "nat list option \<Rightarrow> 64 word \<Rightarrow> string" where
  "NewID random now = hex_encode (case random of Some b \<Rightarrow> b | None \<Rightarrow> drop 2 (big_endian64 now))"

subsection \<open>A reader of journal lines\<close>

text \<open>Undoing the escapes of a quoted value: the value and what follows its closing quote.\<close>

definition simple_escape :: "char \<Rightarrow> char" where
  "simple_escape d =
     (if d = CHR ''a'' then char_of (7 :: nat) else if d = CHR ''b'' then char_of (8 :: nat) else if d = CHR ''f'' then char_of (12 :: nat)
      else if d = CHR ''n'' then LF else if d = CHR ''r'' then CR else if d = CHR ''t'' then TAB
      else if d = CHR ''v'' then char_of (11 :: nat) else d)"

definition hex_pair :: "char \<Rightarrow> char \<Rightarrow> char" where
  "hex_pair a b = char_of (the (hexval a) * 16 + the (hexval b))"

fun read_quoted :: "string \<Rightarrow> (string \<times> string) option" where
  "read_quoted [] = None"
| "read_quoted (c # s) =
     (if c = QUOTE then Some ([], s)
      else if c = BACKSLASH then
        (case s of
           d # t \<Rightarrow>
             if d = CHR ''x'' then
               (case t of a # b # u \<Rightarrow> map_option (\<lambda>(v, r). (hex_pair a b # v, r)) (read_quoted u) | _ \<Rightarrow> None)
             else map_option (\<lambda>(v, r). (simple_escape d # v, r)) (read_quoted t)
         | [] \<Rightarrow> None)
      else map_option (\<lambda>(v, r). (c # v, r)) (read_quoted s))"

text \<open>A value is quoted or runs to the next comma or the end of the line.\<close>

definition read_value :: "string \<Rightarrow> (string \<times> string) option" where
  "read_value s = (case s of
      c # t \<Rightarrow> if c = QUOTE then read_quoted t else Some (takeWhile (\<lambda>c. c \<noteq> CHR '','' \<and> c \<noteq> LF) s, dropWhile (\<lambda>c. c \<noteq> CHR '','' \<and> c \<noteq> LF) s)
    | [] \<Rightarrow> None)"

text \<open>The attributes of a line up to its end, at most \<open>n\<close> of them.\<close>

fun read_attrs :: "nat \<Rightarrow> string \<Rightarrow> (string \<times> string) list option" where
  "read_attrs n [] = None"
| "read_attrs n (c # s) =
     (if c = LF then (if s = [] then Some [] else None)
      else if c = CHR '','' then
        (case (n, s) of
           (Suc n, sp # t) \<Rightarrow>
             (if sp \<noteq> SP then None else case dropWhile (\<lambda>c. c \<noteq> CHR ''='') t of
                e # u \<Rightarrow> (case read_value u of
                    Some (v, r) \<Rightarrow> map_option (\<lambda>as. (takeWhile (\<lambda>c. c \<noteq> CHR ''='') t, v) # as) (read_attrs n r)
                  | None \<Rightarrow> None)
              | [] \<Rightarrow> None)
         | _ \<Rightarrow> None)
      else None)"

definition read_journal :: "string \<Rightarrow> (string \<times> string \<times> (string \<times> string) list) option" where
  "read_journal line =
     (let body = drop 3 line; m = takeWhile (\<lambda>c. c \<noteq> CHR '','' \<and> c \<noteq> LF) body
      in map_option (\<lambda>as. (take 3 line, m, as)) (read_attrs (length line) (drop (length m) body)))"

text \<open>The attributes with their qualified keys, groups flattened.\<close>

fun flat :: "string \<Rightarrow> attr \<Rightarrow> (string \<times> string) list" where
  "flat grp ZeroAttr = []"
| "flat grp (Group key gattrs) = concat (map (flat (subgroup grp key)) gattrs)"
| "flat grp (Plain key v) = [(if grp \<noteq> [] then grp @ ''.'' @ key else key, v)]"

definition plain_key :: "string \<Rightarrow> bool" where
  "plain_key k \<longleftrightarrow> CHR ''='' \<notin> set k"

lemma read_quote_char: "read_quoted (quote_char c @ s) = map_option (\<lambda>(v, r). (c # v, r)) (read_quoted s)"
proof -
  let ?n = "of_char c :: nat"
  have n: "?n < 256" by (rule nat_of_char_less_256)
  have hex: "hex_pair (hexdigit (?n div 16)) (hexdigit (?n mod 16)) = c"
    using n by (simp add: hex_pair_def hexval_hexdigit div_less_iff_less_mult)
  have chr: "char_of k = c" if "?n = k" for k using that by auto
  have ctl: "char_of (9 :: nat) = TAB" "char_of (10 :: nat) = LF" "char_of (13 :: nat) = CR" by code_simp+
  have "c = TAB" if "?n = 9" using chr [OF that] ctl(1) by simp
  moreover have "c = LF" if "?n = 10" using chr [OF that] ctl(2) by simp
  moreover have "c = CR" if "?n = 13" using chr [OF that] ctl(3) by simp
  ultimately show ?thesis
    by (auto simp: quote_char_def Let_def hex simple_escape_def dest: chr)
qed

lemma read_Quote: "read_quoted (concat (map quote_char s) @ QUOTE # r) = Some (s, r)"
  by (induction s) (simp_all add: read_quote_char)

lemma span_at:
  "list_all P xs \<Longrightarrow> r \<noteq> [] \<Longrightarrow> \<not> P (hd r) \<Longrightarrow> takeWhile P (xs @ r) = xs \<and> dropWhile P (xs @ r) = r"
  by (induction xs; cases r) auto

lemma span_char: "c \<notin> set xs \<Longrightarrow> takeWhile (\<lambda>y. y \<noteq> c) (xs @ c # r) = xs \<and> dropWhile (\<lambda>y. y \<noteq> c) (xs @ c # r) = c # r"
  by (induction xs) auto

lemma needs_quote_chars: "needs_quote (CHR '','')" "needs_quote LF" "needs_quote QUOTE"
  by (simp_all add: needs_quote_def)

lemma read_value_journalQuote:
  assumes "r \<noteq> []" and "hd r = CHR '','' \<or> hd r = LF"
  shows "read_value (journalQuote v @ r) = Some (v, r)"
proof (cases "v = [] \<or> list_ex needs_quote v")
  case True
  then show ?thesis using read_Quote [of v r] by (auto simp: journalQuote_def read_value_def Quote_def)
next
  case False
  then obtain c t where v: "v = c # t" by (cases v) auto
  from False have "list_all (\<lambda>c. \<not> needs_quote c) v" by (simp add: list_all_iff list_ex_iff)
  then have "list_all (\<lambda>c. c \<noteq> CHR '','' \<and> c \<noteq> LF) v" "\<not> needs_quote c"
    using v needs_quote_chars by (fastforce elim: list.pred_mono_strong)+
  moreover from this needs_quote_chars have "c \<noteq> QUOTE" by blast
  ultimately have "list_all (\<lambda>c. c \<noteq> CHR '','' \<and> c \<noteq> LF) v" "c \<noteq> QUOTE" by blast+
  with assms span_at [of "\<lambda>c. c \<noteq> CHR '','' \<and> c \<noteq> LF" v r]
  have "takeWhile (\<lambda>c. c \<noteq> CHR '','' \<and> c \<noteq> LF) (v @ r) = v" "dropWhile (\<lambda>c. c \<noteq> CHR '','' \<and> c \<noteq> LF) (v @ r) = r" "c \<noteq> QUOTE"
    by simp_all
  with False v show ?thesis by (simp add: journalQuote_def read_value_def)
qed

text \<open>What is written for a list of qualified attributes.\<close>

definition attr_text :: "string \<times> string \<Rightarrow> string" where
  "attr_text kv = '', '' @ fst kv @ ''='' @ journalQuote (snd kv)"

lemma concat_map_flat: "concat (map f (concat (map g xs))) = concat (map (\<lambda>x. concat (map f (g x))) xs)"
  by (induction xs) simp_all

lemma appendAttr_flat: "appendAttr grp a = concat (map attr_text (flat grp a))"
proof (induction grp a rule: appendAttr.induct)
  case (2 grp key gattrs)
  then show ?case by (simp add: concat_map_flat cong: map_cong)
qed (simp_all add: attr_text_def)

lemma attrs_start:
  "concat (map attr_text as) @ [LF] \<noteq> []" "hd (concat (map attr_text as) @ [LF]) = CHR '','' \<or> hd (concat (map attr_text as) @ [LF]) = LF"
  by (cases as; simp add: attr_text_def)+

lemma read_attrs_text:
  assumes "list_all (plain_key \<circ> fst) as" and "length as \<le> n"
  shows "read_attrs n (concat (map attr_text as) @ [LF]) = Some as"
  using assms
proof (induction as arbitrary: n)
  case Nil
  then show ?case by simp
next
  case (Cons a as)
  then obtain m where n: "n = Suc m" "length as \<le> m" by (cases n) auto
  have key: "takeWhile (\<lambda>c. c \<noteq> CHR ''='') (fst a @ CHR ''='' # x) = fst a" "dropWhile (\<lambda>c. c \<noteq> CHR ''='') (fst a @ CHR ''='' # x) = CHR ''='' # x" for x
    using Cons.prems(1) span_char [of "CHR ''=''" "fst a" x] by (simp_all add: plain_key_def)
  let ?r = "concat (map attr_text as) @ [LF]"
  from read_value_journalQuote [OF attrs_start [of as]] have "read_value (journalQuote (snd a) @ ?r) = Some (snd a, ?r)" .
  moreover have "read_attrs m ?r = Some as" using Cons n by simp
  ultimately show ?case using n(1) key by (simp add: attr_text_def [of a])
qed

lemma attr_text_length: "length as \<le> length (concat (map attr_text as))"
  by (induction as) (simp_all add: attr_text_def)

text \<open>A journal line is read back: from what the handler writes for a record a reader recovers the
  priority, the event and every attribute with its qualified key and its value, whatever
  characters the values hold, so that no value (a host name a client sent, an error text) can
  forge an attribute or a line. The event has no comma and no line break, and no key an equals
  sign, as everywhere in the code.\<close>

theorem journal_line_roundtrip:
  assumes "CHR '','' \<notin> set message" and "LF \<notin> set message"
    and "list_all (plain_key \<circ> fst) (concat (map (flat (jh_group h)) (jh_attrs h @ attrs)))"
  shows "read_journal (journal_Handle h l message attrs) =
    Some (journalPrefix l, dots_to_spaces message, concat (map (flat (jh_group h)) (jh_attrs h @ attrs)))"
proof -
  let ?as = "concat (map (flat (jh_group h)) (jh_attrs h @ attrs))"
  let ?r = "concat (map attr_text ?as) @ [LF]"
  have line: "journal_Handle h l message attrs = journalPrefix l @ dots_to_spaces message @ ?r"
    by (simp add: journal_Handle_def appendAttr_flat [abs_def] concat_map_flat del: map_append)
      (simp add: concat_map_flat)
  have p: "length (journalPrefix l) = 3" by (simp add: journalPrefix_def)
  have m: "list_all (\<lambda>c. c \<noteq> CHR '','' \<and> c \<noteq> LF) (dots_to_spaces message)"
    using assms(1,2) by (auto simp: dots_to_spaces_def list_all_iff)
  have "takeWhile (\<lambda>c. c \<noteq> CHR '','' \<and> c \<noteq> LF) (dots_to_spaces message @ ?r) = dots_to_spaces message"
    using span_at [OF m, of ?r] attrs_start [of ?as] by auto
  moreover have "read_attrs (length (journal_Handle h l message attrs)) ?r = Some ?as"
    by (rule read_attrs_text [OF assms(3)]) (use attr_text_length [of ?as] in \<open>simp add: line\<close>)
  ultimately show ?thesis unfolding read_journal_def Let_def using p by (simp add: line)
qed

theorem journal_line_roundtrip_witness:
  "read_journal (journal_Handle (WithAttrs (newJournalHandler None) [Plain ''host'' (''a'' @ [LF] @ ''<3>x, y=z'')]) LevelWarn ''route.none''
       [Group ''g'' [Plain ''n'' [QUOTE, BACKSLASH], ZeroAttr]]) =
     Some (''<4>'', ''route none'', [(''host'', ''a'' @ [LF] @ ''<3>x, y=z''), (''g.n'', [QUOTE, BACKSLASH])])"
  using journal_line_roundtrip [of "''route.none''" "WithAttrs (newJournalHandler None) [Plain ''host'' (''a'' @ [LF] @ ''<3>x, y=z'')]"
      "[Group ''g'' [Plain ''n'' [QUOTE, BACKSLASH], ZeroAttr]]" LevelWarn]
  by (simp add: WithAttrs_def newJournalHandler_def subgroup_def plain_key_def journalPrefix_def dots_to_spaces_def
      LevelWarn_def LevelError_def LevelInfo_def)

text \<open>A group opened after attributes were bound qualifies those attributes too, although the
  handler interface of \<^verbatim>\<open>log/slog\<close> has it qualify only the later ones.\<close>

lemma group_requalifies_bound_attrs:
  "journal_Handle (WithGroup (WithAttrs (newJournalHandler None) [Plain ''conn'' ''7'']) ''g'') LevelInfo ''e'' [Plain ''k'' ''v''] =
     ''<6>e, g.conn=7, g.k=v'' @ [LF]"
  by code_simp

subsection \<open>Identifiers\<close>

lemma hexdigit_inj: "a < 16 \<Longrightarrow> b < 16 \<Longrightarrow> hexdigit a = hexdigit b \<Longrightarrow> a = b"
  using hexval_hexdigit by (metis option.inject)

text \<open>Different bytes give different identifiers, of twelve characters.\<close>

lemma hex_encode_inj:
  "list_all (\<lambda>b. b < 256) as \<Longrightarrow> list_all (\<lambda>b. b < 256) bs \<Longrightarrow> hex_encode as = hex_encode bs \<Longrightarrow> as = bs"
proof (induction as arbitrary: bs)
  case Nil
  then show ?case by (cases bs) (simp_all add: hex_encode_def)
next
  case (Cons a as)
  then obtain b cs where bs: "bs = b # cs" by (cases bs) (simp_all add: hex_encode_def)
  with Cons.prems have "hexdigit (a div 16) = hexdigit (b div 16)" "hexdigit (a mod 16) = hexdigit (b mod 16)"
    "hex_encode as = hex_encode cs" by (simp_all add: hex_encode_def)
  moreover from this Cons.prems bs have "a div 16 = b div 16" "a mod 16 = b mod 16"
    by (auto intro!: hexdigit_inj simp: div_less_iff_less_mult)
  ultimately show ?case using Cons bs by (metis div_mult_mod_eq list.pred_inject(2))
qed

lemma length_NewID: "(case random of None \<Rightarrow> True | Some b \<Rightarrow> length b = 6) \<Longrightarrow> length (NewID random now) = 12"
proof -
  have "length (hex_encode bs) = 2 * length bs" for bs by (induction bs) (simp_all add: hex_encode_def)
  then show "(case random of None \<Rightarrow> True | Some b \<Rightarrow> length b = 6) \<Longrightarrow> ?thesis"
    by (simp add: NewID_def big_endian64_def split: option.splits)
qed

end
