(* ===== verification/Agent.thy ===== *)
theory Agent
  imports Obs Config Stream_Pipe Errpage
begin

text \<open>
  \<^verbatim>\<open>internal/agent/agent.go\<close>: the agent's reconnect loop, one connection to the edge, the
  shutdown of a session, and the handling of a stream. What the network and the clock do is
  given to each definition; logging is left out. Durations are Go's 64-bit nanoseconds: where
  they are multiplied or added without a bound they wrap (\<open>wrap64\<close>).
\<close>

subsection \<open>Reconnecting\<close>

definition wrap64 :: "int \<Rightarrow> int" where
  "wrap64 n = (n + 2 ^ 63) mod 2 ^ 64 - 2 ^ 63"

text \<open>\<^verbatim>\<open>withJitter\<close>; \<open>rnd d\<close> is what \<^verbatim>\<open>rand.Int63n(d)\<close> returns, from 0 to below \<open>d\<close>.\<close>

definition withJitter :: "(int \<Rightarrow> int) \<Rightarrow> duration \<Rightarrow> duration" where
  "withJitter rnd d = (if d \<le> 0 then d else wrap64 (d div 2 + rnd d))"

definition rand_ok :: "(int \<Rightarrow> int) \<Rightarrow> bool" where
  "rand_ok rnd \<longleftrightarrow> (\<forall>d > 0. 0 \<le> rnd d \<and> rnd d < d)"

text \<open>\<^verbatim>\<open>if backoff *= 2; backoff > max { backoff = max }\<close>\<close>

definition next_backoff :: "duration \<Rightarrow> duration \<Rightarrow> duration" where
  "next_backoff mx backoff = (let b = wrap64 (backoff * 2) in if mx < b then mx else b)"

record connect_outcome =
  co_stable :: bool
  co_err :: "string option"
  co_cancelled :: bool  \<comment> \<open>the context has ended when connectOnce returns\<close>
  co_rand :: "int \<Rightarrow> int"
  co_cancel_wait :: bool  \<comment> \<open>it ends during the pause\<close>

definition tunnel_closed :: "string option \<Rightarrow> State \<Rightarrow> State" where
  "tunnel_closed err s =
     (let s = SetDisconnected s in case err of None \<Rightarrow> s | Some e \<Rightarrow> SetError e s)"

text \<open>The loop of \<^verbatim>\<open>Run\<close>, over the outcomes of its connections: the pauses made, and the
  counters. It ends at a cancellation, or waits for an outcome not yet known.\<close>

fun Run_loop :: "duration \<Rightarrow> duration \<Rightarrow> duration \<Rightarrow> State \<Rightarrow> connect_outcome list \<Rightarrow> duration list \<times> State" where
  "Run_loop mn mx backoff s [] = ([], s)"
| "Run_loop mn mx backoff s (o' # os) =
     (if co_cancelled o' then ([], s)
      else
        (let s = tunnel_closed (co_err o') s;
             backoff = (if co_stable o' then mn else backoff);
             wait = withJitter (co_rand o') backoff
         in if co_cancel_wait o' then ([wait], s)
            else (let (waits, s') = Run_loop mn mx (next_backoff mx backoff) (Reconnect s) os in (wait # waits, s'))))"

text \<open>\<^verbatim>\<open>Run\<close> up to its return, at which the deferred \<^verbatim>\<open>retired\<close> runs (below).\<close>

definition Run :: "AgentConfig \<Rightarrow> State \<Rightarrow> connect_outcome list \<Rightarrow> duration list \<times> State" where
  "Run cfg s os =
     (let mn = MinBackoff (Reconnect_cfg cfg); mx = MaxBackoff (Reconnect_cfg cfg) in Run_loop mn mx mn s os)"

subsection \<open>One connection\<close>

record connect_env =
  ce_dial :: bool
  ce_handshake :: bool
  ce_fp :: fingerprint  \<comment> \<open>the edge certificate's\<close>
  ce_proto :: string  \<comment> \<open>the negotiated protocol\<close>
  ce_now :: instant
  ce_session :: bool
  ce_lived :: duration  \<comment> \<open>from the handshake until the session ended\<close>

datatype connect_error = DialError | HandshakeError | FingerprintMismatch fingerprint fingerprint
  | SessionError | AcceptStreamError

text \<open>\<^verbatim>\<open>connectOnce\<close>: whether the session was stable, why it ended, whether streams were served and
  with the version 2 protocol, and the counters.\<close>

definition connectOnce :: "AgentConfig \<Rightarrow> connect_env \<Rightarrow> State \<Rightarrow> (bool \<times> connect_error \<times> bool option) \<times> State" where
  "connectOnce cfg env s =
     (if \<not> ce_dial env then ((False, DialError, None), HandshakeFail s)
      else if \<not> ce_handshake env then ((False, HandshakeError, None), HandshakeFail s)
      else
        (let fp = ce_fp env; v2 = (ce_proto env = ALPNv2); pin = EdgeFingerprint (Edge cfg)
         in if pin \<noteq> '''' \<and> pin \<noteq> fp then ((False, FingerprintMismatch fp pin, None), HandshakeFail s)
            else
              (let s = SetConnected fp (ce_now env) (HandshakeOK s);
                   stable = (MinBackoff (Reconnect_cfg cfg) \<le> ce_lived env)
               in if \<not> ce_session env then ((stable, SessionError, None), s)
                  else ((stable, AcceptStreamError, Some v2), s))))"

subsection \<open>Shutting a session down\<close>

definition drainAckTimeout :: duration where "drainAckTimeout = 3 * second"
definition goAwayWait :: duration where "goAwayWait = second"
definition backlogQuiet :: duration where "backlogQuiet = 50 * millisecond"
definition minHandoff :: duration where "minHandoff = 2 * MinAckWait"
definition minServe :: duration where "minServe = 500 * millisecond"

datatype shutdown_action =
    Retired  \<comment> \<open>a.retired\<close>
  | RefuseNew
  | DrainInBackground duration
  | GoAwayInBackground
  | AskDrain duration
  | GoAwayBounded duration
  | StopAccept
  | Serve nat
  | RefuseStream nat
  | DrainStreams duration
  | CloseSession

record shutdown_env =
  se_v2 :: bool
  se_closed :: bool  \<comment> \<open>the session is already closed\<close>
  se_backlog :: "(nat \<times> duration) list"  \<comment> \<open>the queued streams accepted, each with the time since the start\<close>
  se_spent :: duration  \<comment> \<open>the time since the start once the handoff is done\<close>

definition backlog_action :: "duration \<Rightarrow> nat \<times> duration \<Rightarrow> shutdown_action" where
  "backlog_action budget q = (if budget - snd q < minServe then RefuseStream (fst q) else Serve (fst q))"

definition handoff :: "duration \<Rightarrow> shutdown_env \<Rightarrow> shutdown_action list" where
  "handoff budget env =
     (if \<not> se_v2 env then []
      else if budget \<le> 0 \<or> se_closed env then [Retired]
      else if budget < minHandoff then [RefuseNew, DrainInBackground budget, GoAwayInBackground, Retired]
      else [AskDrain (min drainAckTimeout (budget div 2)), Retired,
            GoAwayBounded (min goAwayWait (budget div 4)), StopAccept] @ map (backlog_action budget) (se_backlog env))"

definition remaining_budget :: "duration \<Rightarrow> duration \<Rightarrow> duration" where
  "remaining_budget budget spent = (let r = budget - spent in if 0 < budget \<and> r \<le> 0 then millisecond else r)"

definition shutdownSession :: "duration \<Rightarrow> shutdown_env \<Rightarrow> shutdown_action list" where
  "shutdownSession budget env =
     handoff budget env @
     [RefuseNew, DrainStreams (remaining_budget budget (se_spent env)), CloseSession] @
     (if \<not> se_v2 env then [Retired] else [])"

subsection \<open>Streams in flight\<close>

record agent_state =
  ag_draining :: bool
  ag_inflight :: int
  ag_onRetired :: bool  \<comment> \<open>a callback is set\<close>
  ag_retiredDone :: bool
  ag_calls :: nat  \<comment> \<open>how often the callback has run\<close>

definition new_agent :: agent_state where
  "new_agent = \<lparr>ag_draining = False, ag_inflight = 0, ag_onRetired = False, ag_retiredDone = False, ag_calls = 0\<rparr>"

definition SetOnRetired :: "agent_state \<Rightarrow> bool \<times> agent_state" where
  "SetOnRetired a = (if ag_retiredDone a then (False, a) else (True, a\<lparr>ag_onRetired := True\<rparr>))"

definition agent_retired :: "agent_state \<Rightarrow> agent_state" where
  "agent_retired a =
     (if ag_retiredDone a then a
      else (let a' = a\<lparr>ag_retiredDone := True\<rparr> in if ag_onRetired a then a'\<lparr>ag_calls := ag_calls a + 1\<rparr> else a'))"

definition refuseNew :: "agent_state \<Rightarrow> agent_state" where
  "refuseNew a = a\<lparr>ag_draining := True\<rparr>"

text \<open>\<^verbatim>\<open>drainStreamsFor\<close>, given how long the streams in flight take: how long it waits.\<close>

definition drainStreamsFor :: "duration \<Rightarrow> duration \<Rightarrow> agent_state \<Rightarrow> (duration \<times> bool) \<times> agent_state" where
  "drainStreamsFor d completes a = (DrainWait d completes, refuseNew a)"

text \<open>\<^verbatim>\<open>serveStream\<close> up to the handler's start: whether the stream is served.\<close>

definition serveStream :: "agent_state \<Rightarrow> bool \<times> agent_state" where
  "serveStream a = (if ag_draining a then (False, a) else (True, a\<lparr>ag_inflight := ag_inflight a + 1\<rparr>))"

definition stream_done :: "agent_state \<Rightarrow> agent_state" where
  "stream_done a = a\<lparr>ag_inflight := ag_inflight a - 1\<rparr>"

subsection \<open>One stream\<close>

record agentRoute =
  service :: string
  stats :: string  \<comment> \<open>the pattern its counters are held under\<close>

text \<open>What \<^verbatim>\<open>New\<close> makes of the configured routes: a matcher, and their counters in the state.\<close>

definition agent_entry :: "AgentRoute \<Rightarrow> agentRoute Entry" where
  "agent_entry r = \<lparr>Pattern = ar_Host r, Value = \<lparr>service = Service r, stats = Normalize (ar_Host r)\<rparr>\<rparr>"

text \<open>\<^verbatim>\<open>New\<close>: the certificate material as loaded (\<open>None\<close> for an error), with the fingerprint of its
  leaf if it was parsed; \<open>Inl\<close> is the error returned.\<close>

datatype new_error = MaterialError | AddressError addr_error

record agent =
  a_routes :: "agentRoute Matcher"
  a_serverName :: string
  a_version :: string

definition agent_New :: "AgentConfig \<Rightarrow> fingerprint option option \<Rightarrow> State \<Rightarrow> new_error + agent \<times> State" where
  "agent_New cfg material s = (case material of
      None \<Rightarrow> Inl MaterialError
    | Some leaf \<Rightarrow> (case SplitHostPort (Address (Edge cfg)) of
          Inl e \<Rightarrow> Inl (AddressError e)
        | Inr (host, _) \<Rightarrow>
            (let s = (case leaf of None \<Rightarrow> s | Some fp \<Rightarrow> SetSelfFingerprint fp s);
                 s = foldl (\<lambda>s r. State_Route (Normalize (ar_Host r)) s) s (ARoutes cfg)
             in Inr (\<lparr>a_routes = Build (map agent_entry (ARoutes cfg)), a_serverName = host, a_version = AVersion cfg\<rparr>, s))))"

text \<open>The reads a copy makes of a stream: pieces of at most the given sizes, then its end.\<close>

fun reader_reads :: "nat list \<Rightarrow> reader \<Rightarrow> (bytes \<times> io_error option) list" where
  "reader_reads ns r =
     (if avail r = [] then [([], Some (ending r))]
      else (case ns of
          [] \<Rightarrow> []
        | n # ns \<Rightarrow> (take n (avail r), None) # reader_reads ns (r\<lparr>avail := drop n (avail r)\<rparr>)))"

declare reader_reads.simps [simp del]

record stream_env =
  hs_accept :: bool  \<comment> \<open>the accept byte could be written\<close>
  hs_stream :: reader
  hs_dial :: bool
  hs_sizes :: "nat list"
  hs_service_writes :: "(nat \<times> io_error option) list"
  hs_service_reads :: "(bytes \<times> io_error option) list"
  hs_stream_writes :: "(nat \<times> io_error option) list"
  hs_stream_first :: bool  \<comment> \<open>the direction to the service ends first\<close>

datatype stream_end = NotAccepted | ClosedBeforePreamble | PreambleFailed | NoRoute | DialFailed
  | Piped string copied copied

text \<open>\<^verbatim>\<open>handleStream\<close>: how the stream ended and what was sent on it before and beside the copy, whether
  the version warning has been given, and the counters. \<open>None\<close> while it is still copying.\<close>

definition handleStream :: "(bytes \<Rightarrow> Preamble option) \<Rightarrow> agent \<Rightarrow> bool \<Rightarrow> stream_env \<Rightarrow> bool \<Rightarrow> State \<Rightarrow>
    ((stream_end \<times> bytes) \<times> bool \<times> State) option" where
  "handleStream unmarshal ag accept env warned s =
     (if accept \<and> \<not> hs_accept env then Some ((NotAccepted, []), warned, s)
      else
        (let sent = (if accept then Accept else [])
         in case ReadPreamble unmarshal (hs_stream env) of
              Inl err \<Rightarrow>
                (if (case err of PreambleIO e \<Rightarrow> IsTeardown e | _ \<Rightarrow> False)
                 then Some ((ClosedBeforePreamble, sent), warned, s)
                 else Some ((PreambleFailed, sent), warned, State_Failure ReasonPreambleError s))
            | Inr (p, rest) \<Rightarrow>
                (let warned = (warned \<or> EdgeVersion p \<noteq> a_version ag)
                 in case Match (a_routes ag) (Host p) of
                      None \<Rightarrow> Some ((NoRoute, sent @ errpage_Write 502 ''Bad Gateway'' ''No backend for host'' (ConnID p)),
                                  warned, State_Failure ReasonNoRoute s)
                    | Some rt \<Rightarrow>
                        (if \<not> hs_dial env then
                           Some ((DialFailed, sent @ errpage_Write 502 ''Bad Gateway'' ''Backend unreachable'' (ConnID p)),
                                 warned, Route_Failure (Some (stats rt)) ReasonDialError s)
                         else
                           (let s = StreamOpened (Some (stats rt)) s;
                                (sb, s) = State_Bytes (stats rt) s
                            in case PipeProgress (hs_stream_first env)
                                   (reader_reads (hs_sizes env) rest, hs_service_writes env)
                                   (hs_service_reads env, hs_stream_writes env) of
                                 None \<Rightarrow> None
                               | Some (_, x, y) \<Rightarrow>
                                   Some ((Piped (service rt) x y, sent), warned,
                                     StreamClosed (Some (stats rt)) (add_reports (stats rt) sb (cp_reports x) (cp_reports y) s)))))))"

subsection \<open>The pauses between connections\<close>

lemma wrap64_id: "- (2 ^ 63) \<le> n \<Longrightarrow> n < 2 ^ 63 \<Longrightarrow> wrap64 n = n"
  by (simp add: wrap64_def)

lemma withJitter_bounds:
  assumes "rand_ok rnd" and "0 < d" and "d \<le> 2 ^ 62"
  shows "d div 2 \<le> withJitter rnd d \<and> withJitter rnd d < d div 2 + d"
proof -
  from assms(1,2) have r: "0 \<le> rnd d" "rnd d < d" by (simp_all add: rand_ok_def)
  have h: "0 \<le> d div 2" "d div 2 \<le> 2 ^ 61" using assms(2,3) by auto
  have "wrap64 (d div 2 + rnd d) = d div 2 + rnd d"
    by (rule wrap64_id) (use r h assms(3) in auto)
  with r assms(2) show ?thesis by (simp add: withJitter_def)
qed

lemma next_backoff_eq:
  assumes "0 < b" and "b \<le> mx" and "mx < 2 ^ 62"
  shows "next_backoff mx b = min mx (2 * b)"
proof -
  have "wrap64 (b * 2) = b * 2" by (rule wrap64_id) (use assms in auto)
  then show ?thesis by (simp add: next_backoff_def Let_def min_def)
qed

lemma Run_loop_Cons:
  "\<not> co_cancelled o' \<Longrightarrow> fst (Run_loop mn mx b s (o' # os)) =
     withJitter (co_rand o') (if co_stable o' then mn else b) #
     (if co_cancel_wait o' then []
      else fst (Run_loop mn mx (next_backoff mx (if co_stable o' then mn else b)) (Reconnect (tunnel_closed (co_err o') s)) os))"
  by (simp add: Let_def case_prod_unfold)

lemma Run_loop_bounds:
  assumes "0 < mn" and "mn \<le> mx" and "mx < 2 ^ 62" and "\<forall>o' \<in> set os. rand_ok (co_rand o')"
    and "mn \<le> b" and "b \<le> mx" and "w \<in> set (fst (Run_loop mn mx b s os))"
  shows "mn div 2 \<le> w \<and> w < mx div 2 + mx"
  using assms(4-7)
proof (induction os arbitrary: b s)
  case Nil
  then show ?case by simp
next
  case (Cons o' os)
  define b' where "b' = (if co_stable o' then mn else b)"
  have b': "mn \<le> b'" "b' \<le> mx" using Cons.prems(2,3) assms(2) by (auto simp: b'_def)
  have j: "b' div 2 \<le> withJitter (co_rand o') b' \<and> withJitter (co_rand o') b' < b' div 2 + b'"
    using Cons.prems(1) b' assms(1,3) by (intro withJitter_bounds) auto
  have nb: "mn \<le> next_backoff mx b'" "next_backoff mx b' \<le> mx"
    using next_backoff_eq [of b' mx] b' assms(1,3) by auto
  show ?case
  proof (cases "co_cancelled o'")
    case True
    then show ?thesis using Cons.prems(4) by simp
  next
    case False
    define s' where "s' = Reconnect (tunnel_closed (co_err o') s)"
    from Run_loop_Cons [OF False, of mn mx b s os] have
      "w = withJitter (co_rand o') b' \<or> w \<in> set (fst (Run_loop mn mx (next_backoff mx b') s' os))"
      using Cons.prems(4) unfolding b'_def [symmetric] s'_def [symmetric] by (auto split: if_splits)
    then show ?thesis
    proof
      assume "w = withJitter (co_rand o') b'"
      moreover from b' have "mn div 2 \<le> b' div 2" "b' div 2 \<le> mx div 2" by (auto intro: zdiv_mono1)
      ultimately show ?thesis using j b' by linarith
    next
      assume "w \<in> set (fst (Run_loop mn mx (next_backoff mx b') s' os))"
      then show ?thesis using Cons.IH [of "next_backoff mx b'" s'] Cons.prems(1) nb by simp
    qed
  qed
qed

text \<open>Connections that all fail quickly: the pauses double up to the maximum.\<close>

lemma Run_loop_doubles:
  assumes "0 < mn" and "mx < 2 ^ 62" and "\<forall>o' \<in> set os. rand_ok (co_rand o') \<and> \<not> co_stable o'"
    and "0 < b" and "b \<le> mx" and "k < length (fst (Run_loop mn mx b s os))"
  shows "min mx (b * 2 ^ k) div 2 \<le> fst (Run_loop mn mx b s os) ! k"
  using assms(3-6)
proof (induction os arbitrary: b s k)
  case Nil
  then show ?case by simp
next
  case (Cons o' os)
  have stb: "\<not> co_stable o'" using Cons.prems(1) by simp
  have can: "\<not> co_cancelled o'" using Cons.prems(4) by (cases "co_cancelled o'") auto
  define s' where "s' = Reconnect (tunnel_closed (co_err o') s)"
  from Run_loop_Cons [OF can, of mn mx b s os] stb have
    eq: "fst (Run_loop mn mx b s (o' # os)) = withJitter (co_rand o') b #
      (if co_cancel_wait o' then [] else fst (Run_loop mn mx (next_backoff mx b) s' os))" by (simp add: s'_def)
  show ?case
  proof (cases k)
    case 0
    have "b div 2 \<le> withJitter (co_rand o') b"
      using withJitter_bounds [of "co_rand o'" b] Cons.prems assms(2) by auto
    then show ?thesis using 0 Cons.prems(3) unfolding eq by simp
  next
    case (Suc j)
    define b' where "b' = next_backoff mx b"
    have b': "b' = min mx (2 * b)" unfolding b'_def using Cons.prems assms(2) by (intro next_backoff_eq)
    have w: "\<not> co_cancel_wait o'" using Cons.prems(4) Suc unfolding eq by (auto split: if_splits)
    have len: "j < length (fst (Run_loop mn mx b' s' os))" using Cons.prems(4) Suc w unfolding eq b'_def by simp
    have rest: "\<forall>o' \<in> set os. rand_ok (co_rand o') \<and> \<not> co_stable o'" using Cons.prems(1) by simp
    have pos: "0 < b'" "b' \<le> mx" using b' Cons.prems by auto
    have "min mx (b' * 2 ^ j) div 2 \<le> fst (Run_loop mn mx b' s' os) ! j"
      by (rule Cons.IH [OF rest pos len])
    moreover have "min mx (b * 2 ^ k) \<le> min mx (b' * 2 ^ j)"
    proof (cases "mx \<le> 2 * b")
      case True
      then have "mx \<le> b' * 2 ^ j" using b' pos mult_left_mono [of 1 "2 ^ j" b'] by auto
      then show ?thesis by simp
    next
      case False
      then show ?thesis using b' by (simp add: Suc mult.commute mult.left_commute)
    qed
    then have "min mx (b * 2 ^ k) div 2 \<le> min mx (b' * 2 ^ j) div 2" by (rule zdiv_mono1) simp
    moreover have "fst (Run_loop mn mx b s (o' # os)) ! k = fst (Run_loop mn mx b' s' os) ! j"
      unfolding eq b'_def using w Suc by simp
    ultimately show ?thesis by simp
  qed
qed

lemma Run_reconnects:
  "fst (Run_loop mn mx b s os) = ws \<Longrightarrow> \<forall>o' \<in> set os. \<not> co_cancelled o' \<and> \<not> co_cancel_wait o' \<Longrightarrow>
   length ws = length os \<and> reconnects (snd (Run_loop mn mx b s os)) = reconnects s + int (length os)"
proof (induction os arbitrary: b s ws)
  case Nil
  then show ?case by simp
next
  case (Cons o' os)
  then show ?case
    by (auto simp: Let_def case_prod_unfold tunnel_closed_def SetDisconnected_def SetError_def Reconnect_def split: option.splits)
qed

abbreviation failing_outcome :: connect_outcome where
  "failing_outcome \<equiv> \<lparr>co_stable = False, co_err = Some ''dial'', co_cancelled = False, co_rand = (\<lambda>d. 0), co_cancel_wait = False\<rparr>"

abbreviation sample_agent_config :: AgentConfig where
  "sample_agent_config \<equiv> \<lparr>Edge = \<lparr>Address = ''edge:4443'', er_CA = ''ca'', er_Cert = ''c'', er_Key = ''k'', EdgeFingerprint = ''ab'', Proxy = ''''\<rparr>,
     ARoutes = [\<lparr>ar_Host = ''a.nl'', Service = ''127.0.0.1:80''\<rparr>],
     Reconnect_cfg = \<lparr>MinBackoff = second, MaxBackoff = 3 * second\<rparr>, ADrain = 15 * second,
     ALog = \<lparr>Level = '''', Format = ''''\<rparr>, AAdminSocket = '''', AMetricsListen = '''', AVersion = ''v1''\<rparr>"

text \<open>With a positive minimum pause and a maximum no smaller than it (and below 146 years), every
  pause between two connections to the edge is at least half the minimum and below one and a half
  times the maximum; connections that keep failing pause twice as long each time until the
  maximum, so that the k-th pause is at least half of the smaller of the maximum and \<open>2 ^ k\<close> times
  the minimum.\<close>

theorem reconnect_backoff:
  assumes "0 < MinBackoff (Reconnect_cfg cfg)" and "MinBackoff (Reconnect_cfg cfg) \<le> MaxBackoff (Reconnect_cfg cfg)"
    and "MaxBackoff (Reconnect_cfg cfg) < 2 ^ 62" and "\<forall>o' \<in> set os. rand_ok (co_rand o')"
    and "Run cfg s os = (waits, s')"
  shows "(\<forall>w \<in> set waits. MinBackoff (Reconnect_cfg cfg) div 2 \<le> w \<and>
      w < MaxBackoff (Reconnect_cfg cfg) div 2 + MaxBackoff (Reconnect_cfg cfg)) \<and>
    ((\<forall>o' \<in> set os. \<not> co_stable o') \<longrightarrow> (\<forall>k < length waits.
      min (MaxBackoff (Reconnect_cfg cfg)) (MinBackoff (Reconnect_cfg cfg) * 2 ^ k) div 2 \<le> waits ! k))"
proof -
  define mn mx where "mn = MinBackoff (Reconnect_cfg cfg)" and "mx = MaxBackoff (Reconnect_cfg cfg)"
  have ws: "waits = fst (Run_loop mn mx mn s os)" using assms(5) by (simp add: Run_def Let_def mn_def mx_def)
  show ?thesis
    using Run_loop_bounds [of mn mx os mn _ s] Run_loop_doubles [of mn mx os mn _ s] assms(1-4)
    unfolding ws mn_def [symmetric] mx_def [symmetric] by auto
qed

lemma sample_run:
  "fst (Run sample_agent_config s [failing_outcome, failing_outcome, failing_outcome]) =
     [500000000, 1000000000, 1500000000]"
proof -
  have w: "withJitter (\<lambda>d. 0) 1000000000 = 500000000" "withJitter (\<lambda>d. 0) 2000000000 = 1000000000"
    "withJitter (\<lambda>d. 0) 3000000000 = 1500000000"
    by (simp_all add: withJitter_def wrap64_def)
  have n: "next_backoff 3000000000 1000000000 = 2000000000" "next_backoff 3000000000 2000000000 = 3000000000"
    by (simp_all add: next_backoff_def wrap64_def)
  show ?thesis
    by (simp add: Run_def second_def millisecond_def Let_def w n)
qed

theorem reconnect_backoff_witness:
  "fst (Run sample_agent_config (NewState ''agent'' 0) [failing_outcome, failing_outcome, failing_outcome]) =
     [500000000, 1000000000, 1500000000] \<and> second div 2 \<le> (500000000 :: int)"
proof -
  let ?os = "[failing_outcome, failing_outcome, failing_outcome]"
  let ?r = "Run sample_agent_config (NewState ''agent'' 0) ?os"
  have "rand_ok (\<lambda>d. 0)" by (simp add: rand_ok_def)
  moreover have "?r = ([500000000, 1000000000, 1500000000], snd ?r)"
    using sample_run [of "NewState ''agent'' 0"] by (metis prod.collapse)
  ultimately show ?thesis
    using reconnect_backoff [of sample_agent_config ?os "NewState ''agent'' 0" "[500000000, 1000000000, 1500000000]" "snd ?r"]
      sample_run [of "NewState ''agent'' 0"]
    by (simp add: second_def millisecond_def)
qed

text \<open>A negative minimum passes validation, and then there is no pause: \<^verbatim>\<open>time.After\<close> fires at once.\<close>

lemma negative_backoff_no_pause:
  assumes "MinBackoff (Reconnect_cfg cfg) < 0" and "\<forall>o' \<in> set os. co_stable o' \<and> \<not> co_cancelled o' \<and> \<not> co_cancel_wait o'"
  shows "agent_Validate services parse addrs (cfg\<lparr>Reconnect_cfg := r\<rparr>) = agent_Validate services parse addrs cfg"
    and "MinBackoff (Reconnect_cfg (agent_defaults cfg)) = MinBackoff (Reconnect_cfg cfg)"
    and "fst (Run cfg s os) = replicate (length os) (MinBackoff (Reconnect_cfg cfg))"
proof -
  show "agent_Validate services parse addrs (cfg\<lparr>Reconnect_cfg := r\<rparr>) = agent_Validate services parse addrs cfg"
    by (simp add: agent_Validate_def Let_def)
  show "MinBackoff (Reconnect_cfg (agent_defaults cfg)) = MinBackoff (Reconnect_cfg cfg)"
    using assms(1) by (simp add: agent_defaults_def default_duration_def)
  have "fst (Run_loop mn mx b s os) = replicate (length os) mn" if "mn < 0" for mn mx b
    using assms(2) that by (induction os arbitrary: b s) (auto simp: Let_def case_prod_unfold withJitter_def)
  with assms(1) show "fst (Run cfg s os) = replicate (length os) (MinBackoff (Reconnect_cfg cfg))"
    by (simp add: Run_def Let_def)
qed

subsection \<open>Connecting\<close>

text \<open>C35. One connection to the edge: with a pinned fingerprint, a session is served only to an edge
  whose certificate has that fingerprint, and otherwise the agent is never shown as connected;
  every attempt counts exactly one handshake, failed or completed; and the session speaks
  version 2 only if the handshake negotiated it.\<close>

theorem connect_pinned:
  assumes "connectOnce cfg env s = ((steady, err, served), s')"
  shows "(served \<noteq> None \<or> connected s' \<and> \<not> connected s \<longrightarrow>
      ce_dial env \<and> ce_handshake env \<and>
      (EdgeFingerprint (Edge cfg) = '''' \<or> EdgeFingerprint (Edge cfg) = ce_fp env) \<and> peerFP s' = ce_fp env) \<and>
    handshakeOK s' + handshakeFail s' = handshakeOK s + handshakeFail s + 1 \<and>
    handshakeOK s \<le> handshakeOK s' \<and> handshakeFail s \<le> handshakeFail s' \<and>
    (served = Some True \<longrightarrow> ce_proto env = ALPNv2) \<and>
    (steady \<longrightarrow> handshakeOK s' = handshakeOK s + 1 \<and> MinBackoff (Reconnect_cfg cfg) \<le> ce_lived env)"
  using assms
  by (auto simp: connectOnce_def Let_def HandshakeFail_def HandshakeOK_def SetConnected_def split: if_splits)

theorem connect_pinned_witness:
  "\<not> connected (snd (connectOnce sample_agent_config
     \<lparr>ce_dial = True, ce_handshake = True, ce_fp = ''cd'', ce_proto = ALPNv2, ce_now = 0, ce_session = True, ce_lived = 5 * second\<rparr>
     (NewState ''agent'' 0)))"
proof -
  let ?e = "\<lparr>ce_dial = True, ce_handshake = True, ce_fp = ''cd'', ce_proto = ALPNv2, ce_now = 0, ce_session = True, ce_lived = 5 * second\<rparr>"
  obtain st er sv s' where c: "connectOnce sample_agent_config ?e (NewState ''agent'' 0) = ((st, er, sv), s')"
    by (metis surj_pair)
  from connect_pinned [OF c] show ?thesis unfolding c by (auto simp: NewState_def)
qed

subsection \<open>Shutting down\<close>

lemmas shutdown_times = drainAckTimeout_def goAwayWait_def minHandoff_def minServe_def MinAckWait_def RetireWait_def
  second_def millisecond_def

lemma backlog_no_signal:
  "set (map (backlog_action b) qs) \<inter> {Retired, RefuseNew, CloseSession, StopAccept} = {}"
  "AskDrain d \<notin> set (map (backlog_action b) qs)" "GoAwayBounded d \<notin> set (map (backlog_action b) qs)"
  "DrainStreams d \<notin> set (map (backlog_action b) qs)"
  by (auto simp: backlog_action_def split: if_splits)

lemma handoff_retired: "count_list (handoff b env) Retired = (if se_v2 env then 1 else 0)"
proof -
  have "count_list (map (backlog_action b) qs) Retired = 0" for qs
    by (induction qs) (auto simp: backlog_action_def)
  then show ?thesis by (auto simp: handoff_def)
qed

lemma handoff_serve:
  "Serve q \<in> set (handoff b env) \<Longrightarrow> \<exists>t. (q, t) \<in> set (se_backlog env) \<and> minServe \<le> b - t"
  by (auto simp: handoff_def backlog_action_def split: if_splits)

lemma handoff_refuse_serve: "RefuseNew \<in> set (handoff b env) \<Longrightarrow> Serve q \<notin> set (handoff b env)"
  using backlog_no_signal(1) [of b "se_backlog env"] by (auto simp: handoff_def split: if_splits)

lemma handoff_waits:
  "AskDrain d \<in> set (handoff b env) \<Longrightarrow> GoAwayBounded g \<in> set (handoff b env) \<Longrightarrow>
   MinAckWait \<le> d \<and> d + g \<le> b - b div 4"
  using backlog_no_signal(2,3) [of _ b "se_backlog env"]
  by (auto simp: handoff_def shutdown_times split: if_splits)

lemma handoff_ask_goaway: "AskDrain d \<in> set (handoff b env) \<Longrightarrow> \<exists>g. GoAwayBounded g \<in> set (handoff b env)"
  using backlog_no_signal(2) [of _ b "se_backlog env"] by (auto simp: handoff_def split: if_splits)



subsection \<open>Streams in flight and the callback, in any interleaving\<close>

text \<open>The agent's shared state with what runs beside it: the handlers alive, and whether a callback
  was installed before the retirement.\<close>

record agent_sys =
  as_agent :: agent_state
  as_handlers :: nat
  as_installed :: bool

definition agent_start :: "agent_sys \<Rightarrow> bool" where
  "agent_start \<sigma> \<longleftrightarrow> \<sigma> = \<lparr>as_agent = new_agent, as_handlers = 0, as_installed = False\<rparr>"

inductive agent_step :: "agent_sys \<Rightarrow> agent_sys \<Rightarrow> bool" where
  step_install: "SetOnRetired (as_agent \<sigma>) = (ok, a) \<Longrightarrow>
    agent_step \<sigma> (\<sigma>\<lparr>as_agent := a, as_installed := as_installed \<sigma> \<or> ok\<rparr>)"
| step_retired: "agent_step \<sigma> (\<sigma>\<lparr>as_agent := agent_retired (as_agent \<sigma>)\<rparr>)"
| step_refuse: "agent_step \<sigma> (\<sigma>\<lparr>as_agent := refuseNew (as_agent \<sigma>)\<rparr>)"
| step_drain: "drainStreamsFor d completes (as_agent \<sigma>) = (w, a) \<Longrightarrow> agent_step \<sigma> (\<sigma>\<lparr>as_agent := a\<rparr>)"
| step_serve: "serveStream (as_agent \<sigma>) = (ok, a) \<Longrightarrow>
    agent_step \<sigma> (\<sigma>\<lparr>as_agent := a, as_handlers := (if ok then Suc (as_handlers \<sigma>) else as_handlers \<sigma>)\<rparr>)"
| step_done: "as_handlers \<sigma> = Suc n \<Longrightarrow> agent_step \<sigma> (\<sigma>\<lparr>as_agent := stream_done (as_agent \<sigma>), as_handlers := n\<rparr>)"

inductive_cases agent_stepE: "agent_step \<sigma> \<sigma>'"

lemmas agent_op_defs = SetOnRetired_def agent_retired_def refuseNew_def drainStreamsFor_def serveStream_def
  stream_done_def new_agent_def Let_def

definition agent_inv :: "agent_sys \<Rightarrow> bool" where
  "agent_inv \<sigma> \<longleftrightarrow> ag_inflight (as_agent \<sigma>) = int (as_handlers \<sigma>) \<and>
     ag_onRetired (as_agent \<sigma>) = as_installed \<sigma> \<and>
     ag_calls (as_agent \<sigma>) = (if ag_retiredDone (as_agent \<sigma>) \<and> as_installed \<sigma> then 1 else 0)"

lemma agent_step_inv: "agent_step \<sigma> \<sigma>' \<Longrightarrow> agent_inv \<sigma> \<Longrightarrow> agent_inv \<sigma>'"
  by (elim agent_stepE) (auto simp: agent_inv_def agent_op_defs split: if_splits)

interpretation agent_system: inductive_invariant agent_start agent_step agent_inv
proof unfold_locales
  show "agent_start s \<Longrightarrow> agent_inv s" for s by (simp add: agent_inv_def agent_start_def agent_op_defs)
  show "agent_inv s \<Longrightarrow> agent_step s t \<Longrightarrow> agent_inv t" for s t by (rule agent_step_inv)
qed

lemma agent_step_draining:
  "agent_step \<sigma> \<sigma>' \<Longrightarrow> ag_draining (as_agent \<sigma>) \<Longrightarrow>
   ag_draining (as_agent \<sigma>') \<and> as_handlers \<sigma>' \<le> as_handlers \<sigma>"
  by (elim agent_stepE) (auto simp: agent_op_defs split: if_splits)

lemma agent_steps_draining:
  "agent_step\<^sup>*\<^sup>* \<sigma> \<sigma>' \<Longrightarrow> ag_draining (as_agent \<sigma>) \<Longrightarrow>
   ag_draining (as_agent \<sigma>') \<and> as_handlers \<sigma>' \<le> as_handlers \<sigma>"
  by (induction rule: rtranclp_induct) (auto dest: agent_step_draining)

text \<open>C34. In every interleaving of the shutdown, the accept loop and the handlers: the agent's wait
  group counts exactly the handlers alive, so it is never negative; once new streams are refused
  the handlers only become fewer; and the retirement callback has run exactly once if it was
  installed before the retirement, and never otherwise.\<close>

theorem agent_streams_drain:
  assumes "reach agent_start agent_step \<sigma>" and "agent_step\<^sup>*\<^sup>* \<sigma> \<sigma>'"
  shows "ag_inflight (as_agent \<sigma>') = int (as_handlers \<sigma>') \<and>
    (ag_draining (as_agent \<sigma>) \<longrightarrow> as_handlers \<sigma>' \<le> as_handlers \<sigma>) \<and>
    ag_calls (as_agent \<sigma>') = (if ag_retiredDone (as_agent \<sigma>') \<and> as_installed \<sigma>' then 1 else 0)"
  using agent_system.steps_inv [OF assms(2) agent_system.reach_inv [OF assms(1)]] agent_steps_draining [OF assms(2)]
  by (simp add: agent_inv_def)

theorem agent_streams_drain_witness:
  "\<exists>\<sigma> \<sigma>'. reach agent_start agent_step \<sigma> \<and> ag_draining (as_agent \<sigma>) \<and> agent_step \<sigma> \<sigma>' \<and>
     ag_inflight (as_agent \<sigma>') = int (as_handlers \<sigma>') \<and> as_handlers \<sigma>' \<le> as_handlers \<sigma>"
proof -
  define s0 where "s0 = \<lparr>as_agent = new_agent, as_handlers = 0, as_installed = False\<rparr>"
  define s1 where "s1 = s0\<lparr>as_agent := snd (serveStream new_agent), as_handlers := 1\<rparr>"
  define s2 where "s2 = s1\<lparr>as_agent := refuseNew (as_agent s1)\<rparr>"
  have "reach agent_start agent_step s0" by (rule reach_init) (simp add: agent_start_def s0_def)
  moreover have "agent_step s0 s1"
    using step_serve [of s0 True "snd (serveStream new_agent)"] by (simp add: s0_def s1_def agent_op_defs)
  ultimately have r: "reach agent_start agent_step s1" by (rule reach_step)
  have "agent_step s1 s2" unfolding s2_def by (rule step_refuse)
  with r have r2: "reach agent_start agent_step s2" by (rule reach_step)
  have d: "as_handlers s2 = Suc 0" "ag_draining (as_agent s2)" by (simp_all add: s2_def s1_def s0_def agent_op_defs)
  from step_done [OF d(1)] have "agent_step s2 (s2\<lparr>as_agent := stream_done (as_agent s2), as_handlers := 0\<rparr>)" .
  with r2 d agent_streams_drain [OF r2 r_into_rtranclp] show ?thesis by blast
qed

subsection \<open>What handling a stream counts and delivers\<close>

lemma reader_reads_prefix: "prefix (concat (map fst (reader_reads ns r))) (avail r)"
proof (induction ns arbitrary: r)
  case Nil
  then show ?case by (simp add: reader_reads.simps)
next
  case (Cons n ns)
  show ?case using Cons.IH [of "r\<lparr>avail := drop n (avail r)\<rparr>"]
    by (subst reader_reads.simps) (auto simp: prefix_def, metis append.assoc append_take_drop_id)
qed

text \<open>A read that reports an end is the last one, and then every byte has been read.\<close>

lemma reader_reads_end:
  "k < length (reader_reads ns r) \<Longrightarrow> snd (reader_reads ns r ! k) = Some e \<Longrightarrow>
   concat (map fst (take (Suc k) (reader_reads ns r))) = avail r"
proof (induction ns arbitrary: r k)
  case Nil
  then show ?case by (auto simp: reader_reads.simps split: if_splits)
next
  case (Cons n ns)
  show ?case
  proof (cases "avail r = []")
    case True
    with Cons.prems show ?thesis by (simp add: reader_reads.simps)
  next
    case False
    let ?r = "r\<lparr>avail := drop n (avail r)\<rparr>"
    have eq: "reader_reads (n # ns) r = (take n (avail r), None) # reader_reads ns ?r"
      using False by (simp add: reader_reads.simps)
    from Cons.prems obtain j where j: "k = Suc j" unfolding eq by (cases k) auto
    from Cons.prems j have "concat (map fst (take (Suc j) (reader_reads ns ?r))) = avail ?r"
      unfolding eq by (intro Cons.IH) auto
    then show ?thesis by (simp add: eq j)
  qed
qed

lemma handleStream_Piped:
  assumes "handleStream unmarshal ag accept env warned s = Some ((Piped svc x y, sent), warned', s')"
  shows "\<exists>p rest rt res. ReadPreamble unmarshal (hs_stream env) = Inr (p, rest) \<and> Match (a_routes ag) (Host p) = Some rt \<and>
    svc = service rt \<and> hs_dial env \<and> sent = (if accept then Accept else []) \<and>
    PipeProgress (hs_stream_first env) (reader_reads (hs_sizes env) rest, hs_service_writes env)
      (hs_service_reads env, hs_stream_writes env) = Some (res, x, y) \<and>
    s' = StreamClosed (Some (stats rt)) (add_reports (stats rt) (fst (State_Bytes (stats rt) (StreamOpened (Some (stats rt)) s)))
      (cp_reports x) (cp_reports y) (snd (State_Bytes (stats rt) (StreamOpened (Some (stats rt)) s))))"
  using assms
  by (auto simp: handleStream_def Let_def case_prod_unfold
      split: if_splits sum.splits option.splits preamble_error.splits)

text \<open>Handling a stream leaves the number of active streams as it was and counts exactly its own
  end: one stream when it reached its backend, an unrouted failure when its preamble was
  malformed or no route takes its host, nothing when the stream closed before a preamble. The
  accept byte is the first thing sent, on version 2 sessions only, before anything is read. A
  stream that reached its backend adds to its route one stream and exactly the bytes copied.\<close>

theorem handleStream_accounts:
  assumes "handleStream unmarshal ag accept env warned s = Some ((e, sent), warned', s')"
  shows "activeStreams s' = activeStreams s \<and>
    totalStreams s' = totalStreams s + (case e of Piped _ _ _ \<Rightarrow> 1 | _ \<Rightarrow> 0) \<and>
    unrouted s' = (case e of PreambleFailed \<Rightarrow> reason_inc ReasonPreambleError (unrouted s)
      | NoRoute \<Rightarrow> reason_inc ReasonNoRoute (unrouted s) | _ \<Rightarrow> unrouted s) \<and>
    (e \<noteq> NotAccepted \<longrightarrow> prefix (if accept then Accept else []) sent) \<and>
    (\<forall>svc x y p rest rt r. e = Piped svc x y \<longrightarrow> ReadPreamble unmarshal (hs_stream env) = Inr (p, rest) \<longrightarrow>
       Match (a_routes ag) (Host p) = Some rt \<longrightarrow> map_of (routes s) (stats rt) = Some r \<longrightarrow> shards_ok r \<longrightarrow>
       (\<exists>r'. map_of (routes s') (stats rt) = Some r' \<and> ractive r' = ractive r \<and> rtotal r' = rtotal r + 1 \<and>
          byteTotals r' = (fst (byteTotals r) + sum_list (cp_reports x), snd (byteTotals r) + sum_list (cp_reports y))))"
proof (cases "\<exists>svc x y. e = Piped svc x y")
  case True
  then obtain svc x y where e: "e = Piped svc x y" by blast
  from handleStream_Piped [OF assms [unfolded e]] obtain p rest rt where
    rp: "ReadPreamble unmarshal (hs_stream env) = Inr (p, rest)" "Match (a_routes ag) (Host p) = Some rt"
    and sent: "sent = (if accept then Accept else [])"
    and s': "s' = StreamClosed (Some (stats rt)) (add_reports (stats rt) (fst (State_Bytes (stats rt) (StreamOpened (Some (stats rt)) s)))
      (cp_reports x) (cp_reports y) (snd (State_Bytes (stats rt) (StreamOpened (Some (stats rt)) s))))"
    by blast
  have "activeStreams s' = activeStreams s" "totalStreams s' = totalStreams s + 1" "unrouted s' = unrouted s"
    by (simp_all add: s')
  moreover have "\<exists>r'. map_of (routes s') (stats rt) = Some r' \<and> ractive r' = ractive r \<and> rtotal r' = rtotal r + 1 \<and>
      byteTotals r' = (fst (byteTotals r) + sum_list (cp_reports x), snd (byteTotals r) + sum_list (cp_reports y))"
    if "map_of (routes s) (stats rt) = Some r" "shards_ok r" for r
    unfolding s' by (rule piped_route_counters [OF that])
  ultimately show ?thesis by (simp add: e rp sent)
next
  case False
  then show ?thesis using assms
    by (auto simp: handleStream_def Let_def case_prod_unfold State_Failure_def Route_Failure_def
        split: if_splits sum.splits option.splits preamble_error.splits)
qed

lemma piped_stream:
  assumes "handleStream unmarshal ag accept env warned s = Some ((Piped svc x y, sent), warned', s')"
    and "ReadPreamble unmarshal (hs_stream env) = Inr (p, rest)"
    and "writer_ok (reader_reads (hs_sizes env) rest) (hs_service_writes env)"
  shows "\<exists>rt. Match (a_routes ag) (Host p) = Some rt \<and> svc = service rt \<and> prefix (cp_bytes x) (avail rest) \<and>
    cp_n x = int (length (cp_bytes x)) \<and> (cp_err x = None \<longrightarrow> cp_bytes x = avail rest)"
proof -
  from handleStream_Piped [OF assms(1)] assms(2) obtain rt res where
    m: "Match (a_routes ag) (Host p) = Some rt" "svc = service rt"
    and pp: "PipeProgress (hs_stream_first env) (reader_reads (hs_sizes env) rest, hs_service_writes env)
      (hs_service_reads env, hs_stream_writes env) = Some (res, x, y)" by auto
  from pp have c: "Copy (reader_reads (hs_sizes env) rest) (hs_service_writes env) = Some x"
    by (auto simp: PipeProgress_def split: option.splits)
  have pre: "prefix (cp_bytes x) (avail rest)"
    using Copy_ok(2) [OF assms(3) c] reader_reads_prefix prefix_order.trans by blast
  have "cp_bytes x = avail rest" if "cp_err x = None"
  proof -
    from Copy_complete [OF c that] obtain k where k: "k < length (reader_reads (hs_sizes env) rest)"
      "snd (reader_reads (hs_sizes env) rest ! k) = Some EOF"
      "cp_bytes x = concat (map fst (take (Suc k) (reader_reads (hs_sizes env) rest)))" by blast
    then show ?thesis using reader_reads_end [OF k(1,2)] by simp
  qed
  then show ?thesis using m pre Copy_ok(1) [OF assms(3) c] by (auto simp: copied_ok_def)
qed

text \<open>A stream that reached a backend reached the one its host's route names, and what the backend
  was sent is, byte for byte, the beginning of what follows the preamble on the stream; when the
  direction to it ended without an error, it got all of that up to the end of the stream.\<close>

theorem handleStream_delivers:
  assumes "handleStream unmarshal ag accept env warned s = Some ((Piped svc x y, sent), warned', s')"
    and "ReadPreamble unmarshal (hs_stream env) = Inr (p, rest)"
    and "writer_ok (reader_reads (hs_sizes env) rest) (hs_service_writes env)"
  shows "\<exists>rt. Match (a_routes ag) (Host p) = Some rt \<and> svc = service rt \<and> prefix (cp_bytes x) (avail rest) \<and>
    cp_n x = int (length (cp_bytes x)) \<and> (cp_err x = None \<longrightarrow> cp_bytes x = avail rest)"
  using assms by (rule piped_stream)

definition sample_stream_env :: stream_env where
  "sample_stream_env = \<lparr>hs_accept = True,
     hs_stream = \<lparr>avail = (PutUint16 (of_nat (length (Marshal sample_preamble))) @ Marshal sample_preamble) @ ''GET'', ending = EOF\<rparr>,
     hs_dial = True, hs_sizes = [2, 2], hs_service_writes = [(2, None), (1, None)],
     hs_service_reads = [(''OK'', None), ('''', Some ErrNetClosed)], hs_stream_writes = [(2, None)], hs_stream_first = True\<rparr>"

definition sample_agent :: agent where
  "sample_agent = \<lparr>a_routes = Build [agent_entry \<lparr>ar_Host = ''a.b'', Service = ''s:80''\<rparr>], a_serverName = ''e'', a_version = ''v1''\<rparr>"

definition sample_copied :: "copied \<times> copied" where
  "sample_copied = (\<lparr>cp_n = 3, cp_err = None, cp_reports = [2, 1], cp_bytes = ''GET''\<rparr>,
     \<lparr>cp_n = 2, cp_err = Some (CopyIO ErrNetClosed), cp_reports = [2], cp_bytes = ''OK''\<rparr>)"

lemma sample_match: "Match (a_routes sample_agent) (Host sample_preamble) = Some \<lparr>service = ''s:80'', stats = ''a.b''\<rparr>"
  unfolding sample_agent_def by code_simp

lemma sample_read: "ReadPreamble sample_decoder (hs_stream sample_stream_env) = Inr (sample_preamble, \<lparr>avail = ''GET'', ending = EOF\<rparr>)"
  using ReadPreamble_frame [OF sample_frame, of sample_decoder "''GET''" EOF] by (simp add: sample_stream_env_def)

lemma sample_reads: "reader_reads (hs_sizes sample_stream_env) \<lparr>avail = ''GET'', ending = EOF\<rparr> = [(''GE'', None), (''T'', None), ([], Some EOF)]"
  by (simp add: sample_stream_env_def reader_reads.simps)

lemma sample_handled:
  "\<exists>s'. handleStream sample_decoder sample_agent True sample_stream_env False (State_Route ''a.b'' (NewState ''agent'' 0)) =
     Some ((Piped ''s:80'' (fst sample_copied) (snd sample_copied), Accept), True, s')"
proof -
  have "PipeProgress (hs_stream_first sample_stream_env) (reader_reads (hs_sizes sample_stream_env) \<lparr>avail = ''GET'', ending = EOF\<rparr>, hs_service_writes sample_stream_env)
      (hs_service_reads sample_stream_env, hs_stream_writes sample_stream_env) = Some ((3, 2, None), fst sample_copied, snd sample_copied)"
    unfolding sample_reads by (simp add: sample_stream_env_def PipeProgress_def Copy_def progress_Write_def benign_end_def sample_copied_def)
  moreover have "hs_accept sample_stream_env" "hs_dial sample_stream_env" by (simp_all add: sample_stream_env_def)
  ultimately show ?thesis
    unfolding handleStream_def sample_read using sample_match
    by (simp add: sample_agent_def [THEN arg_cong [of _ _ a_version]] Let_def split_beta)
qed

theorem handleStream_accounts_witness:
  "\<exists>s' r'. handleStream sample_decoder sample_agent True sample_stream_env False (State_Route ''a.b'' (NewState ''agent'' 0)) =
     Some ((Piped ''s:80'' (fst sample_copied) (snd sample_copied), Accept), True, s') \<and>
     activeStreams s' = 0 \<and> totalStreams s' = 1 \<and> map_of (routes s') ''a.b'' = Some r' \<and> byteTotals r' = (3, 2)"
proof -
  let ?s = "State_Route ''a.b'' (NewState ''agent'' 0)"
  obtain s' where h: "handleStream sample_decoder sample_agent True sample_stream_env False ?s =
     Some ((Piped ''s:80'' (fst sample_copied) (snd sample_copied), Accept), True, s')" using sample_handled by blast
  have r: "map_of (routes ?s) (stats \<lparr>service = ''s:80'', stats = ''a.b''\<rparr>) = Some (new_RouteStats ''a.b'')"
    by (simp add: State_Route_def NewState_def)
  have z: "byteTotals (new_RouteStats ''a.b'') = (0, 0)" by (simp add: byteTotals_sums new_RouteStats_def sum_list_replicate)
  have "\<exists>r'. map_of (routes s') ''a.b'' = Some r' \<and> byteTotals r' = (3, 2)"
    using handleStream_accounts [OF h] sample_read sample_match r shards_ok_new [of "''a.b''"]
    by (fastforce simp: sample_copied_def z)
  moreover have "activeStreams s' = 0" "totalStreams s' = 1"
    using handleStream_accounts [OF h] by (simp_all add: State_Route_def NewState_def)
  ultimately show ?thesis using h by blast
qed

theorem handleStream_delivers_witness:
  "cp_bytes (fst sample_copied) = ''GET'' \<and>
   (\<exists>rt. Match (a_routes sample_agent) (Host sample_preamble) = Some rt \<and> ''s:80'' = service rt)"
proof -
  obtain s' where h: "handleStream sample_decoder sample_agent True sample_stream_env False (State_Route ''a.b'' (NewState ''agent'' 0)) =
     Some ((Piped ''s:80'' (fst sample_copied) (snd sample_copied), Accept), True, s')" using sample_handled by blast
  have "writer_ok (reader_reads (hs_sizes sample_stream_env) \<lparr>avail = ''GET'', ending = EOF\<rparr>) (hs_service_writes sample_stream_env)"
    unfolding sample_reads by (simp add: sample_stream_env_def)
  from handleStream_delivers [OF h sample_read this] show ?thesis by (auto simp: sample_copied_def)
qed

end
