(* ===== verification/Reload.thy ===== *)
theory Reload
  imports Agent
begin

text \<open>
  Replacing a running agent without a gap: package \<^verbatim>\<open>internal/handoff\<close> (the two pipes between the
  running process and its replacement), the replacer of \<^verbatim>\<open>internal/cli/replace.go\<close> and the
  notifications of \<^verbatim>\<open>internal/sdnotify\<close>. The first part has each operation with what it observes as
  arguments; the second runs the running agent, its replacements and systemd as one transition
  system, whose steps are the operations (or, between the points where another process can act,
  the parts of them).
\<close>

subsection \<open>Starting a replacement (handoff.go)\<close>

definition envFDs :: string where
  "envFDs = ''COEN_HANDOFF_FDS''"

definition msgPrepared :: char where
  "msgPrepared = CHR ''P''"

definition msgGo :: char where
  "msgGo = CHR ''G''"

text \<open>The four ends of the two pipes. \<^verbatim>\<open>Start\<close>: whether each pipe could be made and the process
  started; the result, the ends this process has open afterwards, the ends the replacement has,
  and its environment.\<close>

datatype fd = GoR | GoW | PrepR | PrepW

definition Start :: "bool \<Rightarrow> bool \<Rightarrow> bool \<Rightarrow> (string \<times> string) list \<Rightarrow> bool \<times> fd set \<times> fd list \<times> (string \<times> string) list" where
  "Start pipe1 pipe2 start_ok env =
     (if \<not> pipe1 then (False, {}, [], [])
      else (let open1 = {GoR, GoW}
        in if \<not> pipe2 then (False, open1 - {GoR} - {GoW}, [], [])
           else (let open2 = open1 \<union> {PrepR, PrepW}; env' = env @ [(envFDs, ''3,4'')]; open3 = open2 - {GoR} - {PrepW}
             in if \<not> start_ok then (False, open3 - {GoW} - {PrepR}, [], [])
                else (True, open3, [GoR, PrepW], env'))))"

text \<open>\<^verbatim>\<open>WaitPrepared\<close>: a byte from the replacement, a failed read, or the timeout, whichever came
  first; the error, if any, after which the replacement has been killed.\<close>

datatype prep_event = Reported char | PipeEnded | PipeFailed | PrepTimeout

datatype prep_error = ExitedBeforeReady | StoppedBadMessage char | StoppedReadError | NotReadyInTime

definition WaitPrepared :: "prep_event \<Rightarrow> prep_error option" where
  "WaitPrepared e = (case e of
      Reported b \<Rightarrow> if b \<noteq> msgPrepared then Some (StoppedBadMessage b) else None
    | PipeEnded \<Rightarrow> Some ExitedBeforeReady
    | PipeFailed \<Rightarrow> Some StoppedReadError
    | PrepTimeout \<Rightarrow> Some NotReadyInTime)"

subsection \<open>The replacement's side (handoff.go)\<close>

datatype fds_error = WantTwoFDs | BadFD string

text \<open>\<^verbatim>\<open>FromEnv\<close>: the variable's value, if it is set; the descriptors of the predecessor's pipes.\<close>

fun parse_fds :: "string list \<Rightarrow> fds_error + int list" where
  "parse_fds [] = Inr []"
| "parse_fds (p # ps) = (case Atoi p of
      None \<Rightarrow> Inl (BadFD p)
    | Some n \<Rightarrow>
        if n < 3 then Inl (BadFD p)
        else (case parse_fds ps of Inl e \<Rightarrow> Inl e | Inr ns \<Rightarrow> Inr (n # ns)))"

definition FromEnv :: "string option \<Rightarrow> fds_error + (int \<times> int) option" where
  "FromEnv v = (case v of
      None \<Rightarrow> Inr None
    | Some s \<Rightarrow>
        (let parts = Split s '',''
         in if length parts \<noteq> 2 then Inl WantTwoFDs
            else (case parse_fds parts of
                Inl e \<Rightarrow> Inl e
              | Inr fds \<Rightarrow> Inr (Some (fds ! 0, fds ! 1)))))"

text \<open>\<^verbatim>\<open>WaitGo\<close>: the byte read (\<open>None\<close> for a failed read), or the timeout.\<close>

datatype go_event = GoRead "char option" | GoTimeout

definition WaitGo :: "go_event \<Rightarrow> bool" where
  "WaitGo e = (case e of GoRead b \<Rightarrow> b = Some msgGo | GoTimeout \<Rightarrow> False)"

text \<open>\<^verbatim>\<open>awaitTurn\<close> of replace.go: an error ends the process; otherwise it starts, on the go-ahead
  or without it.\<close>

datatype turn = NormalStart | TookGo | StartedAnyway

definition awaitTurn :: "string option \<Rightarrow> bool \<Rightarrow> go_event \<Rightarrow> turn option" where
  "awaitTurn v report_ok e = (case FromEnv v of
      Inl _ \<Rightarrow> None
    | Inr None \<Rightarrow> Some NormalStart
    | Inr (Some _) \<Rightarrow>
        if \<not> report_ok then None
        else if WaitGo e then Some TookGo else Some StartedAnyway)"

subsection \<open>Notifying systemd (sdnotify.go)\<close>

definition Available :: "string \<Rightarrow> bool" where
  "Available notify_socket \<longleftrightarrow> notify_socket \<noteq> []"

text \<open>\<^verbatim>\<open>Notify\<close>: the address a datagram is sent to, if any, whether there was a socket, and the error.\<close>

definition Notify :: "string \<Rightarrow> string option \<Rightarrow> string option \<Rightarrow> string option \<times> bool \<times> string option" where
  "Notify path dial_err write_err =
     (if path = [] then (None, False, None)
      else (let path' = (if HasPrefix path ''@'' then CHR 0x00 # drop 1 path else path)
        in case dial_err of Some e \<Rightarrow> (None, True, Some e) | None \<Rightarrow> (Some path', True, write_err)))"

subsection \<open>The state of a reload (replace.go)\<close>

type_synonym pid = nat

record successor_proc =
  sp_alive :: bool
  sp_prepared :: bool  \<comment> \<open>it has reported\<close>
  sp_go :: bool  \<comment> \<open>the go-ahead is in its pipe\<close>
  sp_turn :: "turn option"  \<comment> \<open>it has gone on to bind and connect\<close>

text \<open>Where \<^verbatim>\<open>replace\<close> and \<^verbatim>\<open>handOver\<close> are.\<close>

datatype stage = Idle | Starting pid | Ready pid | Checked pid | Installed pid

datatype hand = NotRetired | CheckExited pid | TellSystemd pid | GiveGo pid | HandOver_done

record reload_state =
  rs_agent :: agent_state
  rs_ctx :: bool  \<comment> \<open>the running agent's context is done\<close>
  rs_draining :: bool
  rs_busy :: bool
  rs_handoverFailed :: bool
  rs_stage :: stage
  rs_target :: "pid option"  \<comment> \<open>the replacement the callback hands over to\<close>
  rs_hand :: hand
  rs_main :: pid  \<comment> \<open>the main process systemd watches\<close>
  rs_procs :: "pid \<rightharpoonup> successor_proc"
  rs_exit :: "bool option"  \<comment> \<open>the running agent has exited, with status zero or not\<close>

definition on_proc :: "pid \<Rightarrow> (successor_proc \<Rightarrow> successor_proc) \<Rightarrow> reload_state \<Rightarrow> reload_state" where
  "on_proc p f \<sigma> = (case rs_procs \<sigma> p of
      None \<Rightarrow> \<sigma>
    | Some s \<Rightarrow> \<sigma>\<lparr>rs_procs := (rs_procs \<sigma>)(p \<mapsto> f s)\<rparr>)"

definition Stop :: "pid \<Rightarrow> reload_state \<Rightarrow> reload_state" where
  "Stop p = on_proc p (\<lambda>s. s\<lparr>sp_alive := False\<rparr>)"

definition is_alive :: "reload_state \<Rightarrow> pid \<Rightarrow> bool" where
  "is_alive \<sigma> p = (case rs_procs \<sigma> p of None \<Rightarrow> False | Some s \<Rightarrow> sp_alive s)"

datatype replace_error = AlreadyShuttingDown | AlreadyUnderWay | StartFailed | NotPrepared prep_error
  | BeganShuttingDown | AlreadySteppedAside

text \<open>\<^verbatim>\<open>replace\<close>, up to the wait for the replacement; \<^verbatim>\<open>spawned\<close> is the process started, if it was.\<close>

definition replace_start :: "pid option \<Rightarrow> reload_state \<Rightarrow> replace_error option \<times> reload_state" where
  "replace_start spawned \<sigma> =
     (if rs_ctx \<sigma> then (Some AlreadyShuttingDown, \<sigma>)
      else if rs_busy \<sigma> then (Some AlreadyUnderWay, \<sigma>)
      else (case spawned of
          None \<Rightarrow> (Some StartFailed, \<sigma>\<lparr>rs_busy := False\<rparr>)
        | Some p \<Rightarrow> (None, \<sigma>\<lparr>rs_busy := True, rs_stage := Starting p,
            rs_procs := (rs_procs \<sigma>)(p \<mapsto> \<lparr>sp_alive = True, sp_prepared = False, sp_go = False, sp_turn = None\<rparr>)\<rparr>)))"

definition replace_prepared :: "pid \<Rightarrow> prep_event \<Rightarrow> reload_state \<Rightarrow> replace_error option \<times> reload_state" where
  "replace_prepared p e \<sigma> = (case WaitPrepared e of
      Some err \<Rightarrow> (Some (NotPrepared err), (Stop p \<sigma>)\<lparr>rs_busy := False, rs_stage := Idle\<rparr>)
    | None \<Rightarrow> (None, \<sigma>\<lparr>rs_stage := Ready p\<rparr>))"

definition replace_abort :: "pid \<Rightarrow> reload_state \<Rightarrow> reload_state" where
  "replace_abort p \<sigma> = (Stop p \<sigma>)\<lparr>rs_busy := False, rs_stage := Idle\<rparr>"

definition replace_check :: "pid \<Rightarrow> reload_state \<Rightarrow> replace_error option \<times> reload_state" where
  "replace_check p \<sigma> =
     (if rs_ctx \<sigma> then (Some BeganShuttingDown, replace_abort p \<sigma>) else (None, \<sigma>\<lparr>rs_stage := Checked p\<rparr>))"

definition replace_install :: "pid \<Rightarrow> reload_state \<Rightarrow> replace_error option \<times> reload_state" where
  "replace_install p \<sigma> = (case SetOnRetired (rs_agent \<sigma>) of (ok, a) \<Rightarrow>
     if \<not> ok then (Some AlreadySteppedAside, replace_abort p \<sigma>)
     else (None, \<sigma>\<lparr>rs_agent := a, rs_target := Some p, rs_stage := Installed p\<rparr>))"

definition replace_leave :: "pid \<Rightarrow> reload_state \<Rightarrow> reload_state" where
  "replace_leave p \<sigma> = \<sigma>\<lparr>rs_draining := True, rs_ctx := True, rs_stage := Idle\<rparr>"

text \<open>\<^verbatim>\<open>handOver\<close>, which the retirement runs: it looks whether the replacement is still there, tells
  systemd, and gives the go-ahead.\<close>

definition handOver_check :: "pid \<Rightarrow> reload_state \<Rightarrow> reload_state" where
  "handOver_check p \<sigma> =
     (if \<not> is_alive \<sigma> p then \<sigma>\<lparr>rs_handoverFailed := True, rs_hand := HandOver_done\<rparr>
      else \<sigma>\<lparr>rs_hand := TellSystemd p\<rparr>)"

definition handOver_tell :: "bool \<Rightarrow> pid \<Rightarrow> reload_state \<Rightarrow> reload_state" where
  "handOver_tell ok p \<sigma> =
     (if \<not> ok then (Stop p \<sigma>)\<lparr>rs_handoverFailed := True, rs_hand := HandOver_done\<rparr>
      else \<sigma>\<lparr>rs_main := p, rs_hand := GiveGo p\<rparr>)"

definition handOver_go :: "pid \<Rightarrow> reload_state \<Rightarrow> reload_state" where
  "handOver_go p \<sigma> =
     (let \<sigma>' = (if is_alive \<sigma> p then on_proc p (\<lambda>s. s\<lparr>sp_go := True\<rparr>) \<sigma> else \<sigma>) in \<sigma>'\<lparr>rs_hand := HandOver_done\<rparr>)"

text \<open>\<^verbatim>\<open>retired\<close> of the agent runs the callback once, if it is set.\<close>

definition reload_retired :: "reload_state \<Rightarrow> reload_state" where
  "reload_retired \<sigma> =
     (let a = agent_retired (rs_agent \<sigma>); \<sigma>' = \<sigma>\<lparr>rs_agent := a\<rparr>
      in if ag_calls a = ag_calls (rs_agent \<sigma>) then \<sigma>'
         else (case rs_target \<sigma> of None \<Rightarrow> \<sigma>' | Some p \<Rightarrow> \<sigma>'\<lparr>rs_hand := CheckExited p\<rparr>))"

text \<open>\<^verbatim>\<open>failed\<close>, from which the exit status follows.\<close>

definition reload_failed :: "reload_state \<Rightarrow> bool" where
  "reload_failed \<sigma> = rs_handoverFailed \<sigma>"

subsection \<open>The running agent, its replacements and systemd\<close>

definition reload_init :: "pid \<Rightarrow> reload_state \<Rightarrow> bool" where
  "reload_init self \<sigma> \<longleftrightarrow> \<sigma> = \<lparr>rs_agent = new_agent, rs_ctx = False, rs_draining = False, rs_busy = False,
     rs_handoverFailed = False, rs_stage = Idle, rs_target = None, rs_hand = NotRetired, rs_main = self,
     rs_procs = Map.empty, rs_exit = None\<rparr>"

text \<open>The steps of the running agent need it to be running; the signal that stops it and the retirement
  may come at any time, the latter once its context is done; it exits when its run has ended, with
  the callback. A replacement reports, goes on with the go-ahead or without it (its wait ran out,
  or the pipe closed), or dies.\<close>

inductive reload_step :: "pid \<Rightarrow> reload_state \<Rightarrow> reload_state \<Rightarrow> bool" for self :: pid where
  r_start: "rs_exit \<sigma> = None \<Longrightarrow> (case sp of None \<Rightarrow> True | Some p \<Rightarrow> p \<noteq> self \<and> rs_procs \<sigma> p = None) \<Longrightarrow>
    reload_step self \<sigma> (snd (replace_start sp \<sigma>))"
| r_prepared: "rs_exit \<sigma> = None \<Longrightarrow> rs_stage \<sigma> = Starting p \<Longrightarrow> rs_procs \<sigma> p = Some s \<Longrightarrow>
    (WaitPrepared e = None \<Longrightarrow> sp_prepared s) \<Longrightarrow> reload_step self \<sigma> (snd (replace_prepared p e \<sigma>))"
| r_check: "rs_exit \<sigma> = None \<Longrightarrow> rs_stage \<sigma> = Ready p \<Longrightarrow> reload_step self \<sigma> (snd (replace_check p \<sigma>))"
| r_install: "rs_exit \<sigma> = None \<Longrightarrow> rs_stage \<sigma> = Checked p \<Longrightarrow> reload_step self \<sigma> (snd (replace_install p \<sigma>))"
| r_leave: "rs_exit \<sigma> = None \<Longrightarrow> rs_stage \<sigma> = Installed p \<Longrightarrow> reload_step self \<sigma> (replace_leave p \<sigma>)"
| r_signal: "rs_exit \<sigma> = None \<Longrightarrow> reload_step self \<sigma> (\<sigma>\<lparr>rs_draining := True, rs_ctx := True\<rparr>)"
| r_retired: "rs_exit \<sigma> = None \<Longrightarrow> rs_ctx \<sigma> \<Longrightarrow> reload_step self \<sigma> (reload_retired \<sigma>)"
| r_hand_check: "rs_exit \<sigma> = None \<Longrightarrow> rs_hand \<sigma> = CheckExited p \<Longrightarrow> reload_step self \<sigma> (handOver_check p \<sigma>)"
| r_hand_tell: "rs_exit \<sigma> = None \<Longrightarrow> rs_hand \<sigma> = TellSystemd p \<Longrightarrow> reload_step self \<sigma> (handOver_tell ok p \<sigma>)"
| r_hand_go: "rs_exit \<sigma> = None \<Longrightarrow> rs_hand \<sigma> = GiveGo p \<Longrightarrow> reload_step self \<sigma> (handOver_go p \<sigma>)"
| r_exit: "rs_exit \<sigma> = None \<Longrightarrow> rs_ctx \<sigma> \<Longrightarrow> ag_retiredDone (rs_agent \<sigma>) \<Longrightarrow> rs_hand \<sigma> \<in> {NotRetired, HandOver_done} \<Longrightarrow>
    reload_step self \<sigma> (\<sigma>\<lparr>rs_exit := Some (\<not> reload_failed \<sigma>)\<rparr>)"
| s_prepared: "rs_procs \<sigma> p = Some s \<Longrightarrow> sp_alive s \<Longrightarrow>
    reload_step self \<sigma> (on_proc p (\<lambda>s. if rs_exit \<sigma> = None then s\<lparr>sp_prepared := True\<rparr> else s\<lparr>sp_alive := False\<rparr>) \<sigma>)"
| s_turn: "rs_procs \<sigma> p = Some s \<Longrightarrow> sp_alive s \<Longrightarrow> sp_prepared s \<Longrightarrow> sp_turn s = None \<Longrightarrow>
    (e = GoRead (Some msgGo) \<Longrightarrow> sp_go s) \<Longrightarrow> awaitTurn (Some ''3,4'') True e = Some t \<Longrightarrow>
    reload_step self \<sigma> (on_proc p (\<lambda>s. s\<lparr>sp_turn := Some t\<rparr>) \<sigma>)"
| s_dies: "reload_step self \<sigma> (Stop p \<sigma>)"

inductive_cases reload_stepE: "reload_step self \<sigma> \<sigma>'"

subsection \<open>What holds in every interleaving\<close>

definition stage_pid :: "stage \<Rightarrow> pid option" where
  "stage_pid st = (case st of Idle \<Rightarrow> None | Starting p \<Rightarrow> Some p | Ready p \<Rightarrow> Some p | Checked p \<Rightarrow> Some p | Installed p \<Rightarrow> Some p)"

definition hand_ok :: "pid \<Rightarrow> reload_state \<Rightarrow> bool" where
  "hand_ok self \<sigma> = (case rs_hand \<sigma> of
      NotRetired \<Rightarrow> rs_main \<sigma> = self \<and> \<not> rs_handoverFailed \<sigma> \<and> (ag_retiredDone (rs_agent \<sigma>) \<longrightarrow> rs_target \<sigma> = None)
    | CheckExited p \<Rightarrow> rs_target \<sigma> = Some p \<and> ag_retiredDone (rs_agent \<sigma>) \<and> \<not> rs_handoverFailed \<sigma>
    | TellSystemd p \<Rightarrow> rs_target \<sigma> = Some p \<and> ag_retiredDone (rs_agent \<sigma>) \<and> \<not> rs_handoverFailed \<sigma>
    | GiveGo p \<Rightarrow> rs_target \<sigma> = Some p \<and> ag_retiredDone (rs_agent \<sigma>) \<and> rs_main \<sigma> = p \<and> \<not> rs_handoverFailed \<sigma>
    | HandOver_done \<Rightarrow> ag_retiredDone (rs_agent \<sigma>) \<and> rs_target \<sigma> \<noteq> None \<and>
        (rs_handoverFailed \<sigma> \<or> Some (rs_main \<sigma>) = rs_target \<sigma>))"

definition stage_ok :: "reload_state \<Rightarrow> bool" where
  "stage_ok \<sigma> \<longleftrightarrow> ag_onRetired (rs_agent \<sigma>) = (rs_target \<sigma> \<noteq> None) \<and>
     (rs_stage \<sigma> = Idle \<or> rs_busy \<sigma>) \<and>
     (case rs_stage \<sigma> of Idle \<Rightarrow> rs_busy \<sigma> = (rs_target \<sigma> \<noteq> None) | Installed p \<Rightarrow> rs_target \<sigma> = Some p | _ \<Rightarrow> rs_target \<sigma> = None)"

definition running_ok :: "reload_state \<Rightarrow> bool" where
  "running_ok \<sigma> \<longleftrightarrow>
     (\<not> rs_ctx \<sigma> \<longrightarrow> rs_hand \<sigma> = NotRetired \<and> \<not> ag_retiredDone (rs_agent \<sigma>) \<and> \<not> rs_draining \<sigma> \<and> rs_exit \<sigma> = None) \<and>
     (rs_stage \<sigma> = Idle \<and> rs_target \<sigma> \<noteq> None \<longrightarrow> rs_ctx \<sigma>) \<and>
     (\<forall>b. rs_exit \<sigma> = Some b \<longrightarrow> rs_hand \<sigma> \<in> {NotRetired, HandOver_done} \<and> b = (\<not> rs_handoverFailed \<sigma>) \<and>
        ag_retiredDone (rs_agent \<sigma>))"

definition proc_ok :: "reload_state \<Rightarrow> pid \<Rightarrow> successor_proc \<Rightarrow> bool" where
  "proc_ok \<sigma> p s \<longleftrightarrow>
     (sp_alive s \<longrightarrow> stage_pid (rs_stage \<sigma>) = Some p \<or> rs_target \<sigma> = Some p) \<and>
     (sp_go s \<longrightarrow> rs_hand \<sigma> = HandOver_done \<and> rs_main \<sigma> = p \<and> ag_retiredDone (rs_agent \<sigma>)) \<and>
     (sp_turn s = Some TookGo \<longrightarrow> sp_go s)"

definition procs_ok :: "reload_state \<Rightarrow> bool" where
  "procs_ok \<sigma> \<longleftrightarrow> (\<forall>p s. rs_procs \<sigma> p = Some s \<longrightarrow> proc_ok \<sigma> p s)"

definition reload_inv :: "pid \<Rightarrow> reload_state \<Rightarrow> bool" where
  "reload_inv self \<sigma> \<longleftrightarrow> hand_ok self \<sigma> \<and> stage_ok \<sigma> \<and> running_ok \<sigma> \<and> procs_ok \<sigma>"

lemma on_proc_fields [simp]:
  "rs_agent (on_proc p f \<sigma>) = rs_agent \<sigma>" "rs_ctx (on_proc p f \<sigma>) = rs_ctx \<sigma>" "rs_draining (on_proc p f \<sigma>) = rs_draining \<sigma>"
  "rs_busy (on_proc p f \<sigma>) = rs_busy \<sigma>" "rs_handoverFailed (on_proc p f \<sigma>) = rs_handoverFailed \<sigma>"
  "rs_stage (on_proc p f \<sigma>) = rs_stage \<sigma>" "rs_target (on_proc p f \<sigma>) = rs_target \<sigma>" "rs_hand (on_proc p f \<sigma>) = rs_hand \<sigma>"
  "rs_main (on_proc p f \<sigma>) = rs_main \<sigma>" "rs_exit (on_proc p f \<sigma>) = rs_exit \<sigma>"
  "rs_procs (on_proc p f \<sigma>) = (\<lambda>q. if q = p then map_option f (rs_procs \<sigma> p) else rs_procs \<sigma> q)"
  by (auto simp: on_proc_def split: option.splits)

definition control_ok :: "pid \<Rightarrow> reload_state \<Rightarrow> bool" where
  "control_ok self \<sigma> \<longleftrightarrow> hand_ok self \<sigma> \<and> stage_ok \<sigma> \<and> running_ok \<sigma>"

lemmas control_defs = control_ok_def hand_ok_def stage_ok_def running_ok_def

lemma control_on_proc [simp]: "control_ok self (on_proc p f \<sigma>) = control_ok self \<sigma>"
  unfolding control_defs on_proc_fields ..

lemma hand_ok_update [simp]:
  "hand_ok self (\<sigma>\<lparr>rs_stage := st\<rparr>) = hand_ok self \<sigma>" "hand_ok self (\<sigma>\<lparr>rs_busy := b\<rparr>) = hand_ok self \<sigma>"
  "hand_ok self (\<sigma>\<lparr>rs_ctx := b\<rparr>) = hand_ok self \<sigma>" "hand_ok self (\<sigma>\<lparr>rs_draining := b\<rparr>) = hand_ok self \<sigma>"
  "hand_ok self (\<sigma>\<lparr>rs_exit := x\<rparr>) = hand_ok self \<sigma>" "hand_ok self (\<sigma>\<lparr>rs_procs := m\<rparr>) = hand_ok self \<sigma>"
  "hand_ok self (on_proc p f \<sigma>) = hand_ok self \<sigma>"
  by (simp_all add: hand_ok_def cong: hand.case_cong)

lemmas keep_hand_defs = control_ok_def stage_ok_def running_ok_def

lemma control_abort:
  "control_ok self \<sigma> \<Longrightarrow> rs_stage \<sigma> \<in> {Starting p, Ready p, Checked p} \<Longrightarrow> control_ok self (replace_abort p \<sigma>)"
  by (auto simp: keep_hand_defs replace_abort_def Stop_def)

lemma control_replace:
  assumes "control_ok self \<sigma>"
  shows "control_ok self (snd (replace_start sp \<sigma>))"
    and "rs_stage \<sigma> = Starting p \<Longrightarrow> control_ok self (snd (replace_prepared p e \<sigma>))"
    and "rs_stage \<sigma> = Ready p \<Longrightarrow> control_ok self (snd (replace_check p \<sigma>))"
    and "rs_stage \<sigma> = Checked p \<Longrightarrow> control_ok self (snd (replace_install p \<sigma>))"
    and "rs_stage \<sigma> = Installed p \<Longrightarrow> control_ok self (replace_leave p \<sigma>)"
proof -
  show "control_ok self (snd (replace_start sp \<sigma>))"
  proof (cases "rs_ctx \<sigma> \<or> rs_busy \<sigma>")
    case False
    with assms have "rs_stage \<sigma> = Idle" "rs_hand \<sigma> = NotRetired" by (auto simp: keep_hand_defs)
    with assms False show ?thesis by (cases sp) (auto simp: replace_start_def keep_hand_defs)
  qed (use assms in \<open>auto simp: replace_start_def\<close>)
  show "control_ok self (snd (replace_prepared p e \<sigma>))" if "rs_stage \<sigma> = Starting p"
    using assms that control_abort [OF assms, of p, unfolded replace_abort_def]
    by (cases "WaitPrepared e") (auto simp: replace_prepared_def keep_hand_defs)
  show "control_ok self (snd (replace_check p \<sigma>))" if "rs_stage \<sigma> = Ready p"
    using assms that control_abort [OF assms, of p]
    by (cases "rs_ctx \<sigma>") (auto simp: replace_check_def keep_hand_defs)
  show "control_ok self (snd (replace_install p \<sigma>))" if st: "rs_stage \<sigma> = Checked p"
  proof (cases "ag_retiredDone (rs_agent \<sigma>)")
    case True
    with st control_abort [OF assms, of p] show ?thesis by (simp add: replace_install_def SetOnRetired_def)
  next
    case False
    with assms st have "rs_hand \<sigma> = NotRetired" by (auto simp: control_ok_def hand_ok_def stage_ok_def split: hand.splits)
    with assms st False show ?thesis by (auto simp: replace_install_def SetOnRetired_def control_defs)
  qed
  show "control_ok self (replace_leave p \<sigma>)" if "rs_stage \<sigma> = Installed p"
    using assms that by (auto simp: replace_leave_def keep_hand_defs)
qed

lemma control_hand:
  assumes "control_ok self \<sigma>" and "rs_exit \<sigma> = None"
  shows "rs_ctx \<sigma> \<Longrightarrow> control_ok self (reload_retired \<sigma>)"
    and "rs_hand \<sigma> = CheckExited p \<Longrightarrow> control_ok self (handOver_check p \<sigma>)"
    and "rs_hand \<sigma> = TellSystemd p \<Longrightarrow> control_ok self (handOver_tell ok p \<sigma>)"
    and "rs_hand \<sigma> = GiveGo p \<Longrightarrow> control_ok self (handOver_go p \<sigma>)"
proof -
  show "control_ok self (reload_retired \<sigma>)" if "rs_ctx \<sigma>"
    using assms that by (cases "rs_hand \<sigma>"; cases "rs_target \<sigma>")
      (auto simp: reload_retired_def agent_retired_def control_defs Let_def cong: stage.case_cong)
  show "control_ok self (handOver_check p \<sigma>)" if "rs_hand \<sigma> = CheckExited p"
    using assms that by (auto simp: handOver_check_def control_defs cong: stage.case_cong)
  show "control_ok self (handOver_tell ok p \<sigma>)" if "rs_hand \<sigma> = TellSystemd p"
    using assms that by (auto simp: handOver_tell_def Stop_def control_defs cong: stage.case_cong)
  show "control_ok self (handOver_go p \<sigma>)" if "rs_hand \<sigma> = GiveGo p"
    using assms that by (auto simp: handOver_go_def control_defs Let_def cong: stage.case_cong)
qed

lemma reload_step_control: "reload_step self \<sigma> \<sigma>' \<Longrightarrow> control_ok self \<sigma> \<Longrightarrow> control_ok self \<sigma>'"
proof (induction rule: reload_step.induct)
  case (r_signal \<sigma>)
  then show ?case by (auto simp: control_defs cong: stage.case_cong hand.case_cong)
next
  case (r_exit \<sigma>)
  then show ?case by (auto simp: control_defs reload_failed_def cong: stage.case_cong hand.case_cong)
qed (auto simp: Stop_def intro: control_replace control_hand)

lemma procs_okD: "procs_ok \<sigma> \<Longrightarrow> rs_procs \<sigma> p = Some s \<Longrightarrow> proc_ok \<sigma> p s"
  by (simp add: procs_ok_def)

lemma procs_okI: "(\<And>p s. rs_procs \<sigma> p = Some s \<Longrightarrow> proc_ok \<sigma> p s) \<Longrightarrow> procs_ok \<sigma>"
  by (simp add: procs_ok_def)

text \<open>The processes stay well when their control part does not change for them.\<close>

lemma procs_ok_same:
  assumes "procs_ok \<sigma>" and "rs_procs \<sigma>' = rs_procs \<sigma>"
    and "\<And>p. stage_pid (rs_stage \<sigma>) = Some p \<or> rs_target \<sigma> = Some p \<Longrightarrow> stage_pid (rs_stage \<sigma>') = Some p \<or> rs_target \<sigma>' = Some p"
    and "rs_hand \<sigma> = HandOver_done \<and> ag_retiredDone (rs_agent \<sigma>) \<Longrightarrow>
      rs_hand \<sigma>' = HandOver_done \<and> rs_main \<sigma>' = rs_main \<sigma> \<and> ag_retiredDone (rs_agent \<sigma>')"
  shows "procs_ok \<sigma>'"
  using assms unfolding procs_ok_def proc_ok_def by metis

lemma procs_ok_on:
  assumes "procs_ok \<sigma>" and "\<And>s. rs_procs \<sigma> p = Some s \<Longrightarrow> proc_ok \<sigma> p s \<Longrightarrow> proc_ok \<sigma> p (f s)"
  shows "procs_ok (on_proc p f \<sigma>)"
  using assms by (auto simp: procs_ok_def proc_ok_def)

lemma procs_ok_Stop: "procs_ok \<sigma> \<Longrightarrow> procs_ok (Stop p \<sigma>)"
  unfolding Stop_def by (rule procs_ok_on) (auto simp: proc_ok_def)

lemma procs_ok_abort:
  assumes "reload_inv self \<sigma>" and "stage_pid (rs_stage \<sigma>) = Some p" and "rs_target \<sigma> = None"
  shows "procs_ok (replace_abort p \<sigma>)"
  using assms by (auto simp: procs_ok_def proc_ok_def replace_abort_def Stop_def reload_inv_def split: if_splits)

lemma procs_start: "reload_inv self \<sigma> \<Longrightarrow> procs_ok (snd (replace_start sp \<sigma>))"
  by (auto simp: replace_start_def reload_inv_def procs_ok_def proc_ok_def stage_ok_def stage_pid_def split: option.splits if_splits)

lemma procs_prepared: "reload_inv self \<sigma> \<Longrightarrow> rs_stage \<sigma> = Starting p \<Longrightarrow> procs_ok (snd (replace_prepared p e \<sigma>))"
  using procs_ok_abort [of self \<sigma> p, unfolded replace_abort_def]
  by (auto simp: replace_prepared_def reload_inv_def stage_ok_def stage_pid_def split: option.splits intro: procs_ok_same)

lemma procs_check: "reload_inv self \<sigma> \<Longrightarrow> rs_stage \<sigma> = Ready p \<Longrightarrow> procs_ok (snd (replace_check p \<sigma>))"
  using procs_ok_abort [of self \<sigma> p]
  by (auto simp: replace_check_def reload_inv_def stage_ok_def stage_pid_def intro: procs_ok_same)

lemma procs_install: "reload_inv self \<sigma> \<Longrightarrow> rs_stage \<sigma> = Checked p \<Longrightarrow> procs_ok (snd (replace_install p \<sigma>))"
  using procs_ok_abort [of self \<sigma> p]
  by (auto simp: replace_install_def SetOnRetired_def reload_inv_def stage_ok_def stage_pid_def intro: procs_ok_same)

lemma procs_retired: "reload_inv self \<sigma> \<Longrightarrow> procs_ok (reload_retired \<sigma>)"
  by (rule procs_ok_same [of \<sigma>])
    (auto simp: reload_inv_def hand_ok_def reload_retired_def agent_retired_def Let_def split: option.splits)

lemma procs_hand:
  assumes "reload_inv self \<sigma>"
  shows "rs_hand \<sigma> = CheckExited p \<Longrightarrow> procs_ok (handOver_check p \<sigma>)"
    and "rs_hand \<sigma> = TellSystemd p \<Longrightarrow> procs_ok (handOver_tell ok p \<sigma>)"
    and "rs_hand \<sigma> = GiveGo p \<Longrightarrow> procs_ok (handOver_go p \<sigma>)"
proof -
  have ok: "procs_ok \<sigma>" using assms by (simp add: reload_inv_def)
  show "procs_ok (handOver_check p \<sigma>)" if "rs_hand \<sigma> = CheckExited p"
    by (rule procs_ok_same [OF ok]) (use that in \<open>auto simp: handOver_check_def\<close>)
  show "procs_ok (handOver_tell ok p \<sigma>)" if "rs_hand \<sigma> = TellSystemd p"
    by (cases ok; rule procs_ok_same [OF ok] procs_ok_same [OF procs_ok_Stop [OF ok, of p]])
      (use that in \<open>auto simp: handOver_tell_def Stop_def\<close>)
  show "procs_ok (handOver_go p \<sigma>)" if "rs_hand \<sigma> = GiveGo p"
    using that assms ok by (auto simp: handOver_go_def Let_def procs_ok_def proc_ok_def reload_inv_def hand_ok_def)
qed

lemma procs_turn:
  assumes "procs_ok \<sigma>" and "rs_procs \<sigma> p = Some s" and "e = GoRead (Some msgGo) \<Longrightarrow> sp_go s"
    and "awaitTurn (Some ''3,4'') True e = Some t"
  shows "procs_ok (on_proc p (\<lambda>s. s\<lparr>sp_turn := Some t\<rparr>) \<sigma>)"
proof (rule procs_ok_on [OF assms(1)])
  fix s' assume "rs_procs \<sigma> p = Some s'" and ok: "proc_ok \<sigma> p s'"
  with assms(2) have "s' = s" by simp
  moreover have "sp_go s" if "t = TookGo"
    using assms(3,4) that by (auto simp: awaitTurn_def WaitGo_def split: sum.splits option.splits if_splits go_event.splits)
  ultimately show "proc_ok \<sigma> p (s'\<lparr>sp_turn := Some t\<rparr>)" using ok by (auto simp: proc_ok_def)
qed

lemma reload_step_procs:
  assumes "reload_step self \<sigma> \<sigma>'" and inv: "reload_inv self \<sigma>"
  shows "procs_ok \<sigma>'"
proof -
  have ok: "procs_ok \<sigma>" using inv by (simp add: reload_inv_def)
  show ?thesis using assms(1)
  proof cases
    case (r_leave p)
    with inv show ?thesis
      by (intro procs_ok_same [OF ok]) (auto simp: replace_leave_def reload_inv_def stage_ok_def stage_pid_def)
  next
    case (s_prepared p s)
    show ?thesis unfolding s_prepared(1) by (rule procs_ok_on [OF ok]) (auto simp: proc_ok_def)
  next
    case (s_turn p s e t)
    with procs_turn [OF ok] show ?thesis by blast
  qed (use ok inv in \<open>auto intro: procs_start procs_prepared procs_check procs_install procs_retired procs_hand procs_ok_Stop procs_ok_same\<close>)
qed

interpretation reload_system: inductive_invariant "reload_init self" "reload_step self" "reload_inv self" for self
proof unfold_locales
  show "reload_init self s \<Longrightarrow> reload_inv self s" for s
    by (simp add: reload_init_def reload_inv_def hand_ok_def stage_ok_def running_ok_def procs_ok_def new_agent_def)
  show "reload_inv self s \<Longrightarrow> reload_step self s t \<Longrightarrow> reload_inv self t" for s t
    using reload_step_control [of self s t] reload_step_procs [of self s t] by (simp add: reload_inv_def control_ok_def)
qed


definition reload_at :: "bool \<Rightarrow> bool \<Rightarrow> bool \<Rightarrow> bool \<Rightarrow> stage \<Rightarrow> pid option \<Rightarrow> hand \<Rightarrow> pid \<Rightarrow> successor_proc option \<Rightarrow> bool option \<Rightarrow> reload_state" where
  "reload_at hook ret ctx busy st tgt ho main sp x =
     \<lparr>rs_agent = \<lparr>ag_draining = False, ag_inflight = 0, ag_onRetired = hook, ag_retiredDone = ret, ag_calls = (if ret then 1 else 0)\<rparr>,
      rs_ctx = ctx, rs_draining = ctx, rs_busy = busy, rs_handoverFailed = False, rs_stage = st, rs_target = tgt, rs_hand = ho,
      rs_main = main, rs_procs = (case sp of None \<Rightarrow> Map.empty | Some s \<Rightarrow> [2 \<mapsto> s]), rs_exit = x\<rparr>"

abbreviation proc_at :: "bool \<Rightarrow> bool \<Rightarrow> turn option \<Rightarrow> successor_proc option" where
  "proc_at prepared go t \<equiv> Some \<lparr>sp_alive = True, sp_prepared = prepared, sp_go = go, sp_turn = t\<rparr>"

lemma reach_step_eq:
  "reach (reload_init self) (reload_step self) s \<Longrightarrow> reload_step self s t' \<Longrightarrow> t' = t \<Longrightarrow> reach (reload_init self) (reload_step self) t"
  by (auto intro: reach_step)

lemma sample_reload:
  "reach (reload_init 1) (reload_step 1) (reload_at True True True True Idle (Some 2) HandOver_done 2 (proc_at True True (Some TookGo)) (Some True))"
proof -
  note ds = reload_at_def replace_start_def replace_prepared_def replace_check_def replace_install_def replace_leave_def
    reload_retired_def handOver_check_def handOver_tell_def handOver_go_def reload_failed_def SetOnRetired_def agent_retired_def
    on_proc_def is_alive_def WaitPrepared_def
  have turn: "awaitTurn (Some ''3,4'') True (GoRead (Some msgGo)) = Some TookGo" by code_simp
  have "reach (reload_init 1) (reload_step 1) (reload_at False False False False Idle None NotRetired 1 None None)"
    by (rule reach_init) (simp add: reload_init_def reload_at_def new_agent_def)
  then have "reach (reload_init 1) (reload_step 1) (reload_at False False False True (Starting 2) None NotRetired 1 (proc_at False False None) None)"
    by (rule reach_step_eq [OF _ r_start [of _ 1 "Some 2"]]) (simp_all add: ds)
  then have "reach (reload_init 1) (reload_step 1) (reload_at False False False True (Starting 2) None NotRetired 1 (proc_at True False None) None)"
    by (rule reach_step_eq [OF _ s_prepared [of _ 2 "\<lparr>sp_alive = True, sp_prepared = False, sp_go = False, sp_turn = None\<rparr>" 1]]) (simp_all add: ds)
  then have "reach (reload_init 1) (reload_step 1) (reload_at False False False True (Ready 2) None NotRetired 1 (proc_at True False None) None)"
    by (rule reach_step_eq [OF _ r_prepared [of _ 2 "\<lparr>sp_alive = True, sp_prepared = True, sp_go = False, sp_turn = None\<rparr>" "Reported msgPrepared" 1]]) (simp_all add: ds)
  then have "reach (reload_init 1) (reload_step 1) (reload_at False False False True (Checked 2) None NotRetired 1 (proc_at True False None) None)"
    by (rule reach_step_eq [OF _ r_check [of _ 2 1]]) (simp_all add: ds)
  then have "reach (reload_init 1) (reload_step 1) (reload_at True False False True (Installed 2) (Some 2) NotRetired 1 (proc_at True False None) None)"
    by (rule reach_step_eq [OF _ r_install [of _ 2 1]]) (simp_all add: ds)
  then have "reach (reload_init 1) (reload_step 1) (reload_at True False True True Idle (Some 2) NotRetired 1 (proc_at True False None) None)"
    by (rule reach_step_eq [OF _ r_leave [of _ 2 1]]) (simp_all add: ds)
  then have "reach (reload_init 1) (reload_step 1) (reload_at True True True True Idle (Some 2) (CheckExited 2) 1 (proc_at True False None) None)"
    by (rule reach_step_eq [OF _ r_retired [of _ 1]]) (simp_all add: ds)
  then have "reach (reload_init 1) (reload_step 1) (reload_at True True True True Idle (Some 2) (TellSystemd 2) 1 (proc_at True False None) None)"
    by (rule reach_step_eq [OF _ r_hand_check [of _ 2 1]]) (simp_all add: ds)
  then have "reach (reload_init 1) (reload_step 1) (reload_at True True True True Idle (Some 2) (GiveGo 2) 2 (proc_at True False None) None)"
    by (rule reach_step_eq [OF _ r_hand_tell [of _ 2 1 True]]) (simp_all add: ds)
  then have "reach (reload_init 1) (reload_step 1) (reload_at True True True True Idle (Some 2) HandOver_done 2 (proc_at True True None) None)"
    by (rule reach_step_eq [OF _ r_hand_go [of _ 2 1]]) (simp_all add: ds)
  then have "reach (reload_init 1) (reload_step 1) (reload_at True True True True Idle (Some 2) HandOver_done 2 (proc_at True True None) (Some True))"
    by (rule reach_step_eq [OF _ r_exit [of _ 1]]) (simp_all add: ds)
  then show ?thesis
    by (rule reach_step_eq [OF _ s_turn [OF _ _ _ _ _ turn, of _ 2 "\<lparr>sp_alive = True, sp_prepared = True, sp_go = True, sp_turn = None\<rparr>" 1]]) (simp_all add: ds)
qed


subsection \<open>The descriptors of the handoff\<close>

text \<open>Starting a replacement leaves nothing open when it fails, and otherwise the two ends of this
  process; the replacement finds its ends as descriptors 3 and 4 in its environment, whatever an
  earlier handoff left there (the last setting of a variable counts).\<close>

lemma Start_FromEnv:
  assumes "Start pipe1 pipe2 start_ok env = (ok, opened, given, env')"
  shows "if ok then opened = {GoW, PrepR} \<and> given = [GoR, PrepW] \<and> FromEnv (map_of (rev env') envFDs) = Inr (Some (3, 4))
    else opened = {}"
proof -
  have "FromEnv (Some ''3,4'') = Inr (Some (3, 4))" by code_simp
  then show ?thesis using assms by (auto simp: Start_def Let_def split: if_splits)
qed

end
