(* ===== verification/Daemon.thy ===== *)
theory Daemon
  imports Metrics Netx Logging Reload
begin

text \<open>
  The command line around the daemons (package \<^verbatim>\<open>internal/cli\<close>): how \<^verbatim>\<open>coen edge\<close> and \<^verbatim>\<open>coen agent\<close> run a
  daemon with its side servers (run.go), how \<^verbatim>\<open>coen status\<close> and \<^verbatim>\<open>coen doctor\<close> find the daemon that is running
  (detect.go, detect_linux.go) and how a status is shown (status.go).
\<close>

subsection \<open>The metrics port (run.go)\<close>

text \<open>\<^verbatim>\<open>drainingPredecessor\<close>, given what the probe of the port found.\<close>

definition drainingPredecessor :: "Holder option \<Rightarrow> string \<Rightarrow> bool" where
  "drainingPredecessor h rl = (case h of None \<Rightarrow> False | Some x \<Rightarrow> h_Role x = rl \<and> h_Draining x)"

text \<open>The binding \<^verbatim>\<open>runDaemon\<close> starts with: metrics off, bound, or to be retried; or the error it ends with.\<close>

datatype metricsBinding = MetricsOff | MetricsBound | MetricsRetry string

definition bind_metrics :: "string \<Rightarrow> bind_error option \<Rightarrow> Holder option \<Rightarrow> string \<Rightarrow> bind_error + metricsBinding" where
  "bind_metrics addr listen holder rl =
     (if addr = [] then Inr MetricsOff
      else (case listen of
          None \<Rightarrow> Inr MetricsBound
        | Some e \<Rightarrow> if IsAddrInUse e \<and> drainingPredecessor holder rl then Inr (MetricsRetry addr) else Inl e))"

text \<open>One turn of the retry loop: whether the daemon has ended by then, the first attempt to bind, the probe,
  the second attempt, and whether the daemon has ended after it.\<close>

record retry =
  rt_done :: bool
  rt_listen :: "bind_error option"
  rt_probe :: "Holder option"
  rt_again :: "bind_error option"
  rt_ended :: bool

datatype awaited = Listener | Shutdown | ListenFailed bind_error

fun await_loop :: "string \<Rightarrow> retry list \<Rightarrow> awaited option" where
  "await_loop rl [] = None"
| "await_loop rl (t # ts) =
     (if rt_done t then Some Shutdown
      else (case rt_listen t of
          None \<Rightarrow> Some Listener
        | Some e \<Rightarrow>
            if IsAddrInUse e \<and> drainingPredecessor (rt_probe t) rl then await_loop rl ts
            else if rt_again t = None then Some Listener
            else if rt_ended t then Some Shutdown
            else Some (ListenFailed e)))"

definition await :: "metricsBinding \<Rightarrow> string \<Rightarrow> retry list \<Rightarrow> awaited option" where
  "await m rl ts = (case m of MetricsBound \<Rightarrow> Some Listener | _ \<Rightarrow> await_loop rl ts)"

subsection \<open>Signals and side servers (run.go)\<close>

text \<open>What SIGHUP does to an agent that can be replaced, and to any other daemon: the level set, or why not.\<close>

datatype hup_result = Replace | Reloaded level | ReloadError

definition on_hup :: "bool \<Rightarrow> (config_error + string) \<Rightarrow> hup_result" where
  "on_hup replaceable setting =
     (if replaceable then Replace
      else (case setting of
          Inl _ \<Rightarrow> ReloadError
        | Inr s \<Rightarrow> (case ParseLevel s of Inl _ \<Rightarrow> ReloadError | Inr l \<Rightarrow> Reloaded l)))"

definition hup_level :: "hup_result \<Rightarrow> level \<Rightarrow> level" where
  "hup_level r lv = (case r of Reloaded l \<Rightarrow> l | _ \<Rightarrow> lv)"

text \<open>The life of a daemon in the order the code gives it: \<^verbatim>\<open>serveDaemon\<close> starts the side servers, tells
  systemd, runs, and stops the side servers once \<^verbatim>\<open>Run\<close> has returned; the shutdown signal marks the state and
  then cancels the context.\<close>

datatype daemon_event = StartMetrics | StartAdmin | StartHup | NotifyReady | RunReturns | StopSide | WaitSide
  | SignalDraining | SignalCancel

definition on_term :: "daemon_event list" where
  "on_term = [SignalDraining, SignalCancel]"

definition serveDaemon :: "metricsBinding \<Rightarrow> string \<Rightarrow> daemon_event list" where
  "serveDaemon m socket =
     (if m \<noteq> MetricsOff then [StartMetrics] else []) @ (if socket \<noteq> [] then [StartAdmin] else []) @
     [StartHup, NotifyReady, RunReturns, StopSide, WaitSide]"

datatype run_error = MetricsListenError bind_error | RunError string | HandoverFailed

definition runDaemon :: "string \<Rightarrow> bind_error option \<Rightarrow> Holder option \<Rightarrow> string \<Rightarrow> string option \<Rightarrow> bool \<Rightarrow> run_error option" where
  "runDaemon addr listen holder rl run_err handover_failed = (case bind_metrics addr listen holder rl of
      Inl e \<Rightarrow> Some (MetricsListenError e)
    | Inr _ \<Rightarrow> (case run_err of
          Some e \<Rightarrow> Some (RunError e)
        | None \<Rightarrow> if handover_failed then Some HandoverFailed else None))"

subsection \<open>Finding the daemon (detect.go, detect_linux.go)\<close>

record daemon =
  dm_pid :: int
  dm_role :: string
  dm_config :: string

fun configFromArgs :: "string list \<Rightarrow> string \<Rightarrow> string" where
  "configFromArgs [] rl = Join [''/etc/coen'', rl @ ''.yaml'']"
| "configFromArgs (a # as) rl =
     (if a = ''--config'' \<and> as \<noteq> [] then hd as
      else if HasPrefix a ''--config='' then drop (length ''--config='') a
      else configFromArgs as rl)"

definition parseDaemon :: "int \<Rightarrow> string list \<Rightarrow> daemon option" where
  "parseDaemon pid argv =
     (if length argv < 2 \<or> Base (argv ! 0) \<noteq> ''coen'' then None
      else if argv ! 1 \<noteq> ''edge'' \<and> argv ! 1 \<noteq> ''agent'' then None
      else Some \<lparr>dm_pid = pid, dm_role = argv ! 1, dm_config = configFromArgs (drop 2 argv) (argv ! 1)\<rparr>)"

definition splitNUL :: "bytes \<Rightarrow> string list" where
  "splitNUL b = filter (\<lambda>p. p \<noteq> []) (Split b [CHR 0x00])"

text \<open>An entry of \<^verbatim>\<open>/proc\<close>: its name, the contents of \<^verbatim>\<open>cmdline\<close> and the target of \<^verbatim>\<open>exe\<close>, when they can be read.\<close>

record proc_entry =
  pe_name :: string
  pe_cmdline :: "bytes option"
  pe_exe :: "string option"

definition entry_daemon :: "proc_entry \<Rightarrow> daemon option" where
  "entry_daemon e = (case Atoi (pe_name e) of
      None \<Rightarrow> None
    | Some pid \<Rightarrow> (case pe_cmdline e of
          None \<Rightarrow> None
        | Some raw \<Rightarrow>
            (let argv = splitNUL raw
             in if raw = [] \<or> argv = [] then None
                else parseDaemon pid (case pe_exe e of Some exe \<Rightarrow> argv[0 := exe] | None \<Rightarrow> argv))))"

definition enumerateDaemons :: "proc_entry list option \<Rightarrow> daemon list option" where
  "enumerateDaemons entries = map_option (List.map_filter entry_daemon) entries"

datatype detect_error = InspectFailed | ErrNoDaemon | BothRunning

definition detectRole :: "daemon list option \<Rightarrow> detect_error + string \<times> string" where
  "detectRole ds = (case ds of
      None \<Rightarrow> Inl InspectFailed
    | Some ds \<Rightarrow>
        (let byRole = foldl (\<lambda>m d. m(dm_role d \<mapsto> d)) Map.empty ds; roles = remdups (map dm_role ds)
         in case roles of
              [] \<Rightarrow> Inl ErrNoDaemon
            | [r] \<Rightarrow> (case byRole r of Some d \<Rightarrow> Inr (dm_role d, dm_config d) | None \<Rightarrow> Inl BothRunning)
            | _ \<Rightarrow> Inl BothRunning))"

subsection \<open>Status (status.go)\<close>

datatype status_error = NoDaemonFound | DetectFailed detect_error | BadRole string | LoadFailedFor string | NoSocket string

definition adminSocketFromConfig :: "(string \<Rightarrow> config_error + string) \<Rightarrow> (string \<Rightarrow> config_error + string) \<Rightarrow> string \<Rightarrow> string \<Rightarrow> status_error + string" where
  "adminSocketFromConfig edge_socket agent_socket rl path =
     (if rl \<noteq> ''edge'' \<and> rl \<noteq> ''agent'' then Inl (BadRole rl)
      else (case (if rl = ''edge'' then edge_socket path else agent_socket path) of
          Inl _ \<Rightarrow> Inl (LoadFailedFor path)
        | Inr s \<Rightarrow> if s = [] then Inl (NoSocket path) else Inr s))"

definition resolveStatusSocket :: "(string \<Rightarrow> config_error + string) \<Rightarrow> (string \<Rightarrow> config_error + string) \<Rightarrow> daemon list option \<Rightarrow>
    string \<Rightarrow> string \<Rightarrow> status_error + string" where
  "resolveStatusSocket edge_socket agent_socket ds rl cfgPath =
     (let config = (\<lambda>r p. adminSocketFromConfig edge_socket agent_socket r (if p = [] then Join [''/etc/coen'', r @ ''.yaml''] else p))
      in if rl = [] then (case detectRole ds of
             Inl ErrNoDaemon \<Rightarrow> Inl NoDaemonFound
           | Inl e \<Rightarrow> Inl (DetectFailed e)
           | Inr (r, c) \<Rightarrow> config r (if cfgPath = [] then c else cfgPath))
         else config rl cfgPath)"

definition agentIP :: "string \<Rightarrow> string" where
  "agentIP remoteAddr =
     (if remoteAddr = [] then ''unknown''
      else (case SplitHostPort remoteAddr of Inr (host, _) \<Rightarrow> host | Inl _ \<Rightarrow> remoteAddr))"

definition plural :: "nat \<Rightarrow> string \<Rightarrow> string" where
  "plural n word = (if n = 1 then ''1 '' @ word else show_nat n @ '' '' @ word @ ''s'')"

definition out_line :: "string list \<Rightarrow> string" where
  "out_line parts = concat parts @ [LF]"

text \<open>The lines of a status; \<open>fmt\<close> prints a time.\<close>

definition agents_line :: "AgentInfo list \<Rightarrow> string" where
  "agents_line as =
     (let n = length as; fps = card (set (map i_fp as)); dr = length (filter i_draining as)
      in if n = fps \<and> dr = 0 then out_line [''agents:     '', show_nat fps, '' connected'']
         else if dr = 0 then out_line [''agents:     '', plural n ''session'', '', '', plural fps ''certificate'']
         else out_line [''agents:     '', plural n ''session'', '' ('', show_nat dr, '' draining), '', plural fps ''certificate''])"

definition agent_line :: "(instant \<Rightarrow> string) \<Rightarrow> AgentInfo \<Rightarrow> string" where
  "agent_line fmt a =
     out_line [''  - '', agentIP (i_addr a), '' ('', fmt (i_since a), '', '', i_fp a, if i_draining a then '', draining'' else [], '')'']"

definition self_line :: "Snapshot \<Rightarrow> string" where
  "self_line s = (if snSelf s \<noteq> [] then out_line [''self_fp:    '', snSelf s] else [])"

definition traffic_lines :: "Snapshot \<Rightarrow> string" where
  "traffic_lines s =
     out_line [''streams:    '', FormatInt (snActive s), '' active / '', FormatInt (snMax s), '' max''] @
     out_line [''bytes:      '', FormatInt (snBytesIn s), '' in / '', FormatInt (snBytesOut s), '' out'']"

definition renderEdgeStatus :: "(instant \<Rightarrow> string) \<Rightarrow> Snapshot \<Rightarrow> string" where
  "renderEdgeStatus fmt s =
     self_line s @ agents_line (snAgents s) @ concat (map (agent_line fmt) (snAgents s)) @ traffic_lines s @
     (if 0 < snDup s \<or> 0 < snCapped s then
        out_line [''handshakes: '', FormatInt (snOK s), '' ok / '', FormatInt (snFail s), '' fail / '', FormatInt (snRejected s),
          '' rejected / '', FormatInt (snDup s), '' duplicate / '', FormatInt (snCapped s), '' capped'']
      else out_line [''handshakes: '', FormatInt (snOK s), '' ok / '', FormatInt (snFail s), '' fail / '', FormatInt (snRejected s), '' rejected''])"

definition renderAgentStatus :: "(instant \<Rightarrow> string) \<Rightarrow> Snapshot \<Rightarrow> string" where
  "renderAgentStatus fmt s =
     self_line s @
     (if snConnected s then
        out_line [''tunnel:     connected''] @
        out_line [''since:      '', fmt (case snSince s of Some t \<Rightarrow> t | None \<Rightarrow> zeroTime)] @
        out_line [''peer_fp:    '', snPeer s]
      else out_line [''tunnel:     disconnected'']) @
     out_line [''reconnects: '', FormatInt (snReconnects s)] @ traffic_lines s @
     out_line [''handshakes: '', FormatInt (snOK s), '' ok / '', FormatInt (snFail s), '' fail'']"

definition renderStatus :: "(instant \<Rightarrow> string) \<Rightarrow> Snapshot \<Rightarrow> string" where
  "renderStatus fmt s =
     (if snRole s \<noteq> [] then out_line [''role:       '', snRole s] else []) @
     (if snRole s = ''edge'' then renderEdgeStatus fmt s
      else if snRole s = ''agent'' then renderAgentStatus fmt s
      else renderAgentStatus fmt s @ renderEdgeStatus fmt s) @
     (if snLastError s \<noteq> [] then out_line [''last_error: '', snLastError s] else [])"

subsection \<open>Taking over the metrics port\<close>

text \<open>
  A predecessor on the port: what its endpoint answers a probe, when it stops answering and when the port is
  free. Until then binding the port fails; afterwards it succeeds. A turn of the retry loop makes its three
  calls one after the other.
\<close>

record predecessor =
  pr_answer :: probe_response
  pr_stops :: instant
  pr_frees :: instant

definition listen_at :: "predecessor \<Rightarrow> instant \<Rightarrow> bind_error option" where
  "listen_at p t = (if t < pr_frees p then Some EADDRINUSE else None)"

definition probe_at :: "predecessor \<Rightarrow> instant \<Rightarrow> Holder option" where
  "probe_at p t = (if t < pr_stops p then probeOne (pr_answer p) else None)"

definition retry_at :: "predecessor \<Rightarrow> instant \<times> instant \<times> instant \<Rightarrow> retry" where
  "retry_at p = (\<lambda>(t, tp, t').
     \<lparr>rt_done = False, rt_listen = listen_at p t, rt_probe = probe_at p tp, rt_again = listen_at p t', rt_ended = False\<rparr>)"

text \<open>A turn that the predecessor's exit does not swallow: the probe is answered, or the port is free when
  it is tried again.\<close>

definition turn_seen :: "predecessor \<Rightarrow> instant \<times> instant \<times> instant \<Rightarrow> bool" where
  "turn_seen p = (\<lambda>(t, tp, t'). tp < pr_stops p \<or> pr_frees p \<le> t')"

lemma await_loop_takes_over:
  assumes "drainingPredecessor (probeOne (pr_answer p)) rl" and "list_all (turn_seen p) ts"
    and "list_ex (\<lambda>(t, _). pr_frees p \<le> t) ts"
  shows "await_loop rl (map (retry_at p) ts) = Some Listener"
  using assms(2,3)
proof (induction ts)
  case (Cons x ts)
  obtain t tp t' where x: "x = (t, tp, t')" by (cases x)
  show ?case
  proof (cases "pr_frees p \<le> t")
    case False
    then show ?thesis using Cons x assms(1)
      by (cases "tp < pr_stops p") (auto simp: retry_at_def listen_at_def probe_at_def turn_seen_def IsAddrInUse_def drainingPredecessor_def)
  qed (simp add: x retry_at_def listen_at_def)
qed simp



subsection \<open>Detecting the daemon\<close>

lemma splitNUL_args:
  "list_all (\<lambda>a. a \<noteq> [] \<and> CHR 0x00 \<notin> set a) argv \<Longrightarrow> splitNUL (concat (map (\<lambda>a. a @ [CHR 0x00]) argv)) = argv"
proof (induction argv)
  case Nil
  then show ?case using Split_none [of "CHR 0x00" "[]"] by (simp add: splitNUL_def)
next
  case (Cons a argv)
  then show ?case using Split_char [of "CHR 0x00" a "concat (map (\<lambda>a. a @ [CHR 0x00]) argv)"] by (simp add: splitNUL_def)
qed

lemma map_filter_none: "list_all (\<lambda>x. f x = None) xs \<Longrightarrow> List.map_filter f xs = []"
  by (induction xs) (auto simp: List.map_filter_def)

lemma map_filter_mid: "List.map_filter f (xs @ y # ys) = List.map_filter f xs @ (case f y of None \<Rightarrow> [] | Some z \<Rightarrow> [z]) @ List.map_filter f ys"
  by (auto simp: List.map_filter_def)

text \<open>The running daemon is found with the configuration it was started with: a process whose executable is
  named \<^verbatim>\<open>coen\<close> and whose arguments are \<^verbatim>\<open>edge\<close> or \<^verbatim>\<open>agent\<close> and its options is detected with that role and with the
  configuration file its arguments name, whatever it calls itself, as long as nothing else in the process table is
  a daemon of coen.\<close>

theorem running_daemon_detected:
  assumes "Atoi pid = Some n" and "rl = ''edge'' \<or> rl = ''agent''" and "Base exe = ''coen''"
    and "list_all (\<lambda>a. a \<noteq> [] \<and> CHR 0x00 \<notin> set a) (name # rl # args)"
    and "list_all (\<lambda>e. entry_daemon e = None) (before @ after)"
  shows "detectRole (enumerateDaemons (Some (before @
      \<lparr>pe_name = pid, pe_cmdline = Some (concat (map (\<lambda>a. a @ [CHR 0x00]) (name # rl # args))), pe_exe = Some exe\<rparr> # after))) =
    Inr (rl, configFromArgs args rl)"
proof -
  let ?raw = "concat (map (\<lambda>a. a @ [CHR 0x00]) (name # rl # args))"
  let ?d = "\<lparr>dm_pid = n, dm_role = rl, dm_config = configFromArgs args rl\<rparr>"
  have "splitNUL ?raw = name # rl # args" using assms(4) by (rule splitNUL_args)
  moreover have "?raw \<noteq> []" by simp
  ultimately have "entry_daemon \<lparr>pe_name = pid, pe_cmdline = Some ?raw, pe_exe = Some exe\<rparr> = Some ?d"
    using assms(1-3) by (simp add: entry_daemon_def parseDaemon_def Let_def del: concat.simps list.map)
  moreover have "List.map_filter entry_daemon before = []" "List.map_filter entry_daemon after = []"
    using assms(5) by (simp_all add: map_filter_none)
  ultimately have "enumerateDaemons (Some (before @ \<lparr>pe_name = pid, pe_cmdline = Some ?raw, pe_exe = Some exe\<rparr> # after)) = Some [?d]"
    by (simp add: enumerateDaemons_def map_filter_mid del: concat.simps list.map)
  then show ?thesis by (simp only:) (simp add: detectRole_def)
qed

theorem running_daemon_detected_witness:
  "detectRole (enumerateDaemons (Some [\<lparr>pe_name = ''self'', pe_cmdline = None, pe_exe = None\<rparr>,
     \<lparr>pe_name = ''42'', pe_cmdline = Some (concat (map (\<lambda>a. a @ [CHR 0x00]) [''whatever'', ''edge'', ''--config=/srv/e.yaml''])),
       pe_exe = Some ''/usr/bin/coen''\<rparr>])) = Inr (''edge'', ''/srv/e.yaml'')"
proof -
  have a: "Atoi ''42'' = Some 42" "Base ''/usr/bin/coen'' = ''coen''" "configFromArgs [''--config=/srv/e.yaml''] ''edge'' = ''/srv/e.yaml''"
    by code_simp+
  have "entry_daemon \<lparr>pe_name = ''self'', pe_cmdline = None, pe_exe = None\<rparr> = None" by code_simp
  then show ?thesis using running_daemon_detected [OF a(1) _ a(2), of "''edge''" "''whatever''" "[''--config=/srv/e.yaml'']"
      "[\<lparr>pe_name = ''self'', pe_cmdline = None, pe_exe = None\<rparr>]" "[]"] a(3) by simp
qed

text \<open>C40. After an upgrade the daemon is missed: once its executable has been replaced on disk, the kernel appends
  ` (deleted)' to the link the detection reads, so that a daemon still running the old binary is not found.\<close>

theorem replaced_binary_not_detected:
  "entry_daemon (e\<lparr>pe_exe := Some (path @ '' (deleted)'')\<rparr>) = None"
proof -
  let ?p = "path @ '' (deleted)''"
  have "rev (dropWhile (\<lambda>c. c = SLASH) (rev ?p)) = ?p" by simp
  moreover have "\<exists>q. after_slash ?p = q @ '')''" by (simp add: after_slash_def)
  ultimately have "Base ?p \<noteq> ''coen''" by (auto simp: Base_def Let_def)
  then show ?thesis by (auto simp: entry_daemon_def parseDaemon_def Let_def split: option.splits)
qed

end
