(* ===== verification/Pki.thy ===== *)
theory Pki
  imports Go_Base64 Go_Net Go_Path
begin

text \<open>
  Package \<^verbatim>\<open>internal/pki\<close> (the tunnel's certificate authority and fingerprints), the loading of
  the tunnel's trust material (\<^verbatim>\<open>internal/tunnel/material.go\<close>) and the commands of
  \<^verbatim>\<open>internal/cli/cert.go\<close> that create an authority and issue certificates in a directory. What
  \<^verbatim>\<open>crypto/x509\<close>, \<^verbatim>\<open>encoding/pem\<close> and the random source do is a record of functions; the digest
  of a certificate is an argument.
\<close>

subsection \<open>Certificates\<close>

datatype ext_usage = ServerAuth | ClientAuth

text \<open>The fields the code sets in a template; \<open>bool\<close>s for key usages.\<close>

record certificate =
  c_Serial :: nat
  c_CommonName :: string
  c_NotBefore :: instant
  c_NotAfter :: "nat \<times> instant"  \<comment> \<open>years added to a time\<close>
  c_CertSign :: bool
  c_CRLSign :: bool
  c_DigitalSignature :: bool
  c_BasicConstraints :: bool
  c_IsCA :: bool
  c_ExtUsage :: "ext_usage list"
  c_IPs :: "ip list"
  c_DNS :: "string list"

datatype private_key = Ed25519 bytes | OtherKey bytes

record CA =
  ca_Cert :: certificate
  ca_Key :: bytes
  ca_certPEM :: bytes
  ca_keyPEM :: bytes

text \<open>The library: creating a certificate from a template under a parent with a subject key and a
  signing key, parsing one, private keys in PKCS8, PEM blocks by type.\<close>

record x509 =
  CreateCertificate :: "certificate \<Rightarrow> certificate \<Rightarrow> bytes \<Rightarrow> bytes \<Rightarrow> bytes option"
  ParseCertificate :: "bytes \<Rightarrow> certificate option"
  MarshalPKCS8 :: "bytes \<Rightarrow> bytes option"
  ParsePKCS8 :: "bytes \<Rightarrow> private_key option"
  pem_Encode :: "string \<Rightarrow> bytes \<Rightarrow> bytes"
  pem_Decode :: "bytes \<Rightarrow> bytes option"

text \<open>What a call draws: a key pair (public and private), a serial number, and the time.\<close>

record draws =
  g_key :: "(bytes \<times> bytes) option"
  g_serial :: "nat option"
  g_now :: instant

definition encodeKey :: "x509 \<Rightarrow> bytes \<Rightarrow> bytes option" where
  "encodeKey x priv = map_option (pem_Encode x ''PRIVATE KEY'') (MarshalPKCS8 x priv)"

definition ca_template :: "nat \<Rightarrow> instant \<Rightarrow> certificate" where
  "ca_template sn now = \<lparr>c_Serial = sn, c_CommonName = ''Coen CA'', c_NotBefore = now - 60 * second, c_NotAfter = (10, now),
     c_CertSign = True, c_CRLSign = True, c_DigitalSignature = False, c_BasicConstraints = True, c_IsCA = True,
     c_ExtUsage = [], c_IPs = [], c_DNS = []\<rparr>"

definition CreateCA :: "x509 \<Rightarrow> draws \<Rightarrow> CA option" where
  "CreateCA x g = (case g_key g of
      None \<Rightarrow> None
    | Some (pub, priv) \<Rightarrow> (case g_serial g of
          None \<Rightarrow> None
        | Some sn \<Rightarrow>
            (let tmpl = ca_template sn (g_now g)
             in case CreateCertificate x tmpl tmpl pub priv of
                  None \<Rightarrow> None
                | Some der \<Rightarrow> (case ParseCertificate x der of
                      None \<Rightarrow> None
                    | Some cert \<Rightarrow> (case encodeKey x priv of
                          None \<Rightarrow> None
                        | Some keyPEM \<Rightarrow> Some \<lparr>ca_Cert = cert, ca_Key = priv, ca_certPEM = pem_Encode x ''CERTIFICATE'' der,
                            ca_keyPEM = keyPEM\<rparr>)))))"

datatype ca_error = NoPEMCert | BadCert | NotCA | NoPEMKey | BadKey | NotEd25519

definition parseCertPEM :: "x509 \<Rightarrow> bytes \<Rightarrow> ca_error + certificate" where
  "parseCertPEM x certPEM = (case pem_Decode x certPEM of
      None \<Rightarrow> Inl NoPEMCert
    | Some der \<Rightarrow> (case ParseCertificate x der of None \<Rightarrow> Inl BadCert | Some c \<Rightarrow> Inr c))"

definition LoadCA :: "x509 \<Rightarrow> bytes \<Rightarrow> bytes \<Rightarrow> ca_error + CA" where
  "LoadCA x certPEM keyPEM = (case parseCertPEM x certPEM of
      Inl e \<Rightarrow> Inl e
    | Inr cert \<Rightarrow>
        if \<not> c_IsCA cert then Inl NotCA
        else (case pem_Decode x keyPEM of
            None \<Rightarrow> Inl NoPEMKey
          | Some b \<Rightarrow> (case ParsePKCS8 x b of
                None \<Rightarrow> Inl BadKey
              | Some (OtherKey _) \<Rightarrow> Inl NotEd25519
              | Some (Ed25519 k) \<Rightarrow> Inr \<lparr>ca_Cert = cert, ca_Key = k, ca_certPEM = certPEM, ca_keyPEM = keyPEM\<rparr>)))"

text \<open>\<^verbatim>\<open>issue\<close>: the PEM certificate and key of a leaf, signed by the authority.\<close>

definition issue :: "x509 \<Rightarrow> CA \<Rightarrow> (bytes \<times> bytes) option \<Rightarrow> certificate \<Rightarrow> (bytes \<times> bytes) option" where
  "issue x ca kp tmpl = (case kp of
      None \<Rightarrow> None
    | Some (pub, priv) \<Rightarrow> (case CreateCertificate x tmpl (ca_Cert ca) pub (ca_Key ca) of
          None \<Rightarrow> None
        | Some der \<Rightarrow> (case encodeKey x priv of
              None \<Rightarrow> None
            | Some keyPEM \<Rightarrow> Some (pem_Encode x ''CERTIFICATE'' der, keyPEM))))"

definition leaf_template :: "nat \<Rightarrow> string \<Rightarrow> instant \<Rightarrow> ext_usage \<Rightarrow> certificate" where
  "leaf_template sn name now usage = \<lparr>c_Serial = sn, c_CommonName = name, c_NotBefore = now - 60 * second, c_NotAfter = (1, now),
     c_CertSign = False, c_CRLSign = False, c_DigitalSignature = True, c_BasicConstraints = False, c_IsCA = False,
     c_ExtUsage = [usage], c_IPs = [], c_DNS = []\<rparr>"

definition server_template :: "nat \<Rightarrow> string \<Rightarrow> instant \<Rightarrow> certificate" where
  "server_template sn host now =
     (let tmpl = leaf_template sn host now ServerAuth
      in case ParseIP host of Some ip \<Rightarrow> tmpl\<lparr>c_IPs := [ip]\<rparr> | None \<Rightarrow> tmpl\<lparr>c_DNS := [host]\<rparr>)"

definition IssueServer :: "x509 \<Rightarrow> CA \<Rightarrow> draws \<Rightarrow> string \<Rightarrow> (bytes \<times> bytes) option" where
  "IssueServer x ca g host = (case g_serial g of
      None \<Rightarrow> None
    | Some sn \<Rightarrow> issue x ca (g_key g) (server_template sn host (g_now g)))"

definition IssueClient :: "x509 \<Rightarrow> CA \<Rightarrow> draws \<Rightarrow> string \<Rightarrow> (bytes \<times> bytes) option" where
  "IssueClient x ca g name = (case g_serial g of
      None \<Rightarrow> None
    | Some sn \<Rightarrow> issue x ca (g_key g) (leaf_template sn name (g_now g) ClientAuth))"

subsection \<open>Fingerprints\<close>

definition fp_prefix :: string where
  "fp_prefix = ''SHA256:''"

text \<open>\<^verbatim>\<open>Fingerprint\<close>, given the SHA-256 digest of the certificate.\<close>

definition Fingerprint :: "bytes \<Rightarrow> string" where
  "Fingerprint digest = fp_prefix @ EncodeToString digest"

datatype fp_error = NoPrefix | NotBase64 | WrongLength nat

definition ValidateFingerprint :: "string \<Rightarrow> fp_error option" where
  "ValidateFingerprint s =
     (if \<not> HasPrefix s fp_prefix then Some NoPrefix
      else (case DecodeString (drop (length fp_prefix) s) of
          None \<Rightarrow> Some NotBase64
        | Some raw \<Rightarrow> if length raw \<noteq> 32 then Some (WrongLength (length raw)) else None))"

definition FingerprintPEM :: "x509 \<Rightarrow> (certificate \<Rightarrow> bytes) \<Rightarrow> bytes \<Rightarrow> ca_error + string" where
  "FingerprintPEM x digest certPEM = (case parseCertPEM x certPEM of Inl e \<Rightarrow> Inl e | Inr c \<Rightarrow> Inr (Fingerprint (digest c)))"

subsection \<open>Files (cert.go, material.go)\<close>

type_synonym files = "string \<rightharpoonup> bytes"

definition in_dir :: "string \<Rightarrow> string \<Rightarrow> string" where
  "in_dir dir name = Join [dir, name]"

datatype cert_error = CertExists | MkdirFailed | CreateFailed | WriteFailed string | ReadFailed string | LoadFailed ca_error
  | HostRequired | NameRequired | IssueFailed

text \<open>\<^verbatim>\<open>WritePEM\<close>; \<open>ok\<close> says which paths can be written.\<close>

definition WritePEM :: "(string \<Rightarrow> bool) \<Rightarrow> string \<Rightarrow> bytes \<Rightarrow> files \<Rightarrow> cert_error option \<times> files" where
  "WritePEM ok path data fs = (if ok path then (None, fs(path \<mapsto> data)) else (Some (WriteFailed path), fs))"

definition write_pair :: "(string \<Rightarrow> bool) \<Rightarrow> string \<Rightarrow> bytes \<Rightarrow> string \<Rightarrow> bytes \<Rightarrow> files \<Rightarrow> cert_error option \<times> files" where
  "write_pair ok p1 d1 p2 d2 fs = (case WritePEM ok p1 d1 fs of
      (Some e, fs') \<Rightarrow> (Some e, fs')
    | (None, fs') \<Rightarrow> WritePEM ok p2 d2 fs')"

definition cert_init :: "x509 \<Rightarrow> (string \<Rightarrow> bool) \<Rightarrow> bool \<Rightarrow> draws \<Rightarrow> string \<Rightarrow> bool \<Rightarrow> files \<Rightarrow> cert_error option \<times> files" where
  "cert_init x ok mkdir g dir force fs =
     (if fs (in_dir dir ''ca.crt'') \<noteq> None \<and> \<not> force then (Some CertExists, fs)
      else if \<not> mkdir then (Some MkdirFailed, fs)
      else (case CreateCA x g of
          None \<Rightarrow> (Some CreateFailed, fs)
        | Some ca \<Rightarrow> write_pair ok (in_dir dir ''ca.crt'') (ca_certPEM ca) (in_dir dir ''ca.key'') (ca_keyPEM ca) fs))"

definition loadCADir :: "x509 \<Rightarrow> string \<Rightarrow> files \<Rightarrow> cert_error + CA" where
  "loadCADir x dir fs = (case fs (in_dir dir ''ca.crt'') of
      None \<Rightarrow> Inl (ReadFailed ''ca.crt'')
    | Some caCert \<Rightarrow> (case fs (in_dir dir ''ca.key'') of
          None \<Rightarrow> Inl (ReadFailed ''ca.key'')
        | Some caKey \<Rightarrow> (case LoadCA x caCert caKey of Inl e \<Rightarrow> Inl (LoadFailed e) | Inr ca \<Rightarrow> Inr ca)))"

definition writeLeaf :: "(string \<Rightarrow> bool) \<Rightarrow> string \<Rightarrow> string \<Rightarrow> bytes \<Rightarrow> bytes \<Rightarrow> files \<Rightarrow> cert_error option \<times> files" where
  "writeLeaf ok dir role certPEM keyPEM fs =
     write_pair ok (in_dir dir (role @ ''.crt'')) certPEM (in_dir dir (role @ ''.key'')) keyPEM fs"

definition cert_edge :: "x509 \<Rightarrow> (string \<Rightarrow> bool) \<Rightarrow> draws \<Rightarrow> string \<Rightarrow> string \<Rightarrow> files \<Rightarrow> cert_error option \<times> files" where
  "cert_edge x ok g dir host fs =
     (if host = [] then (Some HostRequired, fs)
      else (case loadCADir x dir fs of
          Inl e \<Rightarrow> (Some e, fs)
        | Inr ca \<Rightarrow> (case IssueServer x ca g host of
              None \<Rightarrow> (Some IssueFailed, fs)
            | Some (c, k) \<Rightarrow> writeLeaf ok dir ''edge'' c k fs)))"

definition cert_agent :: "x509 \<Rightarrow> (string \<Rightarrow> bool) \<Rightarrow> draws \<Rightarrow> string \<Rightarrow> string \<Rightarrow> files \<Rightarrow> cert_error option \<times> files" where
  "cert_agent x ok g dir name fs =
     (if name = [] then (Some NameRequired, fs)
      else (case loadCADir x dir fs of
          Inl e \<Rightarrow> (Some e, fs)
        | Inr ca \<Rightarrow> (case IssueClient x ca g name of
              None \<Rightarrow> (Some IssueFailed, fs)
            | Some (c, k) \<Rightarrow> writeLeaf ok dir ''agent'' c k fs)))"

datatype material_error = ReadCA | NoCerts | LoadPair string

definition CertPoolFromPEM :: "(bytes \<Rightarrow> certificate list) \<Rightarrow> bytes \<Rightarrow> certificate list option" where
  "CertPoolFromPEM AppendCerts caPEM = (case AppendCerts caPEM of [] \<Rightarrow> None | cs \<Rightarrow> Some cs)"

definition LoadMaterial :: "(bytes \<Rightarrow> certificate list) \<Rightarrow> (string \<Rightarrow> string \<Rightarrow> 'pair option) \<Rightarrow> files \<Rightarrow> string \<Rightarrow> string \<Rightarrow> string \<Rightarrow> string \<Rightarrow>
    material_error + certificate list \<times> 'pair" where
  "LoadMaterial AppendCerts LoadX509KeyPair fs caPath certPath keyPath label = (case fs caPath of
      None \<Rightarrow> Inl ReadCA
    | Some pem \<Rightarrow> (case CertPoolFromPEM AppendCerts pem of
          None \<Rightarrow> Inl NoCerts
        | Some pool \<Rightarrow> (case LoadX509KeyPair certPath keyPath of
              None \<Rightarrow> Inl (LoadPair label)
            | Some pair \<Rightarrow> Inr (pool, pair))))"

subsection \<open>Fingerprints identify certificates\<close>

lemma validate_Fingerprint: "length d = 32 \<Longrightarrow> ValidateFingerprint (Fingerprint d) = None"
  by (simp add: ValidateFingerprint_def Fingerprint_def HasPrefix_def DecodeString_EncodeToString)

lemma Fingerprint_inj: "Fingerprint d = Fingerprint e \<longleftrightarrow> d = e"
proof -
  have "d = e" if "EncodeToString d = EncodeToString e"
    using that DecodeString_EncodeToString by (metis option.inject)
  then show ?thesis by (auto simp: Fingerprint_def)
qed

text \<open>A fingerprint identifies a certificate's digest: the fingerprint of every digest is well-formed by
  the code's own check, and two digests with the same fingerprint are equal.\<close>

theorem fingerprint_identifies:
  assumes "length d = 32"
  shows "ValidateFingerprint (Fingerprint d) = None \<and> (\<forall>e. Fingerprint e = Fingerprint d \<longleftrightarrow> e = d)"
  using validate_Fingerprint [OF assms] Fingerprint_inj by blast

theorem fingerprint_identifies_witness:
  "ValidateFingerprint (Fingerprint (replicate 32 CR)) = None \<and> Fingerprint (replicate 32 LF) \<noteq> Fingerprint (replicate 32 CR)"
  using fingerprint_identifies [of "replicate 32 CR"] by (simp add: numeral_eq_Suc)

text \<open>The check of a fingerprint accepts more than fingerprints: some strings that no certificate has
  as its fingerprint, among them the fingerprint of a digest with a line break in it and one
  whose last character before the padding has other unused bits, are found well-formed.\<close>

definition broken_fp :: string where
  "broken_fp = fp_prefix @ LF # EncodeToString (replicate 32 CR)"

definition padded_fp :: string where
  "padded_fp = fp_prefix @ replicate 42 (CHR ''A'') @ ''B=''"

theorem wellformed_without_certificate:
  "ValidateFingerprint broken_fp = None \<and> ValidateFingerprint padded_fp = None \<and>
     (\<forall>d. Fingerprint d \<noteq> broken_fp \<and> Fingerprint d \<noteq> padded_fp)"
proof -
  have dec: "DecodeString (LF # s) = DecodeString s" for s by (simp add: DecodeString_def)
  have "ValidateFingerprint broken_fp = None"
    by (simp add: broken_fp_def ValidateFingerprint_def HasPrefix_def dec DecodeString_EncodeToString)
  moreover have p: "DecodeString (replicate 42 (CHR ''A'') @ ''B='') = Some (replicate 32 (CHR 0x00))" by code_simp
  then have "ValidateFingerprint padded_fp = None" by (simp add: padded_fp_def ValidateFingerprint_def HasPrefix_def)
  moreover have "Fingerprint d \<noteq> broken_fp" for d
    using EncodeToString_no_breaks [of d] by (auto simp: Fingerprint_def broken_fp_def)
  moreover have "Fingerprint d \<noteq> padded_fp" for d
  proof
    assume "Fingerprint d = padded_fp"
    then have e: "EncodeToString d = replicate 42 (CHR ''A'') @ ''B=''" by (simp add: Fingerprint_def padded_fp_def)
    with p DecodeString_EncodeToString [of d] have "d = replicate 32 (CHR 0x00)" by simp
    moreover have "EncodeToString (replicate 32 (CHR 0x00)) \<noteq> replicate 42 (CHR ''A'') @ ''B=''" by code_simp
    ultimately show False using e by simp
  qed
  ultimately show ?thesis by blast
qed

subsection \<open>Creating an authority and issuing under it\<close>

lemma after_slash_append: "SLASH \<notin> set n \<Longrightarrow> after_slash (p @ SLASH # n) = n"
proof -
  assume n: "SLASH \<notin> set n"
  have "takeWhile (\<lambda>c. c \<noteq> SLASH) (rev n @ SLASH # q) = rev n" for q
    using n by (induction n rule: rev_induct) auto
  then show ?thesis by (simp add: after_slash_def)
qed

lemma after_slash_none: "SLASH \<notin> set n \<Longrightarrow> after_slash n = n"
proof -
  assume "SLASH \<notin> set n"
  then have "takeWhile (\<lambda>c. c \<noteq> SLASH) (rev n) = rev n" by (induction n rule: rev_induct) auto
  then show ?thesis unfolding after_slash_def by (simp only: rev_rev_ident)
qed

lemma join_elems_last: "join_elems (es @ [n]) = (if es = [] then n else join_elems es @ SLASH # n)"
  by (induction es rule: join_elems.induct) simp_all

definition plain_elem :: "string \<Rightarrow> bool" where
  "plain_elem n \<longleftrightarrow> SLASH \<notin> set n \<and> n \<noteq> '''' \<and> n \<noteq> ''.'' \<and> n \<noteq> ''..''"

lemma Clean_last:
  assumes "plain_elem n" and "p = n \<or> p = q @ SLASH # n"
  shows "after_slash (Clean p) = n"
proof -
  have n: "SLASH \<notin> set n" "n \<noteq> ''''" "n \<noteq> ''.''" "n \<noteq> ''..''" using assms(1) by (simp_all add: plain_elem_def)
  from assms(2) obtain es where "Split p ''/'' = es @ [n]"
    using Split_none [OF n(1)] Split_last [OF n(1), of q] by auto
  then obtain ks where ks: "foldl (clean_elem r) [] (Split p ''/'') = n # ks r" for r
    using n by (simp add: clean_elem_def)
  have body: "after_slash (join_elems (rev (n # ks r))) = n" "join_elems (rev (n # ks r)) \<noteq> ''''" for r
    using n after_slash_append [OF n(1)] after_slash_none [OF n(1)] by (simp_all add: join_elems_last)
  moreover have "after_slash (SLASH # b) = after_slash b" if "after_slash b = n" for b
  proof (cases "SLASH \<in> set b")
    case True
    then have "\<exists>x \<in> set (rev b). \<not> (x \<noteq> SLASH)" by auto
    then show ?thesis unfolding after_slash_def by (simp add: takeWhile_append1)
  next
    case False
    with after_slash_append [OF False, of "[]"] after_slash_none [OF False] show ?thesis by simp
  qed
  ultimately show ?thesis by (simp add: Clean_def Let_def ks del: rev.simps)
qed

lemma in_dir_name: "plain_elem n \<Longrightarrow> after_slash (in_dir dir n) = n"
proof -
  assume n: "plain_elem n"
  then have "n \<noteq> ''''" by (simp add: plain_elem_def)
  with n show ?thesis by (cases "dir = ''''") (simp_all add: in_dir_def Clean_last)
qed

lemma in_dir_distinct: "plain_elem m \<Longrightarrow> plain_elem n \<Longrightarrow> m \<noteq> n \<Longrightarrow> in_dir dir m \<noteq> in_dir dir n"
  using in_dir_name by metis

lemma names_plain:
  "plain_elem ''ca.crt''" "plain_elem ''ca.key''" "plain_elem ''edge.crt''" "plain_elem ''edge.key''" "plain_elem ''agent.crt''" "plain_elem ''agent.key''"
  by (simp_all add: plain_elem_def)

text \<open>What the library's documentation promises: parsing undoes encoding.\<close>

definition x509_laws :: "x509 \<Rightarrow> bool" where
  "x509_laws x \<longleftrightarrow>
     (\<forall>t b. pem_Decode x (pem_Encode x t b) = Some b) \<and>
     (\<forall>k der. MarshalPKCS8 x k = Some der \<longrightarrow> ParsePKCS8 x der = Some (Ed25519 k)) \<and>
     (\<forall>t p pub k der. CreateCertificate x t p pub k = Some der \<longrightarrow> ParseCertificate x der = Some t)"

lemma CreateCA_LoadCA:
  assumes "x509_laws x" and "CreateCA x g = Some ca"
  shows "LoadCA x (ca_certPEM ca) (ca_keyPEM ca) = Inr ca"
  using assms by (auto simp: CreateCA_def LoadCA_def parseCertPEM_def encodeKey_def x509_laws_def Let_def ca_template_def
      split: option.splits prod.splits)

lemma write_pair_None:
  assumes "write_pair ok p1 d1 p2 d2 fs = (None, fs')"
  shows "fs' = fs(p1 \<mapsto> d1, p2 \<mapsto> d2)"
  using assms by (auto simp: write_pair_def WritePEM_def split: prod.splits option.splits if_splits)

lemma issued_leaf:
  assumes "x509_laws x" and "issue x ca kp tmpl = Some (c, k)"
  shows "parseCertPEM x c = Inr tmpl"
  using assms by (auto simp: issue_def parseCertPEM_def x509_laws_def split: option.splits prod.splits)



text \<open>A library in which a certificate is the serial number and the host that its bytes spell.\<close>

definition sample_x509 :: "certificate \<Rightarrow> certificate \<Rightarrow> x509" where
  "sample_x509 c1 c2 = \<lparr>CreateCertificate = (\<lambda>t p pub k. if t = c1 then Some ''1'' else if t = c2 then Some ''2'' else None),
     ParseCertificate = (\<lambda>d. if d = ''1'' then Some c1 else if d = ''2'' then Some c2 else None),
     MarshalPKCS8 = Some, ParsePKCS8 = Some \<circ> Ed25519, pem_Encode = (\<lambda>t b. CHR ''-'' # b),
     pem_Decode = (\<lambda>b. case b of [] \<Rightarrow> None | _ # d \<Rightarrow> Some d)\<rparr>"


end
