(* ===== verification/Admin.thy ===== *)
theory Admin
  imports Obs Logging
begin

text \<open>
  Package \<^verbatim>\<open>internal/admin\<close>: the status socket of a daemon. The first part has the lock next to the
  socket (lock_unix.go), the request handler and the two client calls (admin.go). The second runs
  several daemons on one socket path, each with the steps of \<^verbatim>\<open>Serve\<close> and its cleanup, against a
  file system in which the kernel hands out inode numbers.
\<close>

subsection \<open>The lock (lock_unix.go)\<close>

datatype lockState = lockHeld | lockUnavailable | lockContended

text \<open>One attempt to take the lock: it succeeded, another process has it (with whether the deadline
  has passed), or it cannot be used. \<^verbatim>\<open>lockSocketPath\<close>, given whether the lock file opened; \<open>None\<close> when
  the listed attempts do not end the wait.\<close>

datatype flock = FlockOK | WouldBlock bool | FlockError

fun lock_loop :: "flock list \<Rightarrow> lockState option" where
  "lock_loop [] = None"
| "lock_loop (a # as) = (case a of
      FlockOK \<Rightarrow> Some lockHeld
    | FlockError \<Rightarrow> Some lockUnavailable
    | WouldBlock late \<Rightarrow> if late then Some lockContended else lock_loop as)"

definition lockSocketPath :: "bool \<Rightarrow> flock list \<Rightarrow> lockState option" where
  "lockSocketPath opened as = (if \<not> opened then Some lockUnavailable else lock_loop as)"

text \<open>The wait ends: once the deadline has passed, no further attempt is made.\<close>

lemma lockSocketPath_ends: "WouldBlock True \<in> set as \<Longrightarrow> lockSocketPath opened as \<noteq> None"
proof -
  have "WouldBlock True \<in> set as \<Longrightarrow> lock_loop as \<noteq> None" by (induction as) (auto split: flock.splits)
  then show "WouldBlock True \<in> set as \<Longrightarrow> ?thesis" by (simp add: lockSocketPath_def)
qed

subsection \<open>Requests (admin.go)\<close>

definition maxRequestBytes :: nat where
  "maxRequestBytes = 4096"

definition defaultHandleTimeout :: duration where
  "defaultHandleTimeout = 5 * second"

definition defaultLockWait :: duration where
  "defaultLockWait = 2 * second"

definition lockWait :: "duration \<Rightarrow> duration" where
  "lockWait configured = (if 0 < configured then configured else defaultLockWait)"

definition reqTimeout :: "duration \<Rightarrow> duration" where
  "reqTimeout configured = (if 0 < configured then configured else defaultHandleTimeout)"

text \<open>\<^verbatim>\<open>ReadString\<close> of a line from at most \<^verbatim>\<open>maxRequestBytes\<close> of what the client sends before the
  connection ends or times out.\<close>

definition read_request :: "bytes \<Rightarrow> string option" where
  "read_request sent =
     (case IndexByte (take maxRequestBytes sent) LF of
        None \<Rightarrow> None
      | Some i \<Rightarrow> Some (take (Suc i) sent))"

text \<open>\<^verbatim>\<open>handle\<close>: what the client sends, the encoded snapshot, the daemon's level and what setting it
  returns; the reply and the level afterwards. \<^verbatim>\<open>%q\<close> of the unknown level is an argument.\<close>

definition level_error_text :: "(string \<Rightarrow> string) \<Rightarrow> log_error \<Rightarrow> string" where
  "level_error_text quoted e = (case e of
      UnknownLevel s \<Rightarrow> ''unknown log level '' @ quoted s
    | UnknownFormat s \<Rightarrow> ''unknown log format '' @ quoted s)"

definition handle :: "(string \<Rightarrow> string) \<Rightarrow> bytes \<Rightarrow> string \<Rightarrow> (level \<Rightarrow> string option) \<Rightarrow> level \<Rightarrow> bytes \<times> level" where
  "handle quoted sent status set_error lv = (case read_request sent of
      None \<Rightarrow> ([], lv)
    | Some line \<Rightarrow> (case Fields line of
          [] \<Rightarrow> ([], lv)
        | cmd # args \<Rightarrow>
            if cmd = ''status'' then (status @ [LF], lv)
            else if cmd = ''level'' then
              (case args of
                 [name] \<Rightarrow> (case ParseLevel name of
                     Inl e \<Rightarrow> (''error: '' @ level_error_text quoted e @ [LF], lv)
                   | Inr l \<Rightarrow> (case set_error l of
                         Some e \<Rightarrow> (''error: '' @ e @ [LF], lv)
                       | None \<Rightarrow> (''ok'' @ [LF], l)))
               | _ \<Rightarrow> (''error: usage: level <name>'' @ [LF], lv))
            else (''error: unknown command'' @ [LF], lv)))"

text \<open>The client calls: \<^verbatim>\<open>SetLevel\<close> sends a request line and takes the reply \<^verbatim>\<open>ok\<close> for success;
  \<^verbatim>\<open>Status\<close> decodes the reply.\<close>

definition level_request :: "string \<Rightarrow> bytes" where
  "level_request level = ''level '' @ level @ [LF]"

definition SetLevel_result :: "bytes \<Rightarrow> string option" where
  "SetLevel_result reply =
     (let resp = TrimSpace (case IndexByte reply LF of None \<Rightarrow> reply | Some i \<Rightarrow> take (Suc i) reply)
      in if resp \<noteq> ''ok'' then Some resp else None)"

definition Status_request :: bytes where
  "Status_request = ''status'' @ [LF]"

definition Status_result :: "(bytes \<Rightarrow> 'snap option) \<Rightarrow> bytes \<Rightarrow> 'snap option" where
  "Status_result decode reply = decode reply"

subsection \<open>Serving a socket path (admin.go, Serve)\<close>

text \<open>Where a daemon is in \<^verbatim>\<open>Serve\<close>: before it, with the lock (or having given up on it), having
  removed the path, listening, having looked at its own file, serving; then in the cleanup, with the
  listener closed, having the lock, having compared the files, and done.\<close>

datatype phase = Waiting | Locking | Removed | Listening | Examined | Serving
  | ClosedListener | CleanLocked | Compared bool | Finished

record daemon_state =
  d_phase :: phase
  d_lock :: lockState  \<comment> \<open>what the last lock attempt gave\<close>
  d_ino :: "nat option"  \<comment> \<open>the inode of its open listener\<close>
  d_ours :: "nat option"  \<comment> \<open>the inode it recorded as its own\<close>

type_synonym daemon_id = nat

record socket_sys =
  ss_path :: "nat option"  \<comment> \<open>the inode the path leads to\<close>
  ss_ever :: "nat set"  \<comment> \<open>inodes handed out so far\<close>
  ss_lock :: "daemon_id option"
  ss_daemon :: "daemon_id \<Rightarrow> daemon_state"
  ss_newest :: "daemon_id option"  \<comment> \<open>the daemon that listened last, until another takes over\<close>

definition set_daemon :: "daemon_id \<Rightarrow> daemon_state \<Rightarrow> socket_sys \<Rightarrow> socket_sys" where
  "set_daemon d x \<sigma> = \<sigma>\<lparr>ss_daemon := (ss_daemon \<sigma>)(d := x)\<rparr>"

definition serve_lock :: "lockState \<Rightarrow> daemon_id \<Rightarrow> socket_sys \<Rightarrow> socket_sys" where
  "serve_lock st d \<sigma> =
     (let \<sigma>' = (if st = lockHeld then \<sigma>\<lparr>ss_lock := Some d\<rparr> else \<sigma>)
      in set_daemon d ((ss_daemon \<sigma> d)\<lparr>d_phase := Locking, d_lock := st\<rparr>) \<sigma>')"

definition serve_remove :: "daemon_id \<Rightarrow> socket_sys \<Rightarrow> socket_sys" where
  "serve_remove d \<sigma> =
     set_daemon d ((ss_daemon \<sigma> d)\<lparr>d_phase := Removed\<rparr>) (\<sigma>\<lparr>ss_path := None, ss_newest := None\<rparr>)"

definition unlock :: "daemon_id \<Rightarrow> socket_sys \<Rightarrow> socket_sys" where
  "unlock d \<sigma> = (if d_lock (ss_daemon \<sigma> d) = lockHeld then \<sigma>\<lparr>ss_lock := None\<rparr> else \<sigma>)"

text \<open>\<^verbatim>\<open>net.Listen\<close> makes a new file; it fails when the path exists.\<close>

definition serve_listen :: "nat option \<Rightarrow> daemon_id \<Rightarrow> socket_sys \<Rightarrow> socket_sys" where
  "serve_listen ino d \<sigma> = (case ino of
      None \<Rightarrow> set_daemon d ((ss_daemon \<sigma> d)\<lparr>d_phase := Finished\<rparr>) (unlock d \<sigma>)
    | Some i \<Rightarrow> set_daemon d ((ss_daemon \<sigma> d)\<lparr>d_phase := Listening, d_ino := Some i\<rparr>)
        (\<sigma>\<lparr>ss_path := Some i, ss_ever := insert i (ss_ever \<sigma>), ss_newest := Some d\<rparr>))"

definition serve_stat :: "daemon_id \<Rightarrow> socket_sys \<Rightarrow> socket_sys" where
  "serve_stat d \<sigma> = set_daemon d ((ss_daemon \<sigma> d)\<lparr>d_phase := Examined, d_ours := ss_path \<sigma>\<rparr>) \<sigma>"

definition serve_unlock :: "daemon_id \<Rightarrow> socket_sys \<Rightarrow> socket_sys" where
  "serve_unlock d \<sigma> = set_daemon d ((ss_daemon \<sigma> d)\<lparr>d_phase := Serving\<rparr>) (unlock d \<sigma>)"

text \<open>The cleanup: closing the listener, the lock, the comparison with \<^verbatim>\<open>os.SameFile\<close> (which compares
  inode numbers), the removal, and the unlock.\<close>

definition cleanup_close :: "daemon_id \<Rightarrow> socket_sys \<Rightarrow> socket_sys" where
  "cleanup_close d \<sigma> = set_daemon d ((ss_daemon \<sigma> d)\<lparr>d_phase := ClosedListener, d_ino := None\<rparr>) \<sigma>"

definition cleanup_lock :: "lockState \<Rightarrow> daemon_id \<Rightarrow> socket_sys \<Rightarrow> socket_sys" where
  "cleanup_lock st d \<sigma> =
     (let \<sigma>' = (if st = lockHeld then \<sigma>\<lparr>ss_lock := Some d\<rparr> else \<sigma>)
      in set_daemon d ((ss_daemon \<sigma> d)\<lparr>d_phase := (if st = lockContended then Finished else CleanLocked), d_lock := st\<rparr>) \<sigma>')"

definition cleanup_compare :: "daemon_id \<Rightarrow> socket_sys \<Rightarrow> socket_sys" where
  "cleanup_compare d \<sigma> =
     (let x = ss_daemon \<sigma> d
      in set_daemon d (x\<lparr>d_phase := Compared (ss_path \<sigma> \<noteq> None \<and> d_ours x \<noteq> None \<and> ss_path \<sigma> = d_ours x)\<rparr>) \<sigma>)"

definition cleanup_remove :: "bool \<Rightarrow> daemon_id \<Rightarrow> socket_sys \<Rightarrow> socket_sys" where
  "cleanup_remove same d \<sigma> =
     (let \<sigma>' = unlock d (if same then \<sigma>\<lparr>ss_path := None\<rparr> else \<sigma>)
      in set_daemon d ((ss_daemon \<sigma> d)\<lparr>d_phase := Finished\<rparr>) \<sigma>')"

text \<open>A lock attempt gives what it can: the lock is taken only when nobody has it, and contended only
  when somebody has.\<close>

definition lock_possible :: "socket_sys \<Rightarrow> lockState \<Rightarrow> bool" where
  "lock_possible \<sigma> st = (case st of lockHeld \<Rightarrow> ss_lock \<sigma> = None | lockContended \<Rightarrow> ss_lock \<sigma> \<noteq> None | lockUnavailable \<Rightarrow> True)"

text \<open>Inode numbers in use: the file at the path and those of open listeners.\<close>

definition ino_used :: "socket_sys \<Rightarrow> nat \<Rightarrow> bool" where
  "ino_used \<sigma> i \<longleftrightarrow> ss_path \<sigma> = Some i \<or> (\<exists>d. d_ino (ss_daemon \<sigma> d) = Some i)"

text \<open>The steps of all daemons. \<^verbatim>\<open>fresh\<close> says which inode number a new file may be given; \<^verbatim>\<open>starts\<close>
  how a starting daemon may fare with the lock.\<close>

inductive socket_step :: "(socket_sys \<Rightarrow> nat \<Rightarrow> bool) \<Rightarrow> lockState set \<Rightarrow> socket_sys \<Rightarrow> socket_sys \<Rightarrow> bool"
  for fresh :: "socket_sys \<Rightarrow> nat \<Rightarrow> bool" and locks :: "lockState set" where
  s_lock: "d_phase (ss_daemon \<sigma> d) = Waiting \<Longrightarrow> st \<in> locks \<Longrightarrow> lock_possible \<sigma> st \<Longrightarrow>
    socket_step fresh locks \<sigma> (serve_lock st d \<sigma>)"
| s_remove: "d_phase (ss_daemon \<sigma> d) = Locking \<Longrightarrow> socket_step fresh locks \<sigma> (serve_remove d \<sigma>)"
| s_listen: "d_phase (ss_daemon \<sigma> d) = Removed \<Longrightarrow> (\<And>i. ino = Some i \<Longrightarrow> ss_path \<sigma> = None \<and> fresh \<sigma> i) \<Longrightarrow>
    socket_step fresh locks \<sigma> (serve_listen ino d \<sigma>)"
| s_stat: "d_phase (ss_daemon \<sigma> d) = Listening \<Longrightarrow> socket_step fresh locks \<sigma> (serve_stat d \<sigma>)"
| s_unlock: "d_phase (ss_daemon \<sigma> d) = Examined \<Longrightarrow> socket_step fresh locks \<sigma> (serve_unlock d \<sigma>)"
| c_close: "d_phase (ss_daemon \<sigma> d) = Serving \<Longrightarrow> socket_step fresh locks \<sigma> (cleanup_close d \<sigma>)"
| c_lock: "d_phase (ss_daemon \<sigma> d) = ClosedListener \<Longrightarrow> st \<in> insert lockContended locks \<Longrightarrow> lock_possible \<sigma> st \<Longrightarrow>
    socket_step fresh locks \<sigma> (cleanup_lock st d \<sigma>)"
| c_compare: "d_phase (ss_daemon \<sigma> d) = CleanLocked \<Longrightarrow> socket_step fresh locks \<sigma> (cleanup_compare d \<sigma>)"
| c_remove: "d_phase (ss_daemon \<sigma> d) = Compared same \<Longrightarrow> socket_step fresh locks \<sigma> (cleanup_remove same d \<sigma>)"

text \<open>At first no daemon runs; the path may lead to a socket an earlier one left.\<close>

definition socket_init :: "socket_sys \<Rightarrow> bool" where
  "socket_init \<sigma> \<longleftrightarrow> (\<forall>i. ss_path \<sigma> = Some i \<longrightarrow> i \<in> ss_ever \<sigma>) \<and> ss_lock \<sigma> = None \<and> ss_newest \<sigma> = None \<and>
     (\<forall>d. ss_daemon \<sigma> d = \<lparr>d_phase = Waiting, d_lock = lockHeld, d_ino = None, d_ours = None\<rparr>)"

text \<open>The two ways to hand out inode numbers: never one that was used before, or any that is not in
  use now.\<close>

definition never_reused :: "socket_sys \<Rightarrow> nat \<Rightarrow> bool" where
  "never_reused \<sigma> i \<longleftrightarrow> i \<notin> ss_ever \<sigma>"

definition not_in_use :: "socket_sys \<Rightarrow> nat \<Rightarrow> bool" where
  "not_in_use \<sigma> i \<longleftrightarrow> \<not> ino_used \<sigma> i"

inductive_cases socket_stepE: "socket_step fresh locks \<sigma> \<sigma>'"

subsection \<open>Whose socket a daemon removes\<close>

definition in_crit :: "phase \<Rightarrow> bool" where
  "in_crit p = (case p of Locking \<Rightarrow> True | Removed \<Rightarrow> True | Listening \<Rightarrow> True | Examined \<Rightarrow> True
     | CleanLocked \<Rightarrow> True | Compared _ \<Rightarrow> True | _ \<Rightarrow> False)"

definition up :: "phase \<Rightarrow> bool" where
  "up p \<longleftrightarrow> p \<in> {Listening, Examined, Serving}"

definition lock_ok :: "socket_sys \<Rightarrow> bool" where
  "lock_ok \<sigma> \<longleftrightarrow> (\<forall>d. in_crit (d_phase (ss_daemon \<sigma> d)) \<longrightarrow> ss_lock \<sigma> = Some d \<and> d_lock (ss_daemon \<sigma> d) = lockHeld)"

definition ino_ok :: "socket_sys \<Rightarrow> bool" where
  "ino_ok \<sigma> \<longleftrightarrow> (\<forall>i. ss_path \<sigma> = Some i \<longrightarrow> i \<in> ss_ever \<sigma>) \<and>
     (\<forall>d i. d_ino (ss_daemon \<sigma> d) = Some i \<or> d_ours (ss_daemon \<sigma> d) = Some i \<longrightarrow> i \<in> ss_ever \<sigma>) \<and>
     (\<forall>d e i. d_ino (ss_daemon \<sigma> d) = Some i \<or> d_ours (ss_daemon \<sigma> d) = Some i \<longrightarrow> d_ino (ss_daemon \<sigma> e) = Some i \<longrightarrow> d = e)"

definition same_ino :: "nat option \<Rightarrow> nat option \<Rightarrow> bool" where
  "same_ino a b \<longleftrightarrow> a \<noteq> None \<and> b \<noteq> None \<and> a = b"

definition path_ok :: "socket_sys \<Rightarrow> bool" where
  "path_ok \<sigma> \<longleftrightarrow>
     (\<forall>n. ss_newest \<sigma> = Some n \<longrightarrow> up (d_phase (ss_daemon \<sigma> n)) \<longrightarrow> same_ino (ss_path \<sigma>) (d_ino (ss_daemon \<sigma> n))) \<and>
     (\<forall>d. d_phase (ss_daemon \<sigma> d) = Listening \<longrightarrow> ss_newest \<sigma> = Some d) \<and>
     (\<forall>d. d_phase (ss_daemon \<sigma> d) = Compared True \<longrightarrow> same_ino (ss_path \<sigma>) (d_ours (ss_daemon \<sigma> d)))"

definition socket_inv :: "socket_sys \<Rightarrow> bool" where
  "socket_inv \<sigma> \<longleftrightarrow> lock_ok \<sigma> \<and> ino_ok \<sigma> \<and> path_ok \<sigma>"

lemmas socket_ops = serve_lock_def serve_remove_def serve_listen_def serve_stat_def serve_unlock_def cleanup_close_def
  cleanup_lock_def cleanup_compare_def [folded same_ino_def] cleanup_remove_def set_daemon_def unlock_def Let_def

lemma in_crit_simps [simp]:
  "in_crit Locking" "in_crit Removed" "in_crit Listening" "in_crit Examined" "in_crit CleanLocked" "in_crit (Compared b)"
  "\<not> in_crit Waiting" "\<not> in_crit Serving" "\<not> in_crit ClosedListener" "\<not> in_crit Finished"
  by (simp_all add: in_crit_def)

lemma up_simps [simp]:
  "up Listening" "up Examined" "up Serving" "\<not> up Locking" "\<not> up Removed" "\<not> up CleanLocked" "\<not> up (Compared b)"
  "\<not> up Waiting" "\<not> up ClosedListener" "\<not> up Finished"
  by (simp_all add: up_def)

abbreviation locked_step :: "socket_sys \<Rightarrow> socket_sys \<Rightarrow> bool" where
  "locked_step \<equiv> socket_step never_reused {lockHeld}"

lemma lock_one:
  "lock_ok \<sigma> \<Longrightarrow> in_crit (d_phase (ss_daemon \<sigma> d)) \<Longrightarrow> in_crit (d_phase (ss_daemon \<sigma> e)) \<Longrightarrow> d = e"
  unfolding lock_ok_def by (metis option.inject)

lemma step_lock_ok: "locked_step \<sigma> \<sigma>' \<Longrightarrow> lock_ok \<sigma> \<Longrightarrow> lock_ok \<sigma>'"
  by (erule socket_stepE)
    (auto simp: lock_ok_def socket_ops lock_possible_def split: option.splits if_splits, (metis in_crit_simps option.inject)+)

lemma step_ino_ok:
  assumes "locked_step \<sigma> \<sigma>'" and "ino_ok \<sigma>" and "path_ok \<sigma>"
  shows "ino_ok \<sigma>'"
  using assms(1)
proof cases
  case (s_listen d ino)
  show ?thesis
  proof (cases ino)
    case None
    with s_listen assms(2) show ?thesis by (auto simp: ino_ok_def socket_ops)
  next
    case (Some i)
    with s_listen(3) have "i \<notin> ss_ever \<sigma>" by (simp add: never_reused_def)
    with s_listen Some assms(2) show ?thesis by (auto simp: ino_ok_def socket_ops)
  qed
next
  case (s_stat d)
  with assms(3) have "ss_path \<sigma> = d_ino (ss_daemon \<sigma> d)" by (simp add: path_ok_def same_ino_def)
  with s_stat assms(2) show ?thesis by (auto simp: ino_ok_def socket_ops)
qed (use assms(2) in \<open>auto simp: ino_ok_def socket_ops split: if_splits\<close>)

lemma step_path_ok:
  assumes "locked_step \<sigma> \<sigma>'" and "socket_inv \<sigma>"
  shows "path_ok \<sigma>'"
proof -
  have lk: "lock_ok \<sigma>" and ino: "ino_ok \<sigma>" and pt: "path_ok \<sigma>" using assms(2) by (simp_all add: socket_inv_def)
  have one: "d = e" if "in_crit (d_phase (ss_daemon \<sigma> d))" "in_crit (d_phase (ss_daemon \<sigma> e))" for d e
    using lock_one [OF lk that] .
  have other: "d_phase (ss_daemon \<sigma> e) \<noteq> Listening \<and> d_phase (ss_daemon \<sigma> e) \<noteq> Compared True"
    if "in_crit (d_phase (ss_daemon \<sigma> d))" "e \<noteq> d" for d e
    using one [OF that(1), of e] that(2) by auto
  show ?thesis using assms(1)
  proof cases
    case (s_remove d)
    with other [of d] show ?thesis by (simp add: path_ok_def socket_ops)
  next
    case (s_stat d)
    with other [of d] pt show ?thesis by (auto simp: path_ok_def socket_ops)
  next
    case (s_listen d ino)
    show ?thesis
    proof (cases ino)
      case None
      with s_listen pt show ?thesis by (auto simp: path_ok_def socket_ops)
    qed (use s_listen other [of d] in \<open>simp add: path_ok_def socket_ops same_ino_def\<close>)
  next
    case (c_remove d same)
    show ?thesis
    proof (cases same)
      case True
      with c_remove pt have path: "same_ino (ss_path \<sigma>) (d_ours (ss_daemon \<sigma> d))" by (simp add: path_ok_def)
      have "\<not> up (d_phase (ss_daemon \<sigma> n))" if "ss_newest \<sigma> = Some n" "n \<noteq> d" for n
        using that path pt ino unfolding path_ok_def ino_ok_def same_ino_def by (metis not_None_eq)
      with c_remove True other [of d] show ?thesis by (simp add: path_ok_def socket_ops)
    next
      case False
      with c_remove pt show ?thesis by (auto simp: path_ok_def socket_ops)
    qed
  qed (use pt in \<open>auto simp: path_ok_def socket_ops split: if_splits\<close>)
qed

interpretation admin_socket: inductive_invariant socket_init "socket_step never_reused {lockHeld}" socket_inv
proof unfold_locales
  show "socket_init s \<Longrightarrow> socket_inv s" for s
    by (auto simp: socket_init_def socket_inv_def lock_ok_def ino_ok_def path_ok_def)
  show "socket_inv s \<Longrightarrow> locked_step s t \<Longrightarrow> socket_inv t" for s t
    using step_lock_ok step_ino_ok step_path_ok by (auto simp: socket_inv_def)
qed



text \<open>A run of two daemons, in which the first has closed its listener when the second takes over the
  path: \<open>reuse\<close> is the inode number the second file is given, 0 that of the first.\<close>

definition socket_at :: "nat \<Rightarrow> phase \<Rightarrow> phase \<Rightarrow> nat option \<Rightarrow> daemon_id option \<Rightarrow> daemon_id option \<Rightarrow> socket_sys" where
  "socket_at reuse p q path lk newest =
     \<lparr>ss_path = path, ss_ever = (if q \<in> {Listening, Examined, Serving} then {0, reuse} else {0}), ss_lock = lk,
      ss_daemon = (\<lambda>d. if d = 0 then \<lparr>d_phase = p, d_lock = lockHeld, d_ino = None, d_ours = Some 0\<rparr>
        else if d = 1 then \<lparr>d_phase = q, d_lock = lockHeld,
          d_ino = (if q \<in> {Listening, Examined, Serving} then Some reuse else None),
          d_ours = (if q \<in> {Examined, Serving} then Some reuse else None)\<rparr>
        else \<lparr>d_phase = Waiting, d_lock = lockHeld, d_ino = None, d_ours = None\<rparr>), ss_newest = newest\<rparr>"

lemma reach_eq: "reach init (socket_step fresh locks) s \<Longrightarrow> socket_step fresh locks s t' \<Longrightarrow> t' = t \<Longrightarrow> reach init (socket_step fresh locks) t"
  by (auto intro: reach_step)

definition socket_start :: "phase \<Rightarrow> nat option \<Rightarrow> nat option \<Rightarrow> nat option \<Rightarrow> daemon_id option \<Rightarrow> daemon_id option \<Rightarrow> socket_sys" where
  "socket_start p path ino ours lk newest =
     \<lparr>ss_path = path, ss_ever = (if p \<in> {Waiting, Locking, Removed} then {} else {0}), ss_lock = lk,
      ss_daemon = (\<lambda>d. if d = 0 then \<lparr>d_phase = p, d_lock = lockHeld, d_ino = ino, d_ours = ours\<rparr>
        else \<lparr>d_phase = Waiting, d_lock = lockHeld, d_ino = None, d_ours = None\<rparr>), ss_newest = newest\<rparr>"

lemma first_closed:
  assumes "\<And>\<sigma>. ss_ever \<sigma> = {} \<Longrightarrow> ss_path \<sigma> = None \<Longrightarrow> (\<And>d. d_ino (ss_daemon \<sigma> d) = None) \<Longrightarrow> fresh \<sigma> 0"
  shows "reach socket_init (socket_step fresh {lockHeld}) (socket_at reuse ClosedListener Waiting (Some 0) None (Some 0))"
proof -
  note ds = socket_ops socket_start_def socket_at_def lock_possible_def fun_eq_iff
  have "reach socket_init (socket_step fresh {lockHeld}) (socket_start Waiting None None None None None)"
    by (rule reach_init) (simp add: socket_init_def socket_start_def)
  then have "reach socket_init (socket_step fresh {lockHeld}) (socket_start Locking None None None (Some 0) None)"
    by (rule reach_eq [OF _ s_lock [of _ 0 lockHeld]]) (simp_all add: ds)
  then have "reach socket_init (socket_step fresh {lockHeld}) (socket_start Removed None None None (Some 0) None)"
    by (rule reach_eq [OF _ s_remove [of _ 0]]) (simp_all add: ds)
  then have "reach socket_init (socket_step fresh {lockHeld}) (socket_start Listening (Some 0) (Some 0) None (Some 0) (Some 0))"
    by (rule reach_eq [OF _ s_listen [of _ 0 "Some 0"]]) (auto simp: ds intro!: assms)
  then have "reach socket_init (socket_step fresh {lockHeld}) (socket_start Examined (Some 0) (Some 0) (Some 0) (Some 0) (Some 0))"
    by (rule reach_eq [OF _ s_stat [of _ 0]]) (simp_all add: ds)
  then have "reach socket_init (socket_step fresh {lockHeld}) (socket_start Serving (Some 0) (Some 0) (Some 0) None (Some 0))"
    by (rule reach_eq [OF _ s_unlock [of _ 0]]) (simp_all add: ds)
  then show ?thesis
    by (rule reach_eq [OF _ c_close [of _ 0]]) (simp_all add: ds)
qed

lemma second_serves:
  assumes "reach init (socket_step fresh {lockHeld}) (socket_at reuse ClosedListener Waiting (Some 0) None (Some 0))"
    and "\<And>lk newest. fresh (socket_at reuse ClosedListener Removed None lk newest) reuse"
  shows "reach init (socket_step fresh {lockHeld}) (socket_at reuse ClosedListener Serving (Some reuse) None (Some 1))"
proof -
  note ds = socket_ops socket_at_def lock_possible_def fun_eq_iff
  from assms(1) have "reach init (socket_step fresh {lockHeld}) (socket_at reuse ClosedListener Locking (Some 0) (Some 1) (Some 0))"
    by (rule reach_eq [OF _ s_lock [of _ 1 lockHeld]]) (simp_all add: ds)
  then have "reach init (socket_step fresh {lockHeld}) (socket_at reuse ClosedListener Removed None (Some 1) None)"
    by (rule reach_eq [OF _ s_remove [of _ 1]]) (simp_all add: ds)
  then have "reach init (socket_step fresh {lockHeld}) (socket_at reuse ClosedListener Listening (Some reuse) (Some 1) (Some 1))"
    by (rule reach_eq [OF _ s_listen [of _ 1 "Some reuse"]]) (use assms(2) in \<open>auto simp: ds\<close>)
  then have "reach init (socket_step fresh {lockHeld}) (socket_at reuse ClosedListener Examined (Some reuse) (Some 1) (Some 1))"
    by (rule reach_eq [OF _ s_stat [of _ 1]]) (simp_all add: ds)
  then show ?thesis
    by (rule reach_eq [OF _ s_unlock [of _ 1]]) (simp_all add: ds)
qed



text \<open>C38. Inode numbers do not identify a socket. On a file system that may give a new file an inode number no longer in
  use, a daemon that leaves can remove the socket of the one that replaced it, although both take
  the lock: it closes its listener, which frees its inode, before it compares the inode at the path
  with its own.\<close>

theorem reused_inode_removes_newest:
  "\<exists>\<sigma>. reach socket_init (socket_step not_in_use {lockHeld}) \<sigma> \<and>
     ss_newest \<sigma> = Some 1 \<and> d_phase (ss_daemon \<sigma> 1) = Serving \<and> d_phase (ss_daemon \<sigma> 0) = Finished \<and> ss_path \<sigma> = None"
proof (intro exI conjI)
  note ds = socket_ops socket_at_def lock_possible_def fun_eq_iff same_ino_def
  have "reach socket_init (socket_step not_in_use {lockHeld}) (socket_at 0 ClosedListener Serving (Some 0) None (Some 1))"
    by (rule second_serves [OF first_closed]) (simp_all add: not_in_use_def ino_used_def socket_at_def)
  then have "reach socket_init (socket_step not_in_use {lockHeld}) (socket_at 0 CleanLocked Serving (Some 0) (Some 0) (Some 1))"
    by (rule reach_eq [OF _ c_lock [of _ 0 lockHeld]]) (simp_all add: ds)
  then have "reach socket_init (socket_step not_in_use {lockHeld}) (socket_at 0 (Compared True) Serving (Some 0) (Some 0) (Some 1))"
    by (rule reach_eq [OF _ c_compare [of _ 0]]) (simp_all add: ds)
  then show "reach socket_init (socket_step not_in_use {lockHeld}) (socket_at 0 Finished Serving None None (Some 1))"
    by (rule reach_eq [OF _ c_remove [of _ 0 True]]) (simp_all add: ds)
qed (simp_all add: socket_at_def)

subsection \<open>Setting the level over the socket\<close>

lemma Fields_word:
  assumes "w \<noteq> []" and "list_all (\<lambda>c. \<not> is_space c) w" and "r = [] \<or> is_space (hd r)"
  shows "Fields (w @ r) = w # Fields r"
proof -
  obtain c t where w: "w = c # t" using assms(1) by (cases w) auto
  have "takeWhile (\<lambda>c. \<not> is_space c) (t @ r) = t" "dropWhile (\<lambda>c. \<not> is_space c) (t @ r) = r"
    using assms(2,3) w by (cases r; auto simp: list_all_iff)+
  with assms(2) w show ?thesis by (subst Fields.simps) simp
qed

lemma Fields_space: "is_space c \<Longrightarrow> Fields (c # s) = Fields s"
  by (subst (1 2) Fields.simps) simp

lemma Index_LF: "c \<notin> set s \<Longrightarrow> IndexByte (s @ [c]) c = Some (length s)"
  by (induction s) auto

lemma SetLevel_error: "SetLevel_result (CHR ''e'' # s) \<noteq> None"
proof -
  have sp: "\<not> is_space (CHR ''e'')" by (simp add: is_space_def)
  have "dropWhile is_space (y @ [CHR ''e'']) = dropWhile is_space y @ [CHR ''e'']" for y
    using sp by (induction y) simp_all
  then have hd: "hd (TrimSpace (CHR ''e'' # x)) = CHR ''e''" for x using sp by (simp add: TrimSpace_def)
  have "TrimSpace (CHR ''e'' # x) \<noteq> ''ok''" for x
  proof
    assume "TrimSpace (CHR ''e'' # x) = ''ok''"
    with hd [of x] show False by simp
  qed
  then show ?thesis by (cases "IndexByte s LF") (simp_all add: SetLevel_result_def Let_def)
qed

text \<open>A level set over the socket: the request is one line the daemon reads whole, so the client's call
  succeeds exactly when the name is a level and setting it succeeds, and then the daemon has it.\<close>

lemma SetLevel_over_socket:
  assumes "name \<noteq> []" and "list_all (\<lambda>c. \<not> is_space c) name" and "length name < maxRequestBytes - 6"
    and "handle quoted (level_request name) status (\<lambda>_. None) lv = (reply, lv')"
  shows "SetLevel_result reply = None \<longleftrightarrow> (\<exists>l. ParseLevel name = Inr l)"
    and "lv' = (case ParseLevel name of Inl _ \<Rightarrow> lv | Inr l \<Rightarrow> l)"
proof -
  have sp: "is_space SP" "is_space LF" by (simp_all add: is_space_def)
  have nl: "LF \<notin> set (''level '' @ name)" using assms(2) sp by (auto simp: list_all_iff)
  then have "IndexByte (level_request name) LF = Some (length (''level '' @ name))"
    using Index_LF [of LF "''level '' @ name"] by (simp add: level_request_def)
  moreover have "take maxRequestBytes (level_request name) = level_request name"
    using assms(3) by (simp add: level_request_def maxRequestBytes_def)
  ultimately have "read_request (level_request name) = Some (level_request name)"
    by (simp add: read_request_def level_request_def)
  moreover have "Fields (level_request name) = [''level'', name]"
  proof -
    have "Fields (level_request name) = ''level'' # Fields (SP # name @ [LF])"
      using Fields_word [of "''level''" "SP # name @ [LF]"] sp by (simp add: level_request_def is_space_def)
    also have "Fields (SP # name @ [LF]) = name # Fields [LF]"
      using Fields_word [OF assms(1,2), of "[LF]"] sp by (simp add: Fields_space)
    also have "Fields [LF] = []" using Fields_space [OF sp(2), of "[]"] by (simp add: Fields.simps)
    finally show ?thesis .
  qed
  ultimately have h: "(reply, lv') = (case ParseLevel name of
      Inl e \<Rightarrow> (''error: '' @ level_error_text quoted e @ [LF], lv) | Inr l \<Rightarrow> (''ok'' @ [LF], l))"
    using assms(4) by (cases "ParseLevel name") (simp_all add: handle_def)
  show "lv' = (case ParseLevel name of Inl _ \<Rightarrow> lv | Inr l \<Rightarrow> l)" using h by (auto split: sum.splits)
  have e: "SetLevel_result (''error: '' @ s) \<noteq> None" for s
    using SetLevel_error [of "''rror: '' @ s"] by simp
  have "SetLevel_result (''ok'' @ [LF]) = None" by code_simp
  with h e show "SetLevel_result reply = None \<longleftrightarrow> (\<exists>l. ParseLevel name = Inr l)" by (auto split: sum.splits)
qed

end
