(* ===== verification/Doctor.thy ===== *)
theory Doctor
  imports Daemon Pki Admin
begin

text \<open>
  Package \<^verbatim>\<open>internal/doctor\<close> and the \<^verbatim>\<open>coen doctor\<close> command: the checks of a configuration against the host. What
  the host answers (files, sockets, name service, the running daemon) is a record of functions; the
  connections a check makes are returned beside its results, because a check of a live agent must make none
  to the edge.
\<close>

subsection \<open>Results\<close>

record Result =
  r_Name :: string
  r_OK :: bool
  r_Detail :: string
  r_Hint :: string

definition ok :: "string \<Rightarrow> string \<Rightarrow> Result" where
  "ok name detail = \<lparr>r_Name = name, r_OK = True, r_Detail = detail, r_Hint = []\<rparr>"

definition fail :: "string \<Rightarrow> string \<Rightarrow> string \<Rightarrow> Result" where
  "fail name detail hint = \<lparr>r_Name = name, r_OK = False, r_Detail = detail, r_Hint = hint\<rparr>"

text \<open>The host: errors are their texts, \<open>None\<close> where there is no error. A handshake gives the digest of the
  edge's certificate and its window of validity.\<close>

record host =
  ho_stat :: "string \<Rightarrow> string option"
  ho_read :: "string \<Rightarrow> string + bytes"
  ho_certs :: "bytes \<Rightarrow> certificate list"
  ho_keypair :: "string \<Rightarrow> string \<Rightarrow> string option"
  ho_bind :: "string \<Rightarrow> string \<Rightarrow> bind_error option"
  ho_bind_text :: "bind_error \<Rightarrow> string"
  ho_status :: "string \<Rightarrow> Snapshot option"
  ho_serves :: "string \<Rightarrow> string \<Rightarrow> bool"
  ho_services :: services
  ho_url :: "string \<Rightarrow> proxy_url option"
  ho_redacted :: "proxy_url \<Rightarrow> string"
  ho_lookup :: "string \<Rightarrow> string option"
  ho_dial :: "string \<Rightarrow> proxy_url option \<Rightarrow> dial_error option"
  ho_dial_text :: "dial_error \<Rightarrow> string"
  ho_handshake :: "string + bytes \<times> instant \<times> instant"
  ho_now :: instant
  ho_time :: "instant \<Rightarrow> string"
  ho_service :: "string \<Rightarrow> string option"
  ho_addr_text :: "addr_error \<Rightarrow> string"
  ho_fp_text :: "fp_error \<Rightarrow> string"

datatype touch = DialEdge string | HandshakeEdge | DialService string

subsection \<open>Files and ports\<close>

definition checkFile :: "host \<Rightarrow> string \<Rightarrow> string \<Rightarrow> Result" where
  "checkFile h name path = (case ho_stat h path of
      Some e \<Rightarrow> fail name e ''check the path exists and is readable by the coen user''
    | None \<Rightarrow> ok name path)"

definition bindHint :: "bind_error \<Rightarrow> string \<Rightarrow> string" where
  "bindHint e fallback =
     (if e = EACCES then ''permission denied: ports below 1024 need root or CAP_NET_BIND_SERVICE''
      else if IsAddrNotAvail e then ''the address is not assigned to this host; use one of its own addresses or a wildcard''
      else if IsAddrInUse e \<and> fallback \<noteq> [] then fallback
      else if IsAddrInUse e then ''another process holds the port; pick a free one''
      else ''check the address: the host must be resolvable and the port valid'')"

definition bindCheck :: "host \<Rightarrow> string \<Rightarrow> string \<Rightarrow> string \<Rightarrow> string \<times> bool \<Rightarrow> string \<Rightarrow> Result" where
  "bindCheck h name network addr ours hint = (case ho_bind h network addr of
      None \<Rightarrow> ok name addr
    | Some e \<Rightarrow>
        if \<not> IsAddrNotAvail e \<and> snd ours then ok name (addr @ '' ('' @ fst ours @ '')'')
        else fail name (ho_bind_text h e) (bindHint e hint))"

definition checkBind :: "host \<Rightarrow> string \<Rightarrow> string \<Rightarrow> string \<Rightarrow> Result" where
  "checkBind h name addr adminSocket = bindCheck h name ''tcp'' addr
     (if adminSocket = [] then ([], False) else (''in use by the running coen daemon'', ho_status h adminSocket \<noteq> None))
     ''another process may hold the port, or you lack permission to bind it (:443 needs CAP_NET_BIND_SERVICE)''"

definition checkUDPBind :: "host \<Rightarrow> string \<Rightarrow> string \<Rightarrow> string \<Rightarrow> Result" where
  "checkUDPBind h name addr adminSocket = bindCheck h name ''udp'' addr
     (if adminSocket = [] then ([], False)
      else (''in use by the running coen edge'' @ [CHR 0x27] @ ''s HTTP/3'',
        case ho_status h adminSocket of
          None \<Rightarrow> False
        | Some snap \<Rightarrow> snHTTP3 snap \<noteq> [] \<and> ListenersOverlap (ho_services h) (snHTTP3 snap) addr))
     ''another process may hold the UDP port, or you lack permission to bind it (:443 needs CAP_NET_BIND_SERVICE)''"

definition checkMetricsBind :: "host \<Rightarrow> string \<Rightarrow> string \<Rightarrow> Result" where
  "checkMetricsBind h addr rl = bindCheck h ''bind: metrics'' ''tcp'' addr
     (''in use by the running coen '' @ rl @ [CHR 0x27] @ ''s metrics endpoint'', ho_serves h addr rl) []"

subsection \<open>The agent\<close>

definition agentLiveTunnel :: "host \<Rightarrow> string \<Rightarrow> string option" where
  "agentLiveTunnel h socket =
     (if socket = [] then None
      else (case ho_status h socket of
          None \<Rightarrow> None
        | Some snap \<Rightarrow> if snConnected snap then Some (snPeer snap) else None))"

definition check_pin :: "host \<Rightarrow> EdgeRef \<Rightarrow> Result list" where
  "check_pin h e =
     (if EdgeFingerprint e = [] then []
      else (case ValidateFingerprint (EdgeFingerprint e) of
          Some err \<Rightarrow> [fail ''config: edge_fingerprint'' (ho_fp_text h err) ''edge_fingerprint must be a SHA256:... value, or empty to disable pinning'']
        | None \<Rightarrow> [ok ''config: edge_fingerprint'' ''well-formed'']))"

definition pin_mismatch :: "EdgeRef \<Rightarrow> string \<Rightarrow> Result list" where
  "pin_mismatch e edgeFP =
     (if EdgeFingerprint e \<noteq> [] \<and> EdgeFingerprint e \<noteq> edgeFP then
        [fail ''mtls: pin'' (''got '' @ edgeFP @ '' want '' @ EdgeFingerprint e) ''update edge_fingerprint or the edge certificate'']
      else [])"

definition check_window :: "host \<Rightarrow> instant \<Rightarrow> instant \<Rightarrow> Result" where
  "check_window h from till =
     (if ho_now h < from \<or> till < ho_now h then
        fail ''time: cert validity''
          (''now='' @ ho_time h (ho_now h) @ '' window=['' @ ho_time h from @ '','' @ ho_time h till @ '']'')
          ''check the system clock (NTP) or re-issue the certificate''
      else ok ''time: cert validity'' ''within the edge certificate window'')"

definition check_handshake :: "host \<Rightarrow> EdgeRef \<Rightarrow> string \<Rightarrow> Result list" where
  "check_handshake h e hst = (case ho_handshake h of
      Inl err \<Rightarrow> [fail ''mtls: handshake'' err (''verify the CA matches on both hosts and the edge cert covers '' @ hst)]
    | Inr (digest, from, till) \<Rightarrow>
        (let edgeFP = Fingerprint digest
         in ok ''mtls: handshake'' (''transport TLS ok, edge fingerprint '' @ edgeFP @
              '' (route authorization is enforced by the edge, not verified here)'') #
            pin_mismatch e edgeFP @ [check_window h from till]))"

definition dial_hint :: "proxy_url option \<Rightarrow> string \<Rightarrow> dial_error \<Rightarrow> string" where
  "dial_hint via port err =
     (if (case err of ProxyError _ ErrProxyAuth \<Rightarrow> True | _ \<Rightarrow> False) then
        ''set the proxy'' @ [CHR 0x27] @ ''s user:password in edge.proxy (percent-encode special characters)''
      else if via \<noteq> None then
        ''check edge.proxy, and that the proxy allows CONNECT to port '' @ port @ '' (many allow only 443)''
      else ''open port '' @ port @ '' on the edge / firewall'')"

definition check_names :: "host \<Rightarrow> proxy_url option \<Rightarrow> string \<Rightarrow> Result" where
  "check_names h via hst = (case via of
      Some u \<Rightarrow> (case ho_lookup h (Hostname u) of
          Some err \<Rightarrow> fail ''dns: resolve proxy'' err ''check the host in edge.proxy''
        | None \<Rightarrow> ok ''dns: resolve proxy'' (Hostname u @ '' (the proxy resolves '' @ hst @ '')''))
    | None \<Rightarrow> (case ho_lookup h hst of
          Some err \<Rightarrow> fail ''dns: resolve edge'' err ''check the hostname or use an IP''
        | None \<Rightarrow> ok ''dns: resolve edge'' hst))"

definition check_service :: "host \<Rightarrow> AgentRoute \<Rightarrow> Result" where
  "check_service h r = (case ho_service h (Service r) of
      Some err \<Rightarrow> fail (''service: reach '' @ ar_Host r) err
        (''start the local service or fix the route'' @ [CHR 0x27] @ ''s service address'')
    | None \<Rightarrow> ok (''service: reach '' @ ar_Host r) (Service r))"

definition check_services :: "host \<Rightarrow> AgentConfig \<Rightarrow> Result list \<times> touch list" where
  "check_services h cfg = (map (check_service h) (ARoutes cfg), map (DialService \<circ> Service) (ARoutes cfg))"

text \<open>From the address on: the checks on the edge, by its live tunnel or by connecting, then the services.\<close>

definition check_edge_path :: "host \<Rightarrow> AgentConfig \<Rightarrow> Result list \<times> touch list" where
  "check_edge_path h cfg = (case SplitHostPort (Address (Edge cfg)) of
      Inl err \<Rightarrow> ([fail ''dns: edge address'' (ho_addr_text h err) ''edge.address must be host:port''], [])
    | Inr (hst, port) \<Rightarrow>
        (let via = ProxyURL (ho_url h) (Edge cfg); addr = JoinHostPort hst port;
             reach = (case via of None \<Rightarrow> addr | Some u \<Rightarrow> addr @ '' through proxy '' @ ho_redacted h u);
             names = check_names h via hst; (rs, ts) = check_services h cfg
         in case agentLiveTunnel h (AAdminSocket cfg) of
              Some edgeFP \<Rightarrow>
                ([names, ok ''net: tcp reach'' (addr @ '' (the running agent'' @ [CHR 0x27] @ ''s tunnel is live)''),
                  ok ''mtls: handshake'' (''verified via the running agent'' @ [CHR 0x27] @ ''s live tunnel to edge '' @ edgeFP)] @
                 pin_mismatch (Edge cfg) edgeFP @ rs, ts)
            | None \<Rightarrow> (case ho_dial h addr via of
                  Some err \<Rightarrow> ([names, fail ''net: tcp reach'' (ho_dial_text h err) (dial_hint via port err)], [DialEdge addr])
                | None \<Rightarrow>
                    ([names, ok ''net: tcp reach'' reach] @ check_handshake h (Edge cfg) hst @ rs, [DialEdge addr, HandshakeEdge] @ ts))))"

definition CheckAgent :: "host \<Rightarrow> AgentConfig \<Rightarrow> Result list \<times> touch list" where
  "CheckAgent h cfg =
     (let e = Edge cfg;
          out = [checkFile h ''pki: ca'' (er_CA e), checkFile h ''pki: client cert'' (er_Cert e), checkFile h ''pki: client key'' (er_Key e)] @
            check_pin h e @ (if AMetricsListen cfg \<noteq> [] then [checkMetricsBind h (AMetricsListen cfg) ''agent''] else [])
      in case ho_read h (er_CA e) of
           Inl err \<Rightarrow> (out @ [fail ''pki: ca parse'' err ''run `coen cert init` to create the CA''], [])
         | Inr pem \<Rightarrow> (case CertPoolFromPEM (ho_certs h) pem of
               None \<Rightarrow> (out @ [fail ''pki: ca parse'' ''no certificates found in CA PEM'' ''ca.crt is not a valid PEM certificate''], [])
             | Some pool \<Rightarrow>
                 (let pair = (case ho_keypair h (er_Cert e) (er_Key e) of
                        Some err \<Rightarrow> fail ''pki: client keypair'' err ''cert/key mismatch or unreadable; re-issue with `coen cert agent`''
                      | None \<Rightarrow> ok ''pki: client keypair'' ''loaded'');
                      (rs, ts) = check_edge_path h cfg
                  in (out @ pair # rs, ts))))"

subsection \<open>The edge\<close>

definition procNetCore :: string where
  "procNetCore = ''/proc/sys/net/core''"

definition quicBufferSize :: int where
  "quicBufferSize = 7 * 2 ^ 20"

text \<open>The limits below what QUIC asks for, unless one cannot be read.\<close>

fun low_buffers :: "host \<Rightarrow> string \<Rightarrow> string list \<Rightarrow> string list option" where
  "low_buffers h dir [] = Some []"
| "low_buffers h dir (f # fs) = (case ho_read h (Join [dir, f]) of
      Inl _ \<Rightarrow> None
    | Inr b \<Rightarrow> (case Atoi (TrimSpace b) of
          None \<Rightarrow> None
        | Some n \<Rightarrow> (case low_buffers h dir fs of
              None \<Rightarrow> None
            | Some low \<Rightarrow> Some (if n < quicBufferSize then (''net.core.'' @ f @ ''='' @ FormatInt n) # low else low))))"

definition udpBuffers :: "host \<Rightarrow> string \<Rightarrow> Result option" where
  "udpBuffers h dir = map_option (\<lambda>low.
     if low = [] then ok ''http3: udp buffers'' ''large enough for QUIC''
     else ok ''http3: udp buffers'' (join_with '', '' low @ '' is below the '' @ FormatInt quicBufferSize @
       '' bytes QUIC asks for; raise it with sysctl for full HTTP/3 throughput''))
     (low_buffers h dir [''rmem_max'', ''wmem_max''])"

definition check_ca :: "host \<Rightarrow> string \<Rightarrow> Result" where
  "check_ca h path = (case ho_read h path of
      Inl err \<Rightarrow> fail ''pki: ca parse'' err ''run `coen cert init`''
    | Inr pem \<Rightarrow> (case CertPoolFromPEM (ho_certs h) pem of
          None \<Rightarrow> fail ''pki: ca parse'' ''no certificates found in CA PEM'' ''ca.crt is not a valid PEM certificate''
        | Some _ \<Rightarrow> ok ''pki: ca parse'' ''valid''))"

definition check_pair :: "host \<Rightarrow> string \<Rightarrow> string \<Rightarrow> string \<Rightarrow> string \<Rightarrow> Result" where
  "check_pair h name cert key hint = (case ho_keypair h cert key of
      Some err \<Rightarrow> fail name err hint
    | None \<Rightarrow> ok name ''loaded'')"

fun bad_fingerprint :: "fingerprint list \<Rightarrow> (fingerprint \<times> fp_error) option" where
  "bad_fingerprint [] = None"
| "bad_fingerprint (fp # fps) = (case ValidateFingerprint fp of Some err \<Rightarrow> Some (fp, err) | None \<Rightarrow> bad_fingerprint fps)"

definition check_route :: "host \<Rightarrow> EdgeRoute \<Rightarrow> Result" where
  "check_route h r =
     (let fps = Fingerprints r; name = ''config: fingerprint '' @ er_Host r
      in case bad_fingerprint fps of
           Some (fp, err) \<Rightarrow> fail name (fp @ '': '' @ ho_fp_text h err) ''each agent fingerprint must be the SHA256:... value printed by `coen cert agent`''
         | None \<Rightarrow> if 1 < length fps then ok name (show_nat (length fps) @ '' agents, well-formed'') else ok name ''well-formed'')"

definition CheckEdge :: "host \<Rightarrow> EdgeConfig \<Rightarrow> Result list" where
  "CheckEdge h cfg =
     (let t = Tunnel_cfg cfg; i = Ingress cfg; socket = AdminSocket cfg
      in [checkFile h ''pki: ca'' (tun_CA t), checkFile h ''pki: edge cert'' (tun_Cert t), checkFile h ''pki: edge key'' (tun_Key t),
          check_ca h (tun_CA t), check_pair h ''pki: edge keypair'' (tun_Cert t) (tun_Key t) ''re-issue with `coen cert edge`''] @
         (if Mode i = ''standalone'' then [check_pair h ''pki: public cert'' (tls_cert (ing_TLS i)) (tls_key (ing_TLS i)) ''provide a valid public PEM cert/key''] else []) @
         map (check_route h) (Routes cfg) @
         (if tun_Listen t \<noteq> [] then [checkBind h ''bind: tunnel'' (tun_Listen t) socket] else []) @
         (if ShareIngress t then [ok ''tunnel: shared ingress'' (''agents may also connect to '' @ ing_Listen i @ '' (agents from v0.4.0 on; older ones need tunnel.listen)'')] else []) @
         [checkBind h ''bind: ingress'' (ing_Listen i) socket] @
         (if h3_Enabled (ing_HTTP3 i) then
            checkUDPBind h ''bind: http3 (udp)'' (HTTP3Listen i) socket #
            (case udpBuffers h procNetCore of Some r \<Rightarrow> [r] | None \<Rightarrow> [])
          else []) @
         (if MetricsListen cfg \<noteq> [] then [checkMetricsBind h (MetricsListen cfg) ''edge''] else []))"

subsection \<open>The command (cli/doctor.go)\<close>

definition countFailures :: "Result list \<Rightarrow> nat" where
  "countFailures rs = foldl (\<lambda>n r. if r_OK r then n else n + 1) 0 rs"

datatype doctor_error = NothingToDetect | DoctorDetect detect_error | DoctorConfig config_error | DoctorRole | Problems nat

text \<open>The command: what it reports, the connections it makes, and the error it exits with.\<close>

definition doctor_problems :: "Result list \<Rightarrow> doctor_error option" where
  "doctor_problems rs = (if 0 < countFailures rs then Some (Problems (countFailures rs)) else None)"

definition doctor_cmd :: "host \<Rightarrow> (string \<Rightarrow> config_error + EdgeConfig) \<Rightarrow> (string \<Rightarrow> config_error + AgentConfig) \<Rightarrow> daemon list option \<Rightarrow>
    string \<Rightarrow> string \<Rightarrow> doctor_error + Result list \<times> touch list \<times> doctor_error option" where
  "doctor_cmd h load_edge load_agent ds rl cfgPath =
     (let run = (\<lambda>r p. let path = (if p = [] \<and> (r = ''edge'' \<or> r = ''agent'') then ''/etc/coen/'' @ r @ ''.yaml'' else p)
          in if r = ''edge'' then (case load_edge path of
                 Inl e \<Rightarrow> Inl (DoctorConfig e)
               | Inr cfg \<Rightarrow> (let rs = CheckEdge h cfg in Inr (rs, [], doctor_problems rs)))
             else if r = ''agent'' then (case load_agent path of
                 Inl e \<Rightarrow> Inl (DoctorConfig e)
               | Inr cfg \<Rightarrow> (let (rs, ts) = CheckAgent h cfg in Inr (rs, ts, doctor_problems rs)))
             else Inl DoctorRole)
      in if rl = [] then (case detectRole ds of
             Inl ErrNoDaemon \<Rightarrow> Inl NothingToDetect
           | Inl e \<Rightarrow> Inl (DoctorDetect e)
           | Inr (r, c) \<Rightarrow> run r (if cfgPath = [] then c else cfgPath))
         else run rl cfgPath)"

subsection \<open>What a clean run means\<close>

text \<open>A port is usable when it can be bound or is held by the running daemon.\<close>

definition port_usable :: "host \<Rightarrow> string \<Rightarrow> string \<Rightarrow> bool \<Rightarrow> bool" where
  "port_usable h network addr ours = (case ho_bind h network addr of None \<Rightarrow> True | Some e \<Rightarrow> \<not> IsAddrNotAvail e \<and> ours)"

definition ca_usable :: "host \<Rightarrow> string \<Rightarrow> bool" where
  "ca_usable h path = (case ho_read h path of Inl _ \<Rightarrow> False | Inr pem \<Rightarrow> ho_certs h pem \<noteq> [])"

definition pin_met :: "EdgeRef \<Rightarrow> string \<Rightarrow> bool" where
  "pin_met e fp \<longleftrightarrow> EdgeFingerprint e = [] \<or> EdgeFingerprint e = fp"

text \<open>The edge can be reached: the running agent's tunnel is up, or a connection and a handshake succeed within
  the certificate's window; and it is the edge that was pinned.\<close>

definition edge_reached :: "host \<Rightarrow> AgentConfig \<Rightarrow> bool" where
  "edge_reached h cfg = (case SplitHostPort (Address (Edge cfg)) of
      Inl _ \<Rightarrow> False
    | Inr (hst, port) \<Rightarrow>
        (let via = ProxyURL (ho_url h) (Edge cfg)
         in ho_lookup h (case via of None \<Rightarrow> hst | Some u \<Rightarrow> Hostname u) = None \<and>
            (case agentLiveTunnel h (AAdminSocket cfg) of
               Some fp \<Rightarrow> pin_met (Edge cfg) fp
             | None \<Rightarrow> ho_dial h (JoinHostPort hst port) via = None \<and>
                 (case ho_handshake h of
                    Inl _ \<Rightarrow> False
                  | Inr (digest, from, till) \<Rightarrow> pin_met (Edge cfg) (Fingerprint digest) \<and> from \<le> ho_now h \<and> ho_now h \<le> till))))"

definition agent_ready :: "host \<Rightarrow> AgentConfig \<Rightarrow> bool" where
  "agent_ready h cfg \<longleftrightarrow>
     (let e = Edge cfg
      in list_all (\<lambda>p. ho_stat h p = None) [er_CA e, er_Cert e, er_Key e] \<and>
         (EdgeFingerprint e = [] \<or> ValidateFingerprint (EdgeFingerprint e) = None) \<and>
         (AMetricsListen cfg = [] \<or> port_usable h ''tcp'' (AMetricsListen cfg) (ho_serves h (AMetricsListen cfg) ''agent'')) \<and>
         ca_usable h (er_CA e) \<and> ho_keypair h (er_Cert e) (er_Key e) = None \<and> edge_reached h cfg \<and>
         list_all (\<lambda>r. ho_service h (Service r) = None) (ARoutes cfg))"

definition edge_ready :: "host \<Rightarrow> EdgeConfig \<Rightarrow> bool" where
  "edge_ready h cfg \<longleftrightarrow>
     (let t = Tunnel_cfg cfg; i = Ingress cfg; running = (AdminSocket cfg \<noteq> [] \<and> ho_status h (AdminSocket cfg) \<noteq> None)
      in list_all (\<lambda>p. ho_stat h p = None) [tun_CA t, tun_Cert t, tun_Key t] \<and> ca_usable h (tun_CA t) \<and>
         ho_keypair h (tun_Cert t) (tun_Key t) = None \<and>
         (Mode i = ''standalone'' \<longrightarrow> ho_keypair h (tls_cert (ing_TLS i)) (tls_key (ing_TLS i)) = None) \<and>
         list_all (\<lambda>fp. ValidateFingerprint fp = None) (concat (map Fingerprints (Routes cfg))) \<and>
         (tun_Listen t = [] \<or> port_usable h ''tcp'' (tun_Listen t) running) \<and> port_usable h ''tcp'' (ing_Listen i) running \<and>
         (h3_Enabled (ing_HTTP3 i) \<longrightarrow> port_usable h ''udp'' (HTTP3Listen i)
            (AdminSocket cfg \<noteq> [] \<and> (case ho_status h (AdminSocket cfg) of None \<Rightarrow> False
              | Some snap \<Rightarrow> snHTTP3 snap \<noteq> [] \<and> ListenersOverlap (ho_services h) (snHTTP3 snap) (HTTP3Listen i)))) \<and>
         (MetricsListen cfg = [] \<or> port_usable h ''tcp'' (MetricsListen cfg) (ho_serves h (MetricsListen cfg) ''edge'')))"

lemma countFailures_0: "countFailures rs = 0 \<longleftrightarrow> list_all r_OK rs"
proof -
  have "foldl (\<lambda>n r. if r_OK r then n else n + 1) k rs = k + length (filter (\<lambda>r. \<not> r_OK r) rs)" for k
    by (induction rs arbitrary: k) auto
  then show ?thesis by (simp add: countFailures_def list_all_iff filter_empty_conv)
qed

lemma r_OK_simps [simp]: "r_OK (ok n d)" "\<not> r_OK (fail n d t)"
  by (simp_all add: ok_def fail_def)

lemma checkFile_OK [simp]: "r_OK (checkFile h n p) \<longleftrightarrow> ho_stat h p = None"
  by (simp add: checkFile_def split: option.splits)

lemma bindCheck_OK: "r_OK (bindCheck h n net addr ours hint) = port_usable h net addr (snd ours)"
  by (simp add: bindCheck_def port_usable_def split: option.splits)

lemma checkBind_OK [simp]: "r_OK (checkBind h n addr s) = port_usable h ''tcp'' addr (s \<noteq> [] \<and> ho_status h s \<noteq> None)"
  by (simp add: checkBind_def bindCheck_OK)

lemma checkUDPBind_OK [simp]:
  "r_OK (checkUDPBind h n addr s) = port_usable h ''udp'' addr (s \<noteq> [] \<and> (case ho_status h s of None \<Rightarrow> False
     | Some snap \<Rightarrow> snHTTP3 snap \<noteq> [] \<and> ListenersOverlap (ho_services h) (snHTTP3 snap) addr))"
  by (simp add: checkUDPBind_def bindCheck_OK)

lemma checkMetricsBind_OK [simp]: "r_OK (checkMetricsBind h addr rl) = port_usable h ''tcp'' addr (ho_serves h addr rl)"
  by (simp add: checkMetricsBind_def bindCheck_OK)

lemma check_pin_OK [simp]:
  "list_all r_OK (check_pin h e) \<longleftrightarrow> EdgeFingerprint e = [] \<or> ValidateFingerprint (EdgeFingerprint e) = None"
  by (simp add: check_pin_def split: option.splits)

lemma pin_mismatch_OK [simp]: "list_all r_OK (pin_mismatch e fp) = pin_met e fp"
  by (auto simp: pin_mismatch_def pin_met_def)

lemma check_handshake_OK [simp]:
  "list_all r_OK (check_handshake h e hst) = (case ho_handshake h of Inl _ \<Rightarrow> False
     | Inr (digest, from, till) \<Rightarrow> pin_met e (Fingerprint digest) \<and> from \<le> ho_now h \<and> ho_now h \<le> till)"
  by (auto simp: check_handshake_def check_window_def Let_def split: sum.splits)

lemma check_names_OK [simp]: "r_OK (check_names h via hst) \<longleftrightarrow> ho_lookup h (case via of None \<Rightarrow> hst | Some u \<Rightarrow> Hostname u) = None"
  by (simp add: check_names_def split: option.splits)

lemma check_services_OK [simp]: "list_all r_OK (fst (check_services h cfg)) = list_all (\<lambda>r. ho_service h (Service r) = None) (ARoutes cfg)"
  by (simp add: check_services_def check_service_def list.pred_map comp_def split: option.splits)

lemma CertPool_eq: "CertPoolFromPEM f pem = (if f pem = [] then None else Some (f pem))"
  by (simp add: CertPoolFromPEM_def split: list.splits)

lemma check_ca_OK [simp]: "r_OK (check_ca h p) = ca_usable h p"
  by (simp add: check_ca_def ca_usable_def CertPool_eq split: sum.splits)

lemma check_pair_OK [simp]: "r_OK (check_pair h n c k t) \<longleftrightarrow> ho_keypair h c k = None"
  by (simp add: check_pair_def split: option.splits)

lemma bad_fingerprint_None: "bad_fingerprint fps = None \<longleftrightarrow> list_all (\<lambda>fp. ValidateFingerprint fp = None) fps"
  by (induction fps) (auto split: option.splits)

lemma check_route_OK [simp]: "r_OK (check_route h r) = list_all (\<lambda>fp. ValidateFingerprint fp = None) (Fingerprints r)"
  by (cases "bad_fingerprint (Fingerprints r)") (auto simp: check_route_def Let_def simp flip: bad_fingerprint_None)

lemma udpBuffers_OK: "udpBuffers h dir = Some r \<Longrightarrow> r_OK r"
  by (auto simp: udpBuffers_def split: if_splits)

lemma check_edge_path_OK:
  "list_all r_OK (fst (check_edge_path h cfg)) \<longleftrightarrow> edge_reached h cfg \<and> list_all (\<lambda>r. ho_service h (Service r) = None) (ARoutes cfg)"
proof (cases "SplitHostPort (Address (Edge cfg))")
  case (Inr hp)
  obtain hst port where hp: "hp = (hst, port)" by (cases hp)
  show ?thesis
    by (cases "ProxyURL (ho_url h) (Edge cfg)"; cases "agentLiveTunnel h (AAdminSocket cfg)"; cases "ho_dial h (JoinHostPort hst port) (ProxyURL (ho_url h) (Edge cfg))")
      (auto simp: check_edge_path_def edge_reached_def Inr hp Let_def split_beta)
qed (simp add: check_edge_path_def edge_reached_def)

text \<open>C20. A clean bill of health means what it says, and a sound agent gets one: \<^verbatim>\<open>coen doctor\<close> finds no problem
  with an agent exactly when its files exist, its pin is well-formed, its metrics port is free or its own, the authority
  and the key pair load, the edge is reached under its name by the live tunnel or by a handshake within the
  certificate's window and is the pinned one, and every service answers.\<close>

theorem doctor_agent_exact: "countFailures (fst (CheckAgent h cfg)) = 0 \<longleftrightarrow> agent_ready h cfg"
  unfolding countFailures_0
  by (cases "ho_read h (er_CA (Edge cfg))"; cases "ho_keypair h (er_Cert (Edge cfg)) (er_Key (Edge cfg))")
    (auto simp: CheckAgent_def agent_ready_def ca_usable_def CertPool_eq check_edge_path_OK Let_def split_beta)

lemma list_all_concat: "list_all P (concat xss) = list_all (list_all P) xss"
  by (simp add: list_all_iff)

text \<open>For the edge too: \<^verbatim>\<open>coen doctor\<close> finds no problem exactly when its files exist, the authority and its key
  pairs load, every route's fingerprints are well-formed, and each of its ports can be bound or is held by the running
  edge: for the HTTP/3 port that edge must say that it serves HTTP/3 there, and for the metrics port it must answer there.\<close>

theorem doctor_edge_exact: "countFailures (CheckEdge h cfg) = 0 \<longleftrightarrow> edge_ready h cfg"
  unfolding countFailures_0
  by (auto simp: CheckEdge_def edge_ready_def Let_def list.pred_map comp_def list_all_concat split: option.splits dest: udpBuffers_OK)

text \<open>The doctor observes and does not perturb: while the local agent's tunnel is live, checking the agent
  makes no connection to the edge and no handshake with it, only connections to the local services.\<close>

theorem doctor_observes:
  assumes "agentLiveTunnel h (AAdminSocket cfg) = Some fp"
  shows "list_all (\<lambda>t. t \<in> (DialService \<circ> Service) ` set (ARoutes cfg)) (snd (CheckAgent h cfg))"
  using assms
  by (auto simp: CheckAgent_def check_edge_path_def check_services_def Let_def list_all_iff split: sum.splits option.splits)

definition live_snapshot :: Snapshot where
  "live_snapshot = \<lparr>snRole = ''agent'', snConnected = True, snSince = Some 0, snActive = 0, snMax = 0, snTotal = 0,
     snBytesIn = 0, snBytesOut = 0, snReconnects = 0, snOK = 1, snFail = 0, snRejected = 0, snDup = 0, snCapped = 0,
     snLastError = [], snSelf = [], snPeer = ''SHA256:e'', snAgents = [], snHTTP3 = []\<rparr>"

definition sample_host :: host where
  "sample_host = \<lparr>ho_stat = \<lambda>_. None, ho_read = \<lambda>_. Inr ''pem'', ho_certs = \<lambda>_. [ca_template 1 0], ho_keypair = \<lambda>_ _. None,
     ho_bind = \<lambda>_ _. None, ho_bind_text = \<lambda>_. [], ho_status = \<lambda>s. if s = ''/run/coen/agent.sock'' then Some live_snapshot else None,
     ho_serves = \<lambda>_ _. False, ho_services = \<lambda>_ _. None, ho_url = \<lambda>_. None, ho_redacted = \<lambda>_. [], ho_lookup = \<lambda>_. None,
     ho_dial = \<lambda>_ _. None, ho_dial_text = \<lambda>_. [], ho_handshake = Inr ([], 0, 10), ho_now = 5, ho_time = \<lambda>_. [],
     ho_service = \<lambda>_. None, ho_addr_text = \<lambda>_. [], ho_fp_text = \<lambda>_. []\<rparr>"

definition doctored_config :: AgentConfig where
  "doctored_config =
     \<lparr>Edge = \<lparr>Address = ''edge.example:4443'', er_CA = ''ca.crt'', er_Cert = ''agent.crt'', er_Key = ''agent.key'', EdgeFingerprint = [], Proxy = []\<rparr>,
      ARoutes = [\<lparr>ar_Host = ''a.example'', Service = ''127.0.0.1:8080''\<rparr>], Reconnect_cfg = \<lparr>MinBackoff = 0, MaxBackoff = 0\<rparr>,
      ADrain = 0, ALog = \<lparr>Level = [], Format = []\<rparr>, AAdminSocket = ''/run/coen/agent.sock'', AMetricsListen = [], AVersion = []\<rparr>"

lemma sample_live: "agentLiveTunnel sample_host (AAdminSocket doctored_config) = Some ''SHA256:e''"
  by (simp add: agentLiveTunnel_def sample_host_def doctored_config_def live_snapshot_def)

theorem doctor_observes_witness:
  "snd (CheckAgent sample_host doctored_config) = [DialService ''127.0.0.1:8080''] \<and>
   list_all (\<lambda>t. t = DialService ''127.0.0.1:8080'') (snd (CheckAgent sample_host doctored_config))"
proof
  show "snd (CheckAgent sample_host doctored_config) = [DialService ''127.0.0.1:8080'']" by code_simp
  show "list_all (\<lambda>t. t = DialService ''127.0.0.1:8080'') (snd (CheckAgent sample_host doctored_config))"
    using doctor_observes [OF sample_live] by (simp add: doctored_config_def)
qed

end
