(* ===== verification/Commands.thy ===== *)
theory Commands
  imports Edge_Agents H3_Start Doctor
begin

text \<open>
  The commands that start a daemon (cli/run.go, \<^verbatim>\<open>newEdgeCmd\<close> and \<^verbatim>\<open>newAgentCmd\<close>) put the components together:
  the configuration is loaded, the logger made, the daemon's state built from the configuration and
  handed to \<^verbatim>\<open>runDaemon\<close>. Then \<^verbatim>\<open>coen install\<close> (cli/install.go), which writes the service definition and an
  example configuration, and the colours of a terminal (color.go).
\<close>

subsection \<open>Starting a daemon (run.go)\<close>

datatype cmd_error = CmdConfig config_error | CmdLog log_error | CmdMaterial | CmdAgent new_error | CmdTurn | CmdRun run_error

record daemonOpts =
  do_socket :: string
  do_metricsAddr :: string
  do_agent :: bool  \<comment> \<open>whether there is an agent SIGHUP can replace\<close>

text \<open>What the process finds when it starts: whether standard error is the journal, the certificate material
  with the fingerprint of its leaf, and the time.\<close>

record start_env =
  se_version :: string
  se_journal :: bool
  se_material :: "fingerprint option option"
  se_now :: instant

definition edge_begin :: "edge_env \<Rightarrow> start_env \<Rightarrow> string \<Rightarrow> cmd_error + edge \<times> edge_sys \<times> level \<times> daemonOpts" where
  "edge_begin env se cfgPath = (case LoadEdge env cfgPath of
      Inl e \<Rightarrow> Inl (CmdConfig e)
    | Inr cfg0 \<Rightarrow>
        (let cfg = cfg0\<lparr>Version := se_version se\<rparr>
         in case NewLogger (Level (Log cfg)) (Format (Log cfg)) (se_journal se) of
              Inl e \<Rightarrow> Inl (CmdLog e)
            | Inr (_, lv) \<Rightarrow> (case edge_New cfg (se_material se) (NewState ''edge'' (se_now se)) of
                  None \<Rightarrow> Inl CmdMaterial
                | Some (e, st) \<Rightarrow> Inr (e, st, lv, \<lparr>do_socket = AdminSocket cfg, do_metricsAddr = MetricsListen cfg, do_agent = False\<rparr>))))"

definition agent_begin :: "agent_env \<Rightarrow> start_env \<Rightarrow> (string option \<times> bool \<times> go_event) \<Rightarrow> string \<Rightarrow>
    cmd_error + agent \<times> State \<times> level \<times> daemonOpts" where
  "agent_begin env se turn cfgPath = (case LoadAgent env cfgPath of
      Inl e \<Rightarrow> Inl (CmdConfig e)
    | Inr cfg0 \<Rightarrow>
        (let cfg = cfg0\<lparr>AVersion := se_version se\<rparr>
         in case NewLogger (Level (ALog cfg)) (Format (ALog cfg)) (se_journal se) of
              Inl e \<Rightarrow> Inl (CmdLog e)
            | Inr (_, lv) \<Rightarrow> (case agent_New cfg (se_material se) (NewState ''agent'' (se_now se)) of
                  Inl e \<Rightarrow> Inl (CmdAgent e)
                | Inr (a, s) \<Rightarrow> (case turn of (v, report_ok, go) \<Rightarrow> (case awaitTurn v report_ok go of
                      None \<Rightarrow> Inl CmdTurn
                    | Some _ \<Rightarrow> Inr (a, s, lv, \<lparr>do_socket = AAdminSocket cfg, do_metricsAddr = AMetricsListen cfg, do_agent = True\<rparr>))))))"

text \<open>The commands: the error they exit with.\<close>

definition run_cmd :: "cmd_error + 'd \<times> 's \<times> level \<times> daemonOpts \<Rightarrow> string \<Rightarrow> bind_error option \<Rightarrow> Holder option \<Rightarrow> string option \<Rightarrow> bool \<Rightarrow> cmd_error option" where
  "run_cmd start rl listen holder run_err handover_failed = (case start of
      Inl e \<Rightarrow> Some e
    | Inr (_, _, _, opts) \<Rightarrow>
        map_option CmdRun (runDaemon (do_metricsAddr opts) listen holder rl run_err (do_agent opts \<and> handover_failed)))"

subsection \<open>Installing (install.go)\<close>

datatype node = File bytes | Directory

type_synonym tree = "string \<rightharpoonup> node"

text \<open>The host: its system, which paths can be examined and written, making a directory with its parents, and
  the service templates and examples that come with the binary.\<close>

record install_env =
  ie_goos :: string
  ie_mkdir :: "string \<Rightarrow> tree \<Rightarrow> tree option"
  ie_stat :: "string \<Rightarrow> bool"
  ie_write :: "string \<Rightarrow> tree \<Rightarrow> bool"
  ie_asset :: "string \<Rightarrow> bytes option"
  ie_render :: "bytes \<Rightarrow> (string \<times> string) list \<Rightarrow> string option"
  ie_user :: bool
  ie_group :: bool

datatype install_error = InstallRole | NoAsset string | RenderFailed | Unsupported string | MkdirError string | WriteError string

definition defaultUnitDir :: "string \<Rightarrow> string" where
  "defaultUnitDir goos = (if goos = ''darwin'' then ''/Library/LaunchDaemons'' else ''/etc/systemd/system'')"

definition renderTemplate :: "install_env \<Rightarrow> string \<Rightarrow> (string \<times> string) list \<Rightarrow> install_error + string" where
  "renderTemplate env asset data = (case ie_asset env asset of
      None \<Rightarrow> Inl (NoAsset asset)
    | Some t \<Rightarrow> (case ie_render env t data of None \<Rightarrow> Inl RenderFailed | Some s \<Rightarrow> Inr s))"

definition renderService :: "install_env \<Rightarrow> string \<Rightarrow> string \<Rightarrow> string \<Rightarrow> install_error + string \<times> string" where
  "renderService env rl bin configPath =
     (if ie_goos env = ''linux'' then
        map_sum id (\<lambda>c. (''coen-'' @ rl @ ''.service'', c))
          (renderTemplate env (''assets/coen-'' @ rl @ ''.service'') [(''Bin'', bin), (''Config'', configPath)])
      else if ie_goos env = ''darwin'' then
        map_sum id (\<lambda>c. (''com.coen.'' @ rl @ ''.plist'', c))
          (renderTemplate env ''assets/coen.plist''
            [(''Label'', ''com.coen.'' @ rl), (''Bin'', bin), (''Role'', rl), (''Config'', configPath), (''LogPath'', ''/var/log/coen-'' @ rl @ ''.log'')])
      else Inl (Unsupported (ie_goos env)))"

definition startCommand :: "string \<Rightarrow> string \<Rightarrow> string \<Rightarrow> string" where
  "startCommand goos rl unitPath =
     (if goos = ''darwin'' then ''sudo launchctl bootstrap system '' @ unitPath else ''sudo systemctl enable --now coen-'' @ rl)"

text \<open>Whether the missing service user is warned about.\<close>

definition checkServiceUser :: "install_env \<Rightarrow> bool" where
  "checkServiceUser env \<longleftrightarrow> \<not> (ie_user env \<and> ie_group env)"

definition WriteFile :: "install_env \<Rightarrow> string \<Rightarrow> bytes \<Rightarrow> tree \<Rightarrow> install_error option \<times> tree" where
  "WriteFile env p c fs = (if ie_write env p fs then (None, fs(p \<mapsto> File c)) else (Some (WriteError p), fs))"

definition write_unit :: "install_env \<Rightarrow> bool \<Rightarrow> string \<Rightarrow> bytes \<Rightarrow> tree \<Rightarrow> install_error option \<times> tree" where
  "write_unit env force p c fs =
     (if ie_stat env p \<and> (case fs p of Some (File _) \<Rightarrow> True | _ \<Rightarrow> False) \<and> \<not> force then (None, fs)
      else WriteFile env p c fs)"

text \<open>The example is written only when the configuration certainly does not exist.\<close>

definition write_example :: "install_env \<Rightarrow> string \<Rightarrow> string \<Rightarrow> tree \<Rightarrow> install_error option \<times> tree" where
  "write_example env rl p fs =
     (if ie_stat env p \<and> fs p = None then
        (case ie_asset env (''assets/'' @ rl @ ''.yaml'') of
           None \<Rightarrow> (Some (NoAsset (''assets/'' @ rl @ ''.yaml'')), fs)
         | Some example \<Rightarrow> WriteFile env p example fs)
      else (None, fs))"

text \<open>One step of the command after another, up to the first error.\<close>

fun until_error :: "(tree \<Rightarrow> install_error option \<times> tree) list \<Rightarrow> tree \<Rightarrow> install_error option \<times> tree" where
  "until_error [] fs = (None, fs)"
| "until_error (f # rest) fs = (case f fs of (Some e, fs') \<Rightarrow> (Some e, fs') | (None, fs') \<Rightarrow> until_error rest fs')"

definition MkdirAll :: "install_env \<Rightarrow> string \<Rightarrow> tree \<Rightarrow> install_error option \<times> tree" where
  "MkdirAll env d fs = (case ie_mkdir env d fs of None \<Rightarrow> (Some (MkdirError d), fs) | Some fs' \<Rightarrow> (None, fs'))"

definition install :: "install_env \<Rightarrow> string \<Rightarrow> string \<Rightarrow> string \<Rightarrow> bool \<Rightarrow> string \<Rightarrow> tree \<Rightarrow> install_error option \<times> tree" where
  "install env unitDir configDir bin force rl fs =
     (if rl \<noteq> ''edge'' \<and> rl \<noteq> ''agent'' then (Some InstallRole, fs)
      else
        (let configPath = Join [configDir, rl @ ''.yaml''];
             dir = (if unitDir = [] then defaultUnitDir (ie_goos env) else unitDir)
         in case renderService env rl bin configPath of
              Inl e \<Rightarrow> (Some e, fs)
            | Inr (filename, content) \<Rightarrow>
                until_error [MkdirAll env dir, write_unit env force (Join [dir, filename]) content, MkdirAll env configDir,
                  MkdirAll env (Join [configDir, rl @ ''.d'']), write_example env rl configPath] fs))"

subsection \<open>Colours (color.go)\<close>

text \<open>The environment variables and, when the writer is a file that can be examined, whether it is a terminal.\<close>

definition colorEnabled :: "string \<Rightarrow> string \<Rightarrow> bool option \<Rightarrow> bool" where
  "colorEnabled no_color term device \<longleftrightarrow> no_color = [] \<and> term \<noteq> ''dumb'' \<and> device = Some True"

definition ansiReset :: string where
  "ansiReset = CHR 0x1B # ''[0m''"

definition paint :: "string \<Rightarrow> string \<Rightarrow> bool \<Rightarrow> string" where
  "paint s color on = (if on then color @ s @ ansiReset else s)"

subsection \<open>A started edge\<close>

text \<open>
  What every part of an edge may assume of the state it is started with: the registry, the stream pool, the caps and
  the counters satisfy their invariants, and all references resolve. A route the matcher can return has its counters and
  at least one agent, and only agents the edge admits; certificates are shared only if they are admitted.
\<close>

definition route_typed :: "edge \<Rightarrow> edge_sys \<Rightarrow> routeState \<Rightarrow> bool" where
  "route_typed e st v \<longleftrightarrow> rs_stats v \<in> fst ` set (routes (es_state st)) \<and> rs_fingerprints v \<noteq> [] \<and>
     set (rs_fingerprints v) \<subseteq> e_allowed e"

definition edge_typed :: "edge \<Rightarrow> edge_sys \<Rightarrow> bool" where
  "edge_typed e st \<longleftrightarrow> reg_inv (es_rs st) \<and> h3_inv (es_h3 st) \<and> streams_ok (es_state st) \<and>
     sem_ok (es_sem st) \<and> (\<forall>p. sem_ok (es_route_sem st p)) \<and> shared (reg (es_rs st)) \<subseteq> e_allowed e \<and>
     (\<forall>hst v. Match (e_routes e) hst = Some v \<longrightarrow> route_typed e st v)"

lemma foldl_State_Route_keys:
  "fst ` set (routes (foldl (\<lambda>s r. State_Route (f r) s) s rs)) = fst ` set (routes s) \<union> f ` set rs"
  by (induction rs arbitrary: s) (auto simp: State_Route_def)

lemma foldl_sems: "(\<And>p. sem_ok (m p)) \<Longrightarrow> sem_ok (foldl (\<lambda>m r. m(f r := newSemaphore (g r))) m rs p)"
  by (induction rs arbitrary: m) (simp_all add: sem_ok_new)

lemma AllowedFingerprints_Union: "AllowedFingerprints c = (\<Union>r \<in> set (Routes c). set (Fingerprints r))"
proof -
  have "foldl (\<lambda>m r. m \<union> set (Fingerprints r)) A rs = A \<union> (\<Union>r \<in> set rs. set (Fingerprints r))" for A rs
    by (induction rs arbitrary: A) auto
  then show ?thesis by (simp add: AllowedFingerprints_def)
qed

lemma SharedFingerprints_allowed: "SharedFingerprints c \<subseteq> AllowedFingerprints c"
proof -
  have "foldl (\<lambda>m r. if AllowSharedCert r then m \<union> set (Fingerprints r) else m) A rs \<subseteq> A \<union> (\<Union>r \<in> set rs. set (Fingerprints r))" for A rs
  proof (induction rs arbitrary: A)
    case (Cons r rs)
    then show ?case using Cons.IH [of A] Cons.IH [of "A \<union> set (Fingerprints r)"] by auto
  qed simp
  then show ?thesis unfolding AllowedFingerprints_Union SharedFingerprints_def by force
qed

lemma streams_ok_frame:
  "streams_ok (SetSelfFingerprint fp s) = streams_ok s" "streams_ok (ExpectAgents fps s) = streams_ok s"
  by (simp_all add: streams_ok_def SetSelfFingerprint_def ExpectAgents_def)

lemma streams_ok_State_Routes: "streams_ok s \<Longrightarrow> streams_ok (foldl (\<lambda>s r. State_Route (f r) s) s rs)"
proof (induction rs arbitrary: s)
  case (Cons r rs)
  have "streams_ok (State_Route (f r) s)" using Cons.prems by (auto simp: streams_ok_def State_Route_def new_RouteStats_def)
  then show ?case using Cons.IH by simp
qed simp

lemma edge_New_typed:
  assumes "edge_New cfg material (NewState rl now) = Some (e, st)"
    and "list_all valid_agents (Routes cfg)"
  shows "edge_typed e st"
proof -
  from assms(1) obtain leaf where m: "material = Some leaf" by (cases material) (simp_all add: edge_New_def)
  let ?s = "ExpectAgents (AllowedFingerprints cfg) (case leaf of None \<Rightarrow> NewState rl now | Some fp \<Rightarrow> SetSelfFingerprint fp (NewState rl now))"
  from assms(1) have e: "e = \<lparr>e_cfg = cfg, e_allowed = AllowedFingerprints cfg, e_routes = Build (map edge_entry (Routes cfg))\<rparr>"
    and st: "es_rs st = \<lparr>reg = newRegistry\<lparr>shared := SharedFingerprints cfg\<rparr>, closedS = {}, usedS = {}\<rparr>" "es_h3 st = newH3Pool"
      "es_state st = foldl (\<lambda>s r. State_Route (Normalize (er_Host r)) s) ?s (Routes cfg)"
      "es_sem st = newSemaphore (ing_MaxConnections (Ingress cfg))"
      "es_route_sem st = foldl (\<lambda>m r. m(Normalize (er_Host r) := newSemaphore (er_MaxConnections r))) (\<lambda>_. None) (Routes cfg)"
    by (auto simp: edge_New_def m Let_def)
  have "reg_inv (es_rs st)" by (rule reg_inv_start) (auto simp: st reg_start_def)
  moreover have "h3_inv (es_h3 st)" by (rule h3_inv_start) (simp add: st h3_start_def)
  moreover have "streams_ok (NewState rl now)" using streams_ok_start [of rl now "[]"] by simp
  then have "streams_ok ?s" by (simp add: streams_ok_frame split: option.splits)
  then have "streams_ok (es_state st)" unfolding st(3) by (rule streams_ok_State_Routes)
  moreover have "sem_ok (es_sem st)" "\<forall>p. sem_ok (es_route_sem st p)"
    unfolding st by (rule sem_ok_new, intro allI foldl_sems) (simp add: sem_ok_def)
  moreover have "shared (reg (es_rs st)) \<subseteq> e_allowed e" using SharedFingerprints_allowed by (simp add: st e)
  moreover have "route_typed e st v" if "Match (e_routes e) hst = Some v" for hst v
  proof -
    from Match_Some_best [of "map edge_entry (Routes cfg)" hst v] that obtain r where r: "r \<in> set (Routes cfg)" "v = route_state r"
      by (auto simp: e best_entry_def edge_entry_def)
    then show ?thesis using assms(2)
      by (auto simp: route_typed_def route_state_def st(3) foldl_State_Route_keys e AllowedFingerprints_Union list_all_iff valid_agents_def)
  qed
  ultimately show ?thesis by (simp add: edge_typed_def)
qed

lemma edge_begin_typed:
  assumes "edge_begin env se cfgPath = Inr (e, st, lv, opts)"
  shows "edge_typed e st"
proof -
  from assms obtain cfg where c: "LoadEdge env cfgPath = Inr cfg"
    and n: "edge_New (cfg\<lparr>Version := se_version se\<rparr>) (se_material se) (NewState ''edge'' (se_now se)) = Some (e, st)"
    by (auto simp: edge_begin_def Let_def split: sum.splits option.splits)
  from LoadEdge_Inr [OF c] have "list_all valid_agents (Routes (cfg\<lparr>Version := se_version se\<rparr>))"
    by (auto simp: valid_edge_def valid_edge_route_def Let_def list_all_iff)
  with n show ?thesis by (rule edge_New_typed)
qed

text \<open>C6. An edge that starts is well-formed: from a configuration that loads, \<^verbatim>\<open>coen edge\<close> builds a state in which
  the registry, the HTTP/3 stream pool, the connection caps and the stream counters satisfy their invariants, and in
  which every route the matcher can return has its counters and at least one agent that the edge admits.\<close>

theorem started_edge_typed:
  assumes "edge_begin env se cfgPath = Inr (e, st, lv, opts)"
  shows "edge_typed e st"
  using assms by (rule edge_begin_typed)

definition sample_start :: start_env where
  "sample_start = \<lparr>se_version = ''1.0'', se_journal = False, se_material = Some (Some ''SHA256:e''), se_now = 0\<rparr>"

lemma sample_begin:
  "\<exists>e st lv opts sh. edge_begin sample_env sample_start ''e'' = Inr (e, st, lv, opts) \<and>
     e_routes e = Build (map edge_entry (Routes sample_edge)) \<and>
     es_rs st = \<lparr>reg = newRegistry\<lparr>shared := sh\<rparr>, closedS = {}, usedS = {}\<rparr>"
  by (simp add: edge_begin_def sample_load Let_def edge_New_def sample_start_def edge_defaults_def sample_edge_def
      NewLogger_def ParseLevel_def resolveFormat_def ToLower_def)
    blast

theorem started_edge_typed_witness:
  "\<exists>e st lv opts. edge_begin sample_env sample_start ''e'' = Inr (e, st, lv, opts) \<and> edge_typed e st"
  using sample_begin started_edge_typed by blast

subsection \<open>Installing keeps_files what is there\<close>

text \<open>A file kept by a step, whatever the step returns.\<close>

definition keeps_files :: "(string \<Rightarrow> bool) \<Rightarrow> (tree \<Rightarrow> install_error option \<times> tree) \<Rightarrow> bool" where
  "keeps_files P f \<longleftrightarrow> (\<forall>fs p c. P p \<longrightarrow> fs p = Some (File c) \<longrightarrow> snd (f fs) p = Some (File c))"

lemma keeps_files_until_error: "list_all (keeps_files P) fns \<Longrightarrow> keeps_files P (until_error fns)"
proof (induction fns)
  case (Cons f fns)
  then show ?case unfolding keeps_files_def by (auto split: option.splits prod.splits) (metis snd_conv)+
qed (simp add: keeps_files_def)

text \<open>An operator's files survive an installation: as long as making a directory leaves files alone, no file that can be
  examined is changed, whether the installation succeeds or not, save the service definition under \<^verbatim>\<open>--force\<close>.\<close>

theorem install_preserves_files:
  assumes "\<And>d fs fs' p c. ie_mkdir env d fs = Some fs' \<Longrightarrow> fs p = Some (File c) \<Longrightarrow> fs' p = Some (File c)"
    and "\<And>p. ie_stat env p" and "\<not> force" and "fs p = Some (File c)"
  shows "snd (install env unitDir configDir bin force rl fs) p = Some (File c)"
proof -
  have mk: "keeps_files (\<lambda>_. True) (MkdirAll env d)" for d
    using assms(1) by (auto simp: keeps_files_def MkdirAll_def split: option.splits)
  have u: "keeps_files (\<lambda>_. True) (write_unit env force q b)" for q b
    using assms(2,3) by (auto simp: keeps_files_def write_unit_def WriteFile_def)
  have x: "keeps_files (\<lambda>_. True) (write_example env rl q)" for q
    by (auto simp: keeps_files_def write_example_def WriteFile_def split: option.splits)
  have k: "keeps_files (\<lambda>_. True) (until_error [MkdirAll env a, write_unit env force q b, MkdirAll env d, MkdirAll env d', write_example env rl q'])"
    for a q b d d' q' using mk u x by (intro keeps_files_until_error) simp
  show ?thesis
  proof (cases "rl \<noteq> ''edge'' \<and> rl \<noteq> ''agent''")
    case False
    then show ?thesis using k assms(4) unfolding keeps_files_def
      by (auto simp: install_def Let_def simp del: until_error.simps split: sum.splits)
  qed (simp add: install_def assms(4))
qed

subsection \<open>An agent joins its routes\<close>

definition vacant :: "(session \<Rightarrow> bool) \<Rightarrow> fingerprint \<Rightarrow> registry \<Rightarrow> bool" where
  "vacant closed fp r \<longleftrightarrow> fp \<in> shared r \<or> filter (\<lambda>c. \<not> closed (csess c)) (pool r fp) = []"

lemma hasLiveExclusive_vacant: "vacant closed fp r \<Longrightarrow> hasLiveExclusive closed fp r = (False, snd (liveLocked closed fp r))"
  using liveLocked_fst [of closed fp r] liveLocked_frame(4) [of closed fp r]
  by (auto simp: hasLiveExclusive_def duplicateLocked_def vacant_def split_beta)

lemma vacant_liveLocked: "vacant closed fp (snd (liveLocked closed fp r)) = vacant closed fp r"
  by (simp add: vacant_def liveLocked_frame liveLocked_pool)

lemma registerConn_vacant:
  assumes "\<not> closing r" and "\<not> closed (csess c)" and "vacant closed fp r" and "count_of (joined r) fp < maxSharedSessions"
  shows "fst (fst (registerConn closed fp c r)) = registered"
    and "pool (snd (registerConn closed fp c r)) fp = filter (\<lambda>c. \<not> closed (csess c)) (pool r fp) @ [c]"
proof -
  obtain live r1 where l: "liveLocked closed fp r = (live, r1)" by force
  have live: "live = filter (\<lambda>c. \<not> closed (csess c)) (pool r fp)" using liveLocked_fst [of closed fp r] l by simp
  have fr: "closing r1 = closing r" "joined r1 = joined r" "shared r1 = shared r" using liveLocked_frame [of closed fp r] l by simp_all
  have d: "\<not> duplicateLocked r1 fp live" using assms(3) by (auto simp: vacant_def duplicateLocked_def fr live)
  show "fst (fst (registerConn closed fp c r)) = registered"
    using assms d by (simp add: registerConn_def l fr Let_def not_le)
  have "pool (snd (registerConn closed fp c r)) fp = live @ [c]"
    using assms d by (auto simp: registerConn_def l fr Let_def unpendLocked_def pool_def split: option.splits)
  then show "pool (snd (registerConn closed fp c r)) fp = filter (\<lambda>c. \<not> closed (csess c)) (pool r fp) @ [c]" by (simp add: live)
qed

lemma serve_ready_joins:
  assumes "\<not> closing (reg (es_rs st))" and "s \<notin> closedS (es_rs st)" and "vacant (is_closed (es_rs st)) (sv_fp sv) (reg (es_rs st))"
    and "count_of (joined (reg (es_rs st))) (sv_fp sv) < maxSharedSessions"
  shows "\<exists>st'. serve_ready sv alone s b st = (serve_outcome.Serving, st') \<and> closedS (es_rs st') = closedS (es_rs st) \<and>
    \<lparr>cfp = sv_fp sv, csess = s, cv2 = (sv_proto sv = ALPNv2)\<rparr> \<in> set (pool (reg (es_rs st')) (sv_fp sv))"
proof -
  let ?c = "\<lparr>cfp = sv_fp sv, csess = s, cv2 = (sv_proto sv = ALPNv2)\<rparr>"
  have nc: "\<not> is_closed (es_rs st) (csess ?c)" using assms(2) by simp
  obtain n r where r: "registerConn (is_closed (es_rs st)) (sv_fp sv) ?c (reg (es_rs st)) = ((registered, n), r)"
    using registerConn_vacant(1) [OF assms(1) nc assms(3,4)] by (metis prod.collapse)
  have "?c \<in> set (pool r (sv_fp sv))" using registerConn_vacant(2) [OF assms(1) nc assms(3,4)] r by simp
  then show ?thesis by (simp add: serve_ready_def register_retry_def edge_register_def r Let_def)
qed



end
