(* ===== verification/Spec2Isabelle.thy ===== *)
theory Spec2Isabelle
  imports Commands
begin

text \<open>
  A verification development for coen, a self-hosted tunnel. An \<^emph>\<open>edge\<close> runs on a public host and
  accepts HTTP connections; \<^emph>\<open>agents\<close> run next to the services and each keep one multiplexed,
  mutually authenticated TLS session to the edge open. The edge routes a request by its Host to one
  of the agents the route allows, opens a stream on that agent's session, writes a preamble and the
  bytes of the request; the agent matches the host against its own routes, dials the service and
  copies the two streams into each other.

  \<^bold>\<open>Conventions.\<close> A Go string or byte slice is a char list; a struct is a record and an enumeration
  a datatype; an error is a value of a sum or option type, one branch per return of the code; a map
  is a HOL map or, where its order or its duplicates matter, an association list, and the order in
  which Go ranges over a map is an argument. Counters that only atomics touch are integers; an
  integer keeps its width where the code relies on it (the rotation of the balancer, the shard
  index, the reconnect backoff). What the operating system, the peer, the clock, the scheduler and
  the libraries outside the repository (yamux, quic-go, crypto/tls, encoding/json, yaml) decide is
  an argument of the operation: an environment record lists what each read, write, dial and wait
  returned. A function over such a list gives \<open>None\<close> when the list ends before the loop does, so
  no bound is built into a loop; where the code promises to return, that is a theorem
  (\<open>Dispatch.dispatch_returns\<close>). Code that runs concurrently is an inductive step relation whose
  steps are the critical sections of the code, and its invariants hold in every interleaving.

  \<^bold>\<open>Shared theories.\<close>
  \<^item> \<open>Coen_Prelude\<close>: types, the collections \<open>coen_simps\<close> and \<open>coen_inv\<close>, list lemmas, reachability
    and the locale \<open>inductive_invariant\<close>, interpreted by each step relation.
  \<^item> \<open>Go_Strings\<close>, \<open>Go_Net\<close>, \<open>Go_Path\<close>, \<open>Go_Base64\<close>: what the code uses of the packages strings, bytes,
    net, net/netip, strconv, path, filepath and encoding/base64.

  \<^bold>\<open>Components.\<close>
  \<^item> \<open>Route\<close> (internal/route): host normalisation, pattern validation, \<open>Build\<close> and \<open>Match\<close>; the
    matcher refines the specification: exact entry, else longest wildcard, else default.
  \<^item> \<open>Tunnel\<close> (internal/tunnel): the preamble frame, the accept byte, the drain request and its
    answer on a control stream; the encoder and the reader are inverse, and an answer is given to
    exactly the drain requests.
  \<^item> \<open>Config\<close> (internal/config): the two configurations, their validation, loading and drop-ins;
    the edge's validation is equivalent to a declarative predicate, and a loaded configuration has
    unambiguous routes and certificates that are shared everywhere or nowhere.
  \<^item> \<open>Obs\<close> (internal/obs): the counters of a daemon, its snapshots and the drain wait.
  \<^item> \<open>Registry\<close> (edge/registry.go): the tracked, joined and pooled agent sessions; one session per
    unshared certificate, the caps, and the state after \<open>closeAll\<close>.
  \<^item> \<open>Agent_Conn\<close> (edge/edge.go, agentConn): opens in flight, retirement and the drain
    acknowledgement, as a step relation.
  \<^item> \<open>Balancer\<close>, \<open>Dispatch\<close> (edge/edge.go): the choice of a session, opening a stream on it, the
    retries, the wait for an agent; a request is handed out at most once.
  \<^item> \<open>Edge_Ingress_Head\<close>, \<open>Edge_Ingress\<close> (edge/http.go, limit.go, edge.go): reading the request
    head, the connection caps, \<open>handleIngress\<close>, the accept loop, start and stop.
  \<^item> \<open>Edge_State\<close>, \<open>Edge_Agents\<close> (edge/edge.go): the state of a running edge and its slots, serving
    an agent's connection from the TLS handshake to its end.
  \<^item> \<open>Alt_Svc\<close>, \<open>Errpage\<close>, \<open>Stream_Pipe\<close> (edge/altsvc.go, internal/errpage, internal/proxy): the
    rewriting of response heads, the error pages, copying two streams into each other.
  \<^item> \<open>H3_Pool\<close>, \<open>H3_Request\<close>, \<open>H3_Response\<close>, \<open>H3_Serve\<close>, \<open>H3_Conn\<close>, \<open>H3_Start\<close> (edge/h3pool.go, http3.go,
    http3ws.go): the pool of kept tunnel streams, rendering an HTTP/3 request as HTTP/1.1, bounding
    and copying the response, serving a request with its one possible resend, the idle timer of a
    QUIC connection, and setting up the listener.
  \<^item> \<open>Agent\<close> (internal/agent): \<open>handleStream\<close>, \<open>serveStream\<close>, the connection to the edge, the
    reconnect loop and the shutdown of a session.

  \<^item> \<open>Netx\<close> (internal/netx): \<open>Dial\<close>, directly or through a proxy. What \<open>http.ReadResponse\<close> and the closing of
    a body take from a connection is written out, so that the bytes left for the tunnel can be
    stated: exactly those after the answer's head, however they arrive, unless the answer has a body.
  \<^item> \<open>Pki\<close> (internal/pki, cli/cert.go, tunnel/material.go): the authority, the certificates it issues,
    fingerprints; what is written to the directory is what loads again.
  \<^item> \<open>Metrics\<close> (internal/metrics): the families, the text format with its escaping, the probe; every
    sample is read back, and a probe recognises a daemon by its scrape whatever its labels hold.
  \<^item> \<open>Logging\<close> (obs/log.go, journal.go, id.go): levels, formats, the journal handler; a line is read back.
  \<^item> \<open>Admin\<close> (internal/admin): requests on the status socket, and the socket path that daemons take over
    from each other under a file lock, as a step relation.
  \<^item> \<open>Reload\<close> (internal/handoff, internal/sdnotify, cli/replace.go): a running agent replaced by a new
    process, as a step relation over both processes and systemd.
  \<^item> \<open>Daemon\<close> (cli/run.go, status.go, detect.go, detect_linux.go): the metrics port with its retries,
    signals, the daemon found in the process table, the text of a status.
  \<^item> \<open>Doctor\<close> (internal/doctor, cli/doctor.go): the checks; a clean report is equivalent to a
    declarative predicate of the host, for both roles.
  \<^item> \<open>Commands\<close> (cli/run.go, install.go, color.go): the commands that start a daemon, from the
    configuration to a state in which all components' invariants hold and an agent that connects is
    offered to its routes; the installation.

  The standard library is modelled where its behaviour decides a property (\<open>Go_Strings\<close>, \<open>Go_Net\<close>,
  \<open>Go_Path\<close>, \<open>Go_Base64\<close>, the response reader of \<open>Netx\<close>, \<open>strconv.Quote\<close> on ASCII in \<open>Logging\<close>). The last section
  of this theory composes the edge, the tunnel and the agent.

  \<^bold>\<open>Not modelled.\<close> The TLS, QUIC and yamux protocols, the cryptography of X.509, JSON and YAML decoding and
  text/template: they are arguments, with their documented laws as hypotheses where a theorem needs them.
  Making a yamux session only passes settings to that library. The registration of commands and flags with cobra, the version
  command, the process listing of macOS and the Windows error codes are glue; the test helpers
  (netx/proxytest, obs/obstest) are not part of the program. Log output is left out except for the
  format of a line.
\<close>

subsection \<open>From a client to its backend\<close>

lemma edge_to_agent_stream:
  assumes "EncodePreamble p = Inr preamble" and "unmarshal (Marshal p) = Some p"
  shows "ReadPreamble unmarshal \<lparr>avail = preamble @ rest, ending = e\<rparr> = Inr (p, \<lparr>avail = rest, ending = e\<rparr>)"
  using ReadPreamble_frame [OF assms(1), of unmarshal rest e] assms(2) by simp


definition sample_backend :: agent where
  "sample_backend = \<lparr>a_routes = Build [agent_entry \<lparr>ar_Host = ''b'', Service = ''s:80''\<rparr>], a_serverName = ''e'', a_version = ''''\<rparr>"

definition sample_agent_env :: "bytes \<Rightarrow> stream_env" where
  "sample_agent_env b = \<lparr>hs_accept = True, hs_stream = \<lparr>avail = b, ending = EOF\<rparr>, hs_dial = True, hs_sizes = [64],
     hs_service_writes = [(length sample_head + 2, None)], hs_service_reads = [([], Some EOF)], hs_stream_writes = [],
     hs_stream_first = True\<rparr>"


end
